(* ===== verification/Prelude.thy ===== *)
theory Prelude
  imports Main "HOL-Library.Word" "HOL-Library.Monad_Syntax"
begin

unbundle bit_operations_syntax

text \<open>
  Shared vocabulary of the development.

  \<^item> The machine integers of the target (a 32-bit little-endian Raspberry Pi: \<open>int\<close>,
    \<open>unsigned long\<close>, \<open>size_t\<close> and pointers are 32 bits wide) as words.
  \<^item> \<open>c_error\<close>: the ways in which C code goes wrong without an error code.  An operation that
    may do so returns \<open>c_error + 'a\<close>; the sum is a monad (\<open>sbind\<close>), so that a C statement
    sequence is a sequence of binds.
  \<^item> The theorem collections of the development and the lemmas on words, lists and sums
    that several components use.
\<close>

section \<open>Types of the target\<close>

type_synonym u8 = "8 word"
type_synonym u16 = "16 word"
type_synonym u32 = "32 word"

datatype c_error =
    NullDeref      \<comment> \<open>access through a null pointer\<close>
  | OutOfBounds    \<comment> \<open>access outside of an array or of a mapping\<close>
  | UseAfterFree   \<comment> \<open>access to memory that was given back\<close>
  | ReadOnlyStore  \<comment> \<open>store into a mapping that was attached read-only\<close>
  | Uninitialised  \<comment> \<open>use of a variable that was never set\<close>
  | Hangs          \<comment> \<open>a busy loop that never ends\<close>

type_synonym 'a c_result = "c_error + 'a"

section \<open>Sequencing of fallible statements\<close>

fun sbind :: "'a c_result \<Rightarrow> ('a \<Rightarrow> 'b c_result) \<Rightarrow> 'b c_result" where
  "sbind (Inl e) f = Inl e"
| "sbind (Inr x) f = f x"

fun sfoldM :: "('a \<Rightarrow> 's \<Rightarrow> 's c_result) \<Rightarrow> 'a list \<Rightarrow> 's \<Rightarrow> 's c_result" where
  "sfoldM f [] s = Inr s"
| "sfoldM f (x # xs) s = sbind (f x s) (sfoldM f xs)"

lemma sbind_assoc: "sbind (sbind m f) g = sbind m (\<lambda>x. sbind (f x) g)"
  by (cases m) simp_all

lemma sbind_Inr_iff: "sbind m f = Inr y \<longleftrightarrow> (\<exists>x. m = Inr x \<and> f x = Inr y)"
  by (cases m) simp_all

lemma sbind_InrE:
  assumes "sbind m f = Inr y"
  obtains x where "m = Inr x" "f x = Inr y"
  using assms by (auto simp: sbind_Inr_iff)

lemma sbind_split: "P (sbind m f) \<longleftrightarrow>
    (\<forall>e. m = Inl e \<longrightarrow> P (Inl e)) \<and> (\<forall>x. m = Inr x \<longrightarrow> P (f x))"
  by (cases m) simp_all

lemma sfoldM_append: "sfoldM f (xs @ ys) s = sbind (sfoldM f xs s) (sfoldM f ys)"
  by (induction xs arbitrary: s) (simp_all add: sbind_assoc split: sbind_split)

text \<open>A fold of steps that succeed and keep an invariant succeeds and keeps it.\<close>

lemma sfoldM_invariant:
  assumes "\<And>x s. x \<in> set xs \<Longrightarrow> I s \<Longrightarrow> \<exists>s'. f x s = Inr s' \<and> I s'" and "I s"
  shows "\<exists>s'. sfoldM f xs s = Inr s' \<and> I s'"
  using assms
proof (induction xs arbitrary: s)
  case Nil
  then show ?case by simp
next
  case (Cons x xs)
  from Cons.prems obtain s' where "f x s = Inr s'" "I s'" by (meson list.set_intros(1))
  moreover have "\<exists>s''. sfoldM f xs s' = Inr s'' \<and> I s''"
    using Cons.IH [of s'] Cons.prems(1) \<open>I s'\<close> by simp
  ultimately show ?case by simp
qed

text \<open>An operation that cannot go wrong in the states of \<open>I\<close> and stays in them.\<close>

definition total_on :: "('s \<Rightarrow> bool) \<Rightarrow> ('s \<Rightarrow> 's c_result) \<Rightarrow> bool" where
  "total_on I f \<longleftrightarrow> (\<forall>s. I s \<longrightarrow> (\<exists>s'. f s = Inr s' \<and> I s'))"

lemma total_onI: "(\<And>s. I s \<Longrightarrow> \<exists>s'. f s = Inr s' \<and> I s') \<Longrightarrow> total_on I f"
  by (simp add: total_on_def)

lemma total_onE:
  assumes "total_on I f" "I s"
  obtains s' where "f s = Inr s'" "I s'"
  using assms by (auto simp: total_on_def)

lemma total_on_Inr [intro]: "total_on I Inr"
  by (simp add: total_on_def)

lemma total_on_bind [intro]:
  assumes "total_on I f" "total_on I g"
  shows "total_on I (\<lambda>s. sbind (f s) g)"
proof (rule total_onI)
  fix s
  assume "I s"
  then obtain s1 where "f s = Inr s1" "I s1" by (rule total_onE [OF assms(1)])
  then show "\<exists>s'. sbind (f s) g = Inr s' \<and> I s'" using assms(2) by (auto elim: total_onE)
qed

lemma total_on_fold:
  assumes "\<And>x. x \<in> set xs \<Longrightarrow> total_on I (f x)"
  shows "total_on I (sfoldM f xs)"
proof (rule total_onI)
  fix s
  assume "I s"
  then show "\<exists>s'. sfoldM f xs s = Inr s' \<and> I s'"
    using assms by (intro sfoldM_invariant) (auto simp: total_on_def)
qed

section \<open>Theorem collections\<close>

named_theorems tables \<open>the constant tables of the program, for evaluation\<close>
named_theorems step_defs \<open>definitions of the operations a step is made of\<close>
named_theorems frame \<open>what an operation leaves unchanged\<close>

section \<open>Words\<close>

text \<open>C reads an integer as a truth value: everything but zero is true.\<close>

definition truthy :: "'w::len word \<Rightarrow> bool" where
  "truthy w \<longleftrightarrow> w \<noteq> 0"

lemma bit_mask_single: "n < LENGTH('w) \<Longrightarrow> bit (push_bit n 1 :: 'w::len word) m \<longleftrightarrow> m = n"
  by (auto simp: bit_push_bit_iff bit_1_iff bit_imp_le_length simp del: push_bit_of_1)

lemma and_not_clears: "bit (w AND NOT m) n \<longleftrightarrow> bit w n \<and> \<not> bit m n"
  for w :: "'w::len word"
  by (auto simp: bit_and_iff bit_not_iff bit_imp_le_length)

lemma bit_as_shift: "(drop_bit n w AND 1 = (1 :: 'w::len word)) \<longleftrightarrow> bit w n"
  by (simp add: and_one_eq bit_iff_odd_drop_bit mod2_eq_if)

lemma u32_of_u8 [simp]: "unat (ucast (b :: u8) :: u32) = unat b"
  by (simp add: unsigned_ucast_eq take_bit_nat_eq_self order_less_le_trans [OF unsigned_less])

lemma unat_Suc_if_less:
  fixes w v :: "'w::len word"
  assumes "w < v"
  shows "unat (w + 1) = Suc (unat w)"
proof -
  have "unat v < 2 ^ LENGTH('w)" by (rule unsigned_less)
  moreover from assms have "unat w < unat v" by (simp add: word_less_nat_alt)
  ultimately have "Suc (unat w) < 2 ^ LENGTH('w)" by linarith
  then show ?thesis by (simp add: unat_word_ariths)
qed

section \<open>Lists read as arrays\<close>

text \<open>An array access of C, with the access outside of the array as an error.\<close>

definition aget :: "'a list \<Rightarrow> nat \<Rightarrow> 'a c_result" where
  "aget xs i = (if i < length xs then Inr (xs ! i) else Inl OutOfBounds)"

definition aset :: "'a list \<Rightarrow> nat \<Rightarrow> 'a \<Rightarrow> 'a list c_result" where
  "aset xs i x = (if i < length xs then Inr (xs[i := x]) else Inl OutOfBounds)"

lemma aget_Inr [simp]: "i < length xs \<Longrightarrow> aget xs i = Inr (xs ! i)"
  by (simp add: aget_def)

lemma aset_Inr [simp]: "i < length xs \<Longrightarrow> aset xs i x = Inr (xs[i := x])"
  by (simp add: aset_def)

lemma aget_outside [simp]: "\<not> i < length xs \<Longrightarrow> aget xs i = Inl OutOfBounds"
  by (simp add: aget_def)

lemma aset_outside [simp]: "\<not> i < length xs \<Longrightarrow> aset xs i x = Inl OutOfBounds"
  by (simp add: aset_def)

lemma all_less_Suc_iff: "(\<forall>i < Suc n. P i) \<longleftrightarrow> P 0 \<and> (\<forall>i < n. P (Suc i))"
  by (metis less_Suc_eq_0_disj not_less_eq)

end
