(* ===== verification/CLib.thy ===== *)
theory CLib
  imports Prelude "HOL-Library.Sublist"
begin

text \<open>
  The part of the C library that the program computes with: character classes, substring
  search, \<open>strtok\<close>, \<open>strncpy\<close>, \<open>strtoul\<close>, \<open>sscanf\<close>, decimal output, \<open>fgets\<close> and the option scan of
  \<open>getopt\<close>.  A C string is the list of its characters up to its terminator; a character array
  is a list that may contain the terminator \<open>NUL\<close>.
\<close>

section \<open>Characters\<close>

abbreviation NUL :: char where "NUL \<equiv> CHR 0x00"
abbreviation NL :: char where "NL \<equiv> CHR 0x0A"
abbreviation CR :: char where "CR \<equiv> CHR 0x0D"

definition c_isspace :: "char \<Rightarrow> bool" where
  "c_isspace c \<longleftrightarrow> c \<in> {CHR '' '', CHR 0x09, CHR 0x0A, CHR 0x0B, CHR 0x0C, CHR 0x0D}"

definition c_isdigit :: "char \<Rightarrow> bool" where
  "c_isdigit c \<longleftrightarrow> 48 \<le> (of_char c :: nat) \<and> (of_char c :: nat) \<le> 57"

definition digit_value :: "char \<Rightarrow> nat" where
  "digit_value c = of_char c - 48"

definition c_tolower :: "char \<Rightarrow> char" where
  "c_tolower c = (let n = (of_char c :: nat) in if 65 \<le> n \<and> n \<le> 90 then char_of (n + 32) else c)"

section \<open>Strings and arrays\<close>

text \<open>The string held by a character array, and whether the array holds one at all.\<close>

definition cstr :: "string \<Rightarrow> string" where
  "cstr a = takeWhile (\<lambda>c. c \<noteq> NUL) a"

definition terminated :: "string \<Rightarrow> bool" where
  "terminated a \<longleftrightarrow> NUL \<in> set a"

text \<open>\<open>strncpy\<close> fills the array: the source, cut to the array's length or padded with \<open>NUL\<close>.\<close>

definition strncpy :: "string \<Rightarrow> nat \<Rightarrow> string" where
  "strncpy s n = take n (s @ replicate n NUL)"

text \<open>\<open>strstr\<close> and \<open>strcasestr\<close>: the offset of the first occurrence.\<close>

fun strstr :: "string \<Rightarrow> string \<Rightarrow> nat option" where
  "strstr [] needle = (if needle = [] then Some 0 else None)"
| "strstr (c # cs) needle =
     (if prefix needle (c # cs) then Some 0 else map_option Suc (strstr cs needle))"

definition strcasestr :: "string \<Rightarrow> string \<Rightarrow> nat option" where
  "strcasestr h n = strstr (map c_tolower h) (map c_tolower n)"

text \<open>\<open>strrchr\<close>: the offset of the last occurrence.\<close>

fun strrchr :: "string \<Rightarrow> char \<Rightarrow> nat option" where
  "strrchr [] c = None"
| "strrchr (x # xs) c =
     (case strrchr xs c of Some i \<Rightarrow> Some (Suc i) | None \<Rightarrow> if x = c then Some 0 else None)"

text \<open>
  One call of \<open>strtok\<close> on what the previous call left: the delimiters in front are skipped, the
  token reaches to the next delimiter, which is overwritten; the rest starts behind it.
\<close>

definition strtok_next :: "(char \<Rightarrow> bool) \<Rightarrow> string \<Rightarrow> (string \<times> string) option" where
  "strtok_next delim s =
     (let t = dropWhile delim s
      in if t = [] then None
         else Some (takeWhile (\<lambda>c. \<not> delim c) t, drop 1 (dropWhile (\<lambda>c. \<not> delim c) t)))"

lemma strtok_next_shorter: "strtok_next delim s = Some (t, r) \<Longrightarrow> length r < length s"
proof -
  assume a: "strtok_next delim s = Some (t, r)"
  let ?t = "dropWhile delim s"
  from a have ne: "?t \<noteq> []" and r: "r = drop 1 (dropWhile (\<lambda>c. \<not> delim c) ?t)"
    by (auto simp: strtok_next_def Let_def split: if_splits)
  have "length (dropWhile (\<lambda>c. \<not> delim c) ?t) \<le> length ?t"
    by (rule length_dropWhile_le)
  moreover have "length ?t \<le> length s" by (rule length_dropWhile_le)
  moreover have "0 < length ?t" using ne by blast
  ultimately show ?thesis unfolding r length_drop by linarith
qed

text \<open>All tokens of a string: the specification of a run of \<open>strtok\<close>.\<close>

function tokens :: "(char \<Rightarrow> bool) \<Rightarrow> string \<Rightarrow> string list" where
  "tokens delim s = (case strtok_next delim s of None \<Rightarrow> [] | Some (t, r) \<Rightarrow> t # tokens delim r)"
  by pat_completeness auto

termination
  by (relation "measure (\<lambda>(d, s). length s)") (auto dest: strtok_next_shorter)

declare tokens.simps [simp del]

section \<open>Numbers\<close>

definition digits_value :: "string \<Rightarrow> nat" where
  "digits_value ds = foldl (\<lambda>a c. 10 * a + digit_value c) 0 ds"

definition ULONG_MAX :: nat where
  "ULONG_MAX = 2 ^ 32 - 1"

text \<open>
  The subject of a conversion: the white space in front, whether there is a minus sign, the
  sign's length, and the digits.
\<close>

definition subject :: "string \<Rightarrow> nat \<times> bool \<times> nat \<times> string" where
  "subject s =
     (let t = dropWhile c_isspace s; sp = length s - length t
      in case t of
           [] \<Rightarrow> (sp, False, 0, [])
         | c # cs \<Rightarrow>
             if c = CHR ''-'' then (sp, True, 1, takeWhile c_isdigit cs)
             else if c = CHR ''+'' then (sp, False, 1, takeWhile c_isdigit cs)
             else (sp, False, 0, takeWhile c_isdigit t))"

text \<open>
  \<open>strtoul (s, &end, 10)\<close>: the value and the offset of \<open>end\<close>.  Without digits nothing is converted
  and \<open>end\<close> is the start; a value that does not fit is \<open>ULONG_MAX\<close>; a minus sign negates in the
  unsigned type.
\<close>

definition strtoul :: "string \<Rightarrow> u32 \<times> nat" where
  "strtoul s =
     (case subject s of (sp, neg, sg, ds) \<Rightarrow>
        if ds = [] then (0, 0)
        else let v = digits_value ds;
                 w = (if v > ULONG_MAX then of_nat ULONG_MAX
                      else if neg then - of_nat v else of_nat v)
             in (w, sp + sg + length ds))"

text \<open>The characters that \<open>strtoul\<close> looks at before it finds one it does not convert.\<close>

definition strtoul_scan :: "string \<Rightarrow> nat" where
  "strtoul_scan s = (case subject s of (sp, neg, sg, ds) \<Rightarrow> sp + sg + length ds)"

text \<open>
  \<open>sscanf (s, "%d", &v)\<close>: \<open>None\<close> if there is no conversion.  The number is stored in an \<open>int\<close>.
\<close>

definition sscanf_d :: "string \<Rightarrow> u32 option" where
  "sscanf_d s =
     (case subject s of (sp, neg, sg, ds) \<Rightarrow>
        if ds = [] then None
        else Some (if neg then - of_nat (digits_value ds) else of_nat (digits_value ds)))"

text \<open>Decimal output, as of the conversions \<open>%u\<close> and \<open>%d\<close>.\<close>

fun show_nat :: "nat \<Rightarrow> string" where
  "show_nat n = (if n < 10 then [char_of (48 + n)] else show_nat (n div 10) @ [char_of (48 + n mod 10)])"

declare show_nat.simps [simp del]

definition show_u :: "'w::len word \<Rightarrow> string" where
  "show_u w = show_nat (unat w)"

definition show_d :: "u32 \<Rightarrow> string" where
  "show_d w = (if sint w < 0 then CHR ''-'' # show_nat (nat (- sint w)) else show_nat (nat (sint w)))"

section \<open>Lines\<close>

text \<open>
  \<open>fgets (line, n, f)\<close> on the unread text: at most \<open>n - 1\<close> characters, up to and with the first
  newline.  At the end of the text it returns the null pointer and leaves the array alone.
\<close>

definition fgets :: "nat \<Rightarrow> string \<Rightarrow> (string \<times> string) option" where
  "fgets n txt =
     (if txt = [] then None
      else let l = takeWhile (\<lambda>c. c \<noteq> NL) txt;
               k = min (n - 1) (length l + 1)
           in Some (take k txt, drop k txt))"

section \<open>Options\<close>

text \<open>
  \<open>getopt\<close> with an option string as \<open>ag:s:\<close>.  The result is the sequence of (option, argument)
  pairs that the loop over \<open>getopt\<close> sees, the unknown option and the missing argument being
  the option \<open>?\<close>.  Operands are skipped, as the GNU library does by permuting the arguments.
\<close>

fun opt_arity :: "string \<Rightarrow> char \<Rightarrow> bool option" where
  "opt_arity [] c = None"
| "opt_arity (x # xs) c =
     (if x = c \<and> c \<noteq> CHR '':'' then Some (case xs of [] \<Rightarrow> False | y # _ \<Rightarrow> y = CHR '':'')
      else opt_arity xs c)"

function getopt_run :: "string \<Rightarrow> string \<Rightarrow> string list \<Rightarrow> (char \<times> string) list" where
  "getopt_run ostr [] [] = []"
| "getopt_run ostr [] (a # as) =
     (if a = ''--'' then []
      else if 1 < length a \<and> hd a = CHR ''-'' then getopt_run ostr (tl a) as
      else getopt_run ostr [] as)"
| "getopt_run ostr (c # cs) as =
     (case opt_arity ostr c of
        None \<Rightarrow> (CHR ''?'', []) # getopt_run ostr cs as
      | Some False \<Rightarrow> (c, []) # getopt_run ostr cs as
      | Some True \<Rightarrow>
          if cs \<noteq> [] then (c, cs) # getopt_run ostr [] as
          else case as of
                 [] \<Rightarrow> [(CHR ''?'', [])]
               | x # xs \<Rightarrow> (c, x) # getopt_run ostr [] xs)"
  by pat_completeness auto

termination
  by (relation "measure (\<lambda>(ostr, cs, as). length cs + sum_list (map (\<lambda>a. length a + 1) as))") auto

definition getopt :: "string \<Rightarrow> string list \<Rightarrow> (char \<times> string) list" where
  "getopt ostr args = getopt_run ostr [] args"

section \<open>Facts\<close>

lemma strstr_at_start: "strstr h n = Some 0 \<longleftrightarrow> prefix n h"
  by (cases h) auto

lemma strcasestr_at_start: "strcasestr h n = Some 0 \<longleftrightarrow> prefix (map c_tolower n) (map c_tolower h)"
  by (simp add: strcasestr_def strstr_at_start)

lemma length_strncpy [simp]: "length (strncpy s n) = n"
  by (simp add: strncpy_def)

lemma cstr_strncpy: "NUL \<notin> set s \<Longrightarrow> length s < n \<Longrightarrow> cstr (strncpy s n) = s"
  unfolding strncpy_def cstr_def by (simp, subst takeWhile_append2) auto

lemma terminated_strncpy: "NUL \<notin> set s \<Longrightarrow> terminated (strncpy s n) \<longleftrightarrow> length s < n"
  by (auto simp: strncpy_def terminated_def dest: in_set_takeD)

subsection \<open>Tokens\<close>

lemma tokens_word:
  assumes "t \<noteq> []" "\<forall>c \<in> set t. \<not> delim c"
  shows "tokens delim t = [t]"
proof -
  have "dropWhile delim t = t" using assms by (cases t) auto
  moreover have "tokens delim [] = []" by (simp add: tokens.simps strtok_next_def)
  ultimately show ?thesis
    using assms by (simp add: tokens.simps [of delim t] strtok_next_def
        takeWhile_eq_all_conv [THEN iffD2] dropWhile_eq_Nil_conv [THEN iffD2])
qed

lemma tokens_word_delim:
  assumes "t \<noteq> []" "\<forall>c \<in> set t. \<not> delim c" "delim d"
  shows "tokens delim (t @ d # r) = t # tokens delim r"
proof -
  have "dropWhile delim (t @ d # r) = t @ d # r" using assms by (cases t) auto
  with assms show ?thesis
    by (simp add: tokens.simps [of delim "t @ d # r"] strtok_next_def
        takeWhile_append2 dropWhile_append2)
qed

subsection \<open>Decimal numbers\<close>

lemma digit_value_char_of [simp]: "n < 10 \<Longrightarrow> digit_value (char_of (48 + n)) = n"
  by (simp add: digit_value_def)

lemma c_isdigit_char_of [simp]: "(n::nat) < 10 \<Longrightarrow> c_isdigit (char_of (48 + n))"
  by (simp add: c_isdigit_def)

lemma show_nat_not_empty [simp]: "show_nat n \<noteq> []"
  by (subst show_nat.simps) simp

lemma show_nat_digits: "\<forall>c \<in> set (show_nat n). c_isdigit c"
proof (induction n rule: show_nat.induct)
  case (1 n)
  then show ?case by (subst show_nat.simps) auto
qed

lemma digits_value_show_nat: "digits_value (show_nat n) = n"
proof (induction n rule: show_nat.induct)
  case (1 n)
  show ?case
  proof (cases "n < 10")
    case True
    then show ?thesis by (subst show_nat.simps) (simp add: digits_value_def)
  next
    case False
    with 1 have "digits_value (show_nat (n div 10)) = n div 10" by simp
    with False show ?thesis by (subst show_nat.simps) (simp add: digits_value_def)
  qed
qed

lemma digit_is_no_space: "c_isdigit c \<Longrightarrow> \<not> c_isspace c"
  by (auto simp: c_isdigit_def c_isspace_def)

lemma digit_is_no_sign: "c_isdigit c \<Longrightarrow> c \<noteq> CHR ''-'' \<and> c \<noteq> CHR ''+''"
  by (auto simp: c_isdigit_def)

lemma digit_is_not_NUL: "c_isdigit c \<Longrightarrow> c \<noteq> NUL"
  by (auto simp: c_isdigit_def)

lemma subject_digits:
  assumes "ds \<noteq> []" "\<forall>c \<in> set ds. c_isdigit c" "r = [] \<or> \<not> c_isdigit (hd r)"
  shows "subject (ds @ r) = (0, False, 0, ds)"
proof -
  obtain c cs where ds: "ds = c # cs" using assms(1) by (cases ds) auto
  have "dropWhile c_isspace (ds @ r) = ds @ r"
    using assms(2) by (simp add: ds digit_is_no_space)
  moreover have "takeWhile c_isdigit (ds @ r) = ds"
    using assms(2,3) by (cases r) (auto simp: takeWhile_append2 takeWhile_eq_all_conv)
  ultimately show ?thesis
    using assms(2) digit_is_no_sign [of c] by (simp add: subject_def ds)
qed

lemma subject_show_nat: "r = [] \<or> \<not> c_isdigit (hd r) \<Longrightarrow> subject (show_nat n @ r) = (0, False, 0, show_nat n)"
  by (rule subject_digits) (simp_all add: show_nat_digits)

lemma unat_le_ULONG_MAX: "unat (w :: u32) \<le> ULONG_MAX"
  using unsigned_less [of w, where 'a = nat] by (simp add: ULONG_MAX_def)

lemma length_show_nat: "n < 10 ^ k \<Longrightarrow> 0 < k \<Longrightarrow> length (show_nat n) \<le> k"
proof (induction n arbitrary: k rule: show_nat.induct)
  case (1 n)
  show ?case
  proof (cases "n < 10")
    case True
    then show ?thesis using 1 by (subst show_nat.simps) simp
  next
    case False
    then obtain j where j: "k = Suc j" "0 < j" using "1.prems" by (cases k; cases "k - 1") auto
    have "n div 10 < 10 ^ j" using "1.prems"(1) by (simp add: j less_mult_imp_div_less mult.commute)
    with 1 False j have "length (show_nat (n div 10)) \<le> j" by blast
    then show ?thesis using False by (subst show_nat.simps) (simp add: j)
  qed
qed

text \<open>A printed unsigned number is read back as it was.\<close>

lemma strtoul_show_nat:
  assumes "n \<le> ULONG_MAX" "r = [] \<or> \<not> c_isdigit (hd r)"
  shows "strtoul (show_nat n @ r) = (of_nat n, length (show_nat n))"
  using assms by (simp add: strtoul_def subject_show_nat digits_value_show_nat)

lemma strtoul_show_u: "strtoul (show_u (w :: u32)) = (w, length (show_u w))"
  using strtoul_show_nat [of "unat w" "[]"] unat_le_ULONG_MAX [of w] by (simp add: show_u_def)

lemma fgets_shorter: "fgets (Suc (Suc n)) txt = Some (l, r) \<Longrightarrow> length r < length txt"
  by (auto simp: fgets_def Let_def split: if_splits)

end
