(* ===== verification/Irshmem.thy ===== *)
theory Irshmem
  imports Prelude
begin

text \<open>
  The shared memory segment through which \<open>iralarmctl\<close> configures \<open>iralarmd\<close>
  (\<open>iralarm/irshmem.c\<close>, \<open>irshmem.h\<close> and the object table of \<open>config.h\<close>).

  \<^item> Data: the object types, the table of offsets and pointers that \<open>irmem_init\<close> builds, and the
    segment itself as a list of bytes.  A pointer into the segment is its byte offset from the
    attach address, the null pointer is \<open>None\<close>.
  \<^item> Operations: \<open>irmem_init\<close>, \<open>irmem_getptr\<close>, \<open>irmem_type\<close>, \<open>irmem_free\<close>, \<open>irmem_exists\<close>, and the
    accesses \<open>GETPTR_SAFE\<close> and \<open>SETPTR_SAFE\<close> that go through a pointer of a given width.
  \<^item> Facts: where the objects lie, that no two overlap, what a store does to every object; the
    interface \<open>cell_store\<close>, which the daemon and the control program rely on.

  The System V calls are the environment: \<open>shm_env\<close> says what \<open>shmget\<close>, \<open>shmat\<close> and \<open>shmctl\<close> answer.
\<close>

section \<open>Object types and their table\<close>

datatype shm_object = BYTE | INT16 | INT32 | INT64

fun shm_size :: "shm_object \<Rightarrow> nat" where
  "shm_size BYTE = 1"
| "shm_size INT16 = 2"
| "shm_size INT32 = 4"
| "shm_size INT64 = 8"

abbreviation (input) SHM_MLOOP :: nat where "SHM_MLOOP \<equiv> 0"
abbreviation (input) SHM_ACTIVE :: nat where "SHM_ACTIVE \<equiv> 1"
abbreviation (input) SHM_SPKR :: nat where "SHM_SPKR \<equiv> 2"
abbreviation (input) SHM_XMPP :: nat where "SHM_XMPP \<equiv> 3"
abbreviation (input) SHM_VIDEO :: nat where "SHM_VIDEO \<equiv> 4"
abbreviation (input) SHM_STLEDON :: nat where "SHM_STLEDON \<equiv> 5"
abbreviation (input) SHM_STLEDOFF :: nat where "SHM_STLEDOFF \<equiv> 6"
abbreviation (input) SHM_MINRECVD :: nat where "SHM_MINRECVD \<equiv> 7"
abbreviation (input) SHM_MINALRMS :: nat where "SHM_MINALRMS \<equiv> 8"
abbreviation (input) SHM_RSTALRMS :: nat where "SHM_RSTALRMS \<equiv> 9"
abbreviation (input) SHM_ALARM :: nat where "SHM_ALARM \<equiv> 10"

definition initial :: "shm_object list" where
  "initial =
     [INT32, \<comment> \<open>mloop\<close>
      BYTE,  \<comment> \<open>active\<close>
      BYTE,  \<comment> \<open>speaker\<close>
      BYTE,  \<comment> \<open>xmpp\<close>
      BYTE,  \<comment> \<open>video\<close>
      INT32, \<comment> \<open>led on\<close>
      INT32, \<comment> \<open>led off\<close>
      INT32, \<comment> \<open>minrcvd\<close>
      INT32, \<comment> \<open>minalrm\<close>
      INT32, \<comment> \<open>rstalrm\<close>
      BYTE]  \<comment> \<open>alarm\<close>"

section \<open>State\<close>

record irshmem_data =
  p_off :: nat
  dptr :: "nat option"

record irshmem =
  shmem :: "irshmem_data list option" \<comment> \<open>\<open>None\<close>: not allocated, or given back\<close>
  shmkey :: int
  shmptr :: "nat option"
  shmsiz :: nat
  shmro :: bool \<comment> \<open>whether the segment was attached with \<open>SHM_RDONLY\<close>\<close>

definition irshmem_static :: irshmem where
  "irshmem_static = \<lparr>shmem = None, shmkey = -1, shmptr = None, shmsiz = 0, shmro = False\<rparr>"

record shm_env =
  shmget :: "nat \<Rightarrow> nat \<Rightarrow> nat \<Rightarrow> int" \<comment> \<open>key, size, flags; -1 is the failure\<close>
  shmat :: "int \<Rightarrow> bool \<Rightarrow> bool"       \<comment> \<open>segment, read-only; whether it succeeds\<close>
  shmctl_stat :: "int \<Rightarrow> int"

section \<open>Operations\<close>

abbreviation (input) SHM_SEGID :: nat where "SHM_SEGID \<equiv> 0x1337"
abbreviation (input) IMEM_DEFAULT :: nat where "IMEM_DEFAULT \<equiv> 0x3B0" \<comment> \<open>\<open>IPC_CREAT | 0660\<close>\<close>
abbreviation (input) IMEM_EXISTS :: nat where "IMEM_EXISTS \<equiv> 0x180"   \<comment> \<open>\<open>0600\<close>\<close>
abbreviation (input) IMEM_FALLBCK :: nat where "IMEM_FALLBCK \<equiv> 0x100"  \<comment> \<open>\<open>0400\<close>\<close>

datatype irsm_result = IRSM_OK | IRSM_RDONLY | IRSM_NINIT | IRSM_NEXIST

text \<open>The loop over the table that assigns the offsets; with the end offset.\<close>

fun set_offsets :: "shm_object list \<Rightarrow> nat \<Rightarrow> irshmem_data list \<times> nat" where
  "set_offsets [] cur = ([], cur)"
| "set_offsets (t # ts) cur =
     (case set_offsets ts (cur + shm_size t) of
        (ds, e) \<Rightarrow> (\<lparr>p_off = cur, dptr = None\<rparr> # ds, e))"

text \<open>
  The loop that assigns the pointers.  The source adds the byte offset to an \<open>int *\<close>, which
  advances by four bytes for each unit.
\<close>

definition set_ptrs :: "nat \<Rightarrow> irshmem_data list \<Rightarrow> irshmem_data list" where
  "set_ptrs base ds = map (\<lambda>d. d\<lparr>dptr := Some (base + 4 * p_off d)\<rparr>) ds"

definition irmem_attach :: "shm_env \<Rightarrow> irsm_result \<Rightarrow> irshmem_data list \<Rightarrow> irshmem \<Rightarrow> irsm_result \<times> irshmem" where
  "irmem_attach env ret ds st =
     (let ro = (ret = IRSM_RDONLY)
      in if \<not> shmat env (shmkey st) ro then (IRSM_NINIT, st\<lparr>shmptr := None\<rparr>)
         else (ret, st\<lparr>shmptr := Some 0, shmro := ro, shmem := Some (set_ptrs 0 ds)\<rparr>))"

definition irmem_init :: "shm_env \<Rightarrow> int \<Rightarrow> irshmem \<Rightarrow> irsm_result \<times> irshmem" where
  "irmem_init env create st =
     (case set_offsets initial 0 of
        (ds, cur_offset) \<Rightarrow>
          let st1 = st\<lparr>shmsiz := length initial, shmem := Some ds\<rparr>;
              k = shmget env SHM_SEGID cur_offset (if create = 0 then IMEM_EXISTS else IMEM_DEFAULT)
          in if k = -1 then
               let k2 = shmget env SHM_SEGID cur_offset IMEM_FALLBCK
               in if k2 = -1 then (IRSM_NINIT, st1\<lparr>shmkey := -1\<rparr>)
                  else irmem_attach env IRSM_RDONLY ds (st1\<lparr>shmkey := k2\<rparr>)
             else irmem_attach env IRSM_OK ds (st1\<lparr>shmkey := k\<rparr>))"

definition irmem_getptr :: "irshmem \<Rightarrow> nat \<Rightarrow> nat option c_result" where
  "irmem_getptr st oid =
     (if oid \<ge> shmsiz st then Inr None
      else case shmem st of
             None \<Rightarrow> Inl UseAfterFree
           | Some ds \<Rightarrow> sbind (aget ds oid) (\<lambda>d. Inr (dptr d)))"

definition irmem_type :: "irshmem \<Rightarrow> nat \<Rightarrow> nat" where
  "irmem_type st oid = (if oid \<ge> shmsiz st then 0 else shm_size (initial ! oid))"

text \<open>The segments that \<open>shmctl (IPC_RMID)\<close> removes, and the state afterwards.\<close>

definition irmem_free :: "int \<Rightarrow> irshmem \<Rightarrow> int list \<times> irshmem" where
  "irmem_free destroy_shm st =
     (if destroy_shm > 0 then [shmkey st] else [], st\<lparr>shmem := None\<rparr>)"

definition irmem_exists :: "shm_env \<Rightarrow> irshmem \<Rightarrow> irsm_result" where
  "irmem_exists env st =
     (if shmkey st \<ge> 0 \<and> shmctl_stat env (shmkey st) = 0 then IRSM_OK else IRSM_NEXIST)"

section \<open>Accesses through a pointer\<close>

text \<open>The segment's bytes; numbers are stored with the low byte first.\<close>

type_synonym seg = "u8 list"

definition bytes_of :: "nat \<Rightarrow> nat \<Rightarrow> u8 list" where
  "bytes_of n v = map (\<lambda>i. of_nat (v div 256 ^ i)) [0..<n]"

fun value_of :: "u8 list \<Rightarrow> nat" where
  "value_of [] = 0"
| "value_of (b # bs) = unat b + 256 * value_of bs"

definition load :: "nat \<Rightarrow> seg \<Rightarrow> nat \<Rightarrow> nat c_result" where
  "load n seg p = (if p + n \<le> length seg then Inr (value_of (take n (drop p seg))) else Inl OutOfBounds)"

definition store :: "bool \<Rightarrow> nat \<Rightarrow> nat \<Rightarrow> nat \<Rightarrow> seg \<Rightarrow> seg c_result" where
  "store ro n p v seg =
     (if ro then Inl ReadOnlyStore
      else if p + n \<le> length seg then Inr (take p seg @ bytes_of n v @ drop (p + n) seg)
      else Inl OutOfBounds)"

text \<open>
  \<open>GETPTR_SAFE\<close> and \<open>SETPTR_SAFE\<close>: the width of the access is that of the pointer type, here the
  width of the word.
\<close>

definition GETPTR_SAFE :: "irshmem \<Rightarrow> seg \<Rightarrow> nat \<Rightarrow> 'w::len word \<Rightarrow> 'w word c_result" where
  "GETPTR_SAFE st seg oid dst =
     sbind (irmem_getptr st oid)
       (\<lambda>p. case p of
              None \<Rightarrow> Inr dst
            | Some q \<Rightarrow> sbind (load (LENGTH('w) div 8) seg q) (\<lambda>v. Inr (of_nat v)))"

definition SETPTR_SAFE :: "irshmem \<Rightarrow> nat \<Rightarrow> 'w::len word \<Rightarrow> seg \<Rightarrow> seg c_result" where
  "SETPTR_SAFE st oid val seg =
     sbind (irmem_getptr st oid)
       (\<lambda>p. case p of
              None \<Rightarrow> Inr seg
            | Some q \<Rightarrow> store (shmro st) (LENGTH('w) div 8) q (unat val) seg)"

section \<open>Bytes and numbers\<close>

lemma length_bytes_of [simp]: "length (bytes_of n v) = n"
  by (simp add: bytes_of_def)

lemma bytes_of_Suc: "bytes_of (Suc n) v = of_nat v # bytes_of n (v div 256)"
  by (rule nth_equalityI)
    (auto simp: bytes_of_def nth_Cons div_mult2_eq simp del: upt_Suc split: nat.split)

lemma value_of_bytes_of: "value_of (bytes_of n v) = v mod 256 ^ n"
proof (induction n arbitrary: v)
  case 0
  then show ?case by (simp add: bytes_of_def)
next
  case (Suc n)
  have "unat (of_nat v :: u8) = v mod 256" by (simp add: unat_of_nat)
  with Suc show ?case by (simp add: bytes_of_Suc mod_mult2_eq add.commute)
qed

lemma value_of_less: "value_of bs < 256 ^ length bs"
proof (induction bs)
  case Nil
  then show ?case by simp
next
  case (Cons b bs)
  have "unat b < 256" using unsigned_less [of b, where 'a = nat] by simp
  with Cons show ?case by simp
qed

lemma load_less: "load n seg p = Inr v \<Longrightarrow> v < 256 ^ n"
  using value_of_less [of "take n (drop p seg)"] by (auto simp: load_def split: if_splits)

lemma length_store: "store ro n p v seg = Inr seg' \<Longrightarrow> length seg' = length seg"
  by (auto simp: store_def split: if_splits)

lemma load_store_same: "store ro n p v seg = Inr seg' \<Longrightarrow> load n seg' p = Inr (v mod 256 ^ n)"
  by (auto simp: store_def load_def value_of_bytes_of split: if_splits)

lemma load_store_disjoint:
  assumes "store ro n p v seg = Inr seg'" "q + m \<le> p \<or> p + n \<le> q"
  shows "load m seg' q = load m seg q"
proof -
  from assms(1) have s': "seg' = take p seg @ bytes_of n v @ drop (p + n) seg" "p + n \<le> length seg"
    by (auto simp: store_def split: if_splits)
  have "take m (drop q seg') = take m (drop q seg)" if "q + m \<le> length seg"
    using assms(2)
  proof
    assume "q + m \<le> p"
    then show ?thesis using s' by (simp add: take_drop)
  next
    assume "p + n \<le> q"
    then show ?thesis using s' by simp
  qed
  then show ?thesis using length_store [OF assms(1)] by (simp add: load_def)
qed

section \<open>Where the objects lie\<close>

definition obj_off :: "shm_object list \<Rightarrow> nat \<Rightarrow> nat" where
  "obj_off ts i = sum_list (map shm_size (take i ts))"

definition cell_ptr :: "nat \<Rightarrow> nat" where
  "cell_ptr i = 4 * obj_off initial i"

definition cell_width :: "nat \<Rightarrow> nat" where
  "cell_width i = shm_size (initial ! i)"

definition attached :: "irshmem \<Rightarrow> bool" where
  "attached st \<longleftrightarrow>
     shmsiz st = length initial \<and>
     shmem st = Some (map (\<lambda>i. \<lparr>p_off = obj_off initial i, dptr = Some (cell_ptr i)\<rparr>) [0..<length initial])"

lemma obj_off_0 [simp]: "obj_off ts 0 = 0"
  by (simp add: obj_off_def)

lemma obj_off_Cons [simp]: "obj_off (t # ts) (Suc i) = shm_size t + obj_off ts i"
  by (simp add: obj_off_def)

lemma obj_off_Suc: "i < length ts \<Longrightarrow> obj_off ts (Suc i) = obj_off ts i + shm_size (ts ! i)"
  by (simp add: obj_off_def take_Suc_conv_app_nth)

lemma obj_off_mono: "i \<le> j \<Longrightarrow> obj_off ts i \<le> obj_off ts j"
proof -
  assume "i \<le> j"
  then have "take j ts = take i ts @ take (j - i) (drop i ts)"
    by (metis le_add_diff_inverse take_add)
  then show ?thesis by (simp add: obj_off_def)
qed

lemma shm_size_pos [simp]: "0 < shm_size t"
  by (cases t) simp_all

lemma obj_off_room:
  assumes "i < j" "j < length ts"
  shows "obj_off ts i + shm_size (ts ! i) \<le> obj_off ts j"
  using assms obj_off_mono [of "Suc i" j ts] obj_off_Suc [of i ts] by simp

lemma set_offsets_spec:
  "set_offsets ts cur =
     (map (\<lambda>i. \<lparr>p_off = cur + obj_off ts i, dptr = None\<rparr>) [0..<length ts], cur + obj_off ts (length ts))"
  by (induction ts arbitrary: cur)
    (simp_all add: upt_conv_Cons map_Suc_upt [symmetric] comp_def add.assoc del: upt_Suc map_Suc_upt)

text \<open>The pointers that the two loops give to the objects of a table.\<close>

definition table_ptrs :: "shm_object list \<Rightarrow> nat option list" where
  "table_ptrs ts = map dptr (set_ptrs 0 (fst (set_offsets ts 0)))"

lemma table_ptrs_nth: "i < length ts \<Longrightarrow> table_ptrs ts ! i = Some (4 * obj_off ts i)"
  by (simp add: table_ptrs_def set_ptrs_def set_offsets_spec)

lemma scaled_room:
  assumes "i < j" "j < length ts"
  shows "4 * obj_off ts i + shm_size (ts ! i) \<le> 4 * obj_off ts j"
  using obj_off_room [OF assms] shm_size_pos [of "ts ! i"] by linarith

lemma cell_ptr_table: "map cell_ptr [0..<length initial] = [0, 16, 20, 24, 28, 32, 48, 64, 80, 96, 112]"
  by (simp add: cell_ptr_def obj_off_def initial_def upt_conv_Cons)

lemma cell_width_cases: "i < length initial \<Longrightarrow> cell_width i \<in> {1, 4}"
  by (auto simp: cell_width_def initial_def less_Suc_eq numeral_eq_Suc)

lemma cell_end: "i < length initial \<Longrightarrow> cell_ptr i + cell_width i \<le> 113"
proof -
  assume i: "i < length initial"
  have "cell_ptr i \<le> cell_ptr 10"
    using i by (simp add: cell_ptr_def obj_off_mono initial_def)
  moreover have "cell_ptr 10 = 112"
    by (simp add: cell_ptr_def obj_off_def initial_def)
  moreover have "i < 10 \<Longrightarrow> cell_ptr i + cell_width i \<le> cell_ptr 10"
    unfolding cell_ptr_def cell_width_def by (rule scaled_room) (simp_all add: initial_def)
  moreover have "i = 10 \<Longrightarrow> cell_width i = 1" by (simp add: cell_width_def initial_def)
  moreover have "i < 10 \<or> i = 10" using i by (auto simp: initial_def)
  ultimately show ?thesis by auto
qed

lemma cells_disjoint:
  assumes "i < length initial" "j < length initial" "i \<noteq> j"
  shows "cell_ptr i + cell_width i \<le> cell_ptr j \<or> cell_ptr j + cell_width j \<le> cell_ptr i"
  using assms scaled_room [of i j initial] scaled_room [of j i initial]
  by (cases "i < j") (auto simp: cell_ptr_def cell_width_def)

section \<open>Initialisation\<close>

text \<open>
  What the caller of \<open>irmem_init\<close> may rely on after each result: an attached segment, one that
  must not be written, or a table whose pointers are all null.
\<close>

fun init_outcome :: "irsm_result \<Rightarrow> irshmem \<Rightarrow> bool" where
  "init_outcome IRSM_OK st \<longleftrightarrow> attached st \<and> \<not> shmro st"
| "init_outcome IRSM_RDONLY st \<longleftrightarrow> attached st \<and> shmro st"
| "init_outcome IRSM_NINIT st \<longleftrightarrow>
     shmsiz st = length initial \<and> shmem st = Some (fst (set_offsets initial 0))"
| "init_outcome IRSM_NEXIST st \<longleftrightarrow> False"

lemma irmem_attach_outcome:
  assumes "irmem_attach env ret ds st = (r, st')"
    and "shmsiz st = length initial" "shmem st = Some ds" "ds = fst (set_offsets initial 0)"
    and "ret = IRSM_OK \<or> ret = IRSM_RDONLY"
  shows "init_outcome r st'"
  using assms
  by (auto simp: irmem_attach_def Let_def attached_def set_ptrs_def set_offsets_spec cell_ptr_def
      split: if_splits)

lemma irmem_init_outcome:
  assumes "irmem_init env create st = (r, st')"
  shows "init_outcome r st'"
proof -
  obtain ds e where e: "set_offsets initial 0 = (ds, e)" by fastforce
  then have ds: "ds = fst (set_offsets initial 0)" by simp
  show ?thesis
    using assms
    by (auto simp: irmem_init_def e Let_def ds [symmetric] split: if_splits
        elim: irmem_attach_outcome [OF _ _ _ ds])
qed

lemma getptr_uninitialised:
  "init_outcome IRSM_NINIT st \<Longrightarrow> irmem_getptr st i = Inr None"
  by (auto simp: irmem_getptr_def set_offsets_spec)

lemma getptr_attached [simp]:
  "attached st \<Longrightarrow> irmem_getptr st i = Inr (if i < length initial then Some (cell_ptr i) else None)"
  by (auto simp: irmem_getptr_def attached_def)

lemma type_attached [simp]:
  "attached st \<Longrightarrow> irmem_type st i = (if i < length initial then cell_width i else 0)"
  by (auto simp: irmem_type_def attached_def cell_width_def)

section \<open>The objects as storage cells\<close>

text \<open>A process's view of the segment, and reading and writing the object with a given number.\<close>

type_synonym shm_view = "irshmem \<times> seg"

fun cell_rd :: "shm_view \<Rightarrow> nat \<Rightarrow> nat c_result" where
  "cell_rd (st, seg) i =
     sbind (irmem_getptr st i)
       (\<lambda>p. case p of None \<Rightarrow> Inl NullDeref | Some q \<Rightarrow> load (irmem_type st i) seg q)"

fun cell_wr :: "nat \<Rightarrow> nat \<Rightarrow> shm_view \<Rightarrow> shm_view c_result" where
  "cell_wr i v (st, seg) =
     sbind (irmem_getptr st i)
       (\<lambda>p. case p of
              None \<Rightarrow> Inl NullDeref
            | Some q \<Rightarrow> sbind (store (shmro st) (irmem_type st i) q v seg) (\<lambda>seg'. Inr (st, seg')))"

text \<open>
  The kernel maps whole pages of 4096 bytes: only because of that does the segment, requested
  with 29 bytes, hold the objects.
\<close>

fun shm_ok :: "shm_view \<Rightarrow> bool" where
  "shm_ok (st, seg) \<longleftrightarrow> attached st \<and> \<not> shmro st \<and> 4096 \<le> length seg"

text \<open>
  The contract between the segment and its users.
\<close>

locale cell_store =
  fixes rd :: "'m \<Rightarrow> nat \<Rightarrow> nat c_result"
    and wr :: "nat \<Rightarrow> nat \<Rightarrow> 'm \<Rightarrow> 'm c_result"
    and width :: "nat \<Rightarrow> nat"
    and ids :: "nat set"
    and valid :: "'m \<Rightarrow> bool"
  assumes wr_ok: "valid m \<Longrightarrow> i \<in> ids \<Longrightarrow> \<exists>m'. wr i v m = Inr m' \<and> valid m'"
    and rd_ok: "valid m \<Longrightarrow> i \<in> ids \<Longrightarrow> \<exists>v. rd m i = Inr v \<and> v < 256 ^ width i"
    and rd_wr_same: "valid m \<Longrightarrow> i \<in> ids \<Longrightarrow> wr i v m = Inr m' \<Longrightarrow> rd m' i = Inr (v mod 256 ^ width i)"
    and rd_wr_other: "valid m \<Longrightarrow> i \<in> ids \<Longrightarrow> j \<in> ids \<Longrightarrow> j \<noteq> i \<Longrightarrow> wr i v m = Inr m' \<Longrightarrow> rd m' j = rd m j"
begin

lemma wr_validE:
  assumes "valid m" "i \<in> ids" "wr i v m = Inr m'"
  shows "valid m'"
  using wr_ok [OF assms(1,2), of v] assms(3) by simp

lemma writes_ok:
  assumes "valid m" "fst ` set ivs \<subseteq> ids"
  shows "\<exists>m'. sfoldM (\<lambda>(i, v). wr i v) ivs m = Inr m' \<and> valid m'"
proof (rule sfoldM_invariant [where I = valid])
  fix x s
  assume "x \<in> set ivs" "valid s"
  then have "fst x \<in> ids" using assms(2) by auto
  with \<open>valid s\<close> show "\<exists>s'. (case x of (i, v) \<Rightarrow> wr i v) s = Inr s' \<and> valid s'"
    using wr_ok [of s "fst x" "snd x"] by (simp add: case_prod_beta)
qed (rule assms(1))

lemma writes_untouched:
  assumes "valid m" "fst ` set ivs \<subseteq> ids" "j \<in> ids" "j \<notin> fst ` set ivs"
    and "sfoldM (\<lambda>(i, v). wr i v) ivs m = Inr m'"
  shows "rd m' j = rd m j"
  using assms
proof (induction ivs arbitrary: m)
  case Nil
  then show ?case by simp
next
  case (Cons x ivs)
  obtain i v where x: "x = (i, v)" by fastforce
  from Cons.prems obtain m1 where m1: "wr i v m = Inr m1" "sfoldM (\<lambda>(i, v). wr i v) ivs m1 = Inr m'"
    by (auto simp: x sbind_Inr_iff)
  have "rd m' j = rd m1 j"
    using Cons.prems m1 by (intro Cons.IH) (auto simp: x intro: wr_validE)
  also have "\<dots> = rd m j"
    using Cons.prems m1 by (intro rd_wr_other [where i = i and v = v]) (auto simp: x)
  finally show ?case .
qed

lemma writes_read_back:
  assumes "valid m" "fst ` set ivs \<subseteq> ids" "distinct (map fst ivs)" "(i, v) \<in> set ivs"
    and "sfoldM (\<lambda>(i, v). wr i v) ivs m = Inr m'"
  shows "rd m' i = Inr (v mod 256 ^ width i)"
  using assms
proof (induction ivs arbitrary: m)
  case Nil
  then show ?case by simp
next
  case (Cons x ivs)
  obtain j w where x: "x = (j, w)" by fastforce
  from Cons.prems obtain m1 where m1: "wr j w m = Inr m1" "sfoldM (\<lambda>(i, v). wr i v) ivs m1 = Inr m'"
    by (auto simp: x sbind_Inr_iff)
  have v1: "valid m1" using Cons.prems m1 by (auto simp: x intro: wr_validE)
  show ?case
  proof (cases "(i, v) = (j, w)")
    case True
    then have "rd m' i = rd m1 i"
      using Cons.prems m1 v1 by (intro writes_untouched) (auto simp: x)
    with True show ?thesis
      using Cons.prems m1 by (simp add: x rd_wr_same [where v = w])
  next
    case False
    then show ?thesis using Cons.prems m1 v1 by (intro Cons.IH) (auto simp: x)
  qed
qed

end

lemma load_cell_ok: "4096 \<le> length seg \<Longrightarrow> i < length initial \<Longrightarrow>
    load (cell_width i) seg (cell_ptr i) = Inr (value_of (take (cell_width i) (drop (cell_ptr i) seg)))"
  using cell_end [of i] by (simp add: load_def)

lemma store_cell_ok: "4096 \<le> length seg \<Longrightarrow> i < length initial \<Longrightarrow>
    \<exists>seg'. store False (cell_width i) (cell_ptr i) v seg = Inr seg'"
  using cell_end [of i] by (simp add: store_def)

interpretation shm: cell_store cell_rd cell_wr cell_width "{..<length initial}" shm_ok
proof (unfold_locales, goal_cases)
  case (1 m i v)
  obtain st seg where m: "m = (st, seg)" by fastforce
  with 1 obtain seg' where "store False (cell_width i) (cell_ptr i) v seg = Inr seg'"
    using store_cell_ok [of seg i v] by auto
  with 1 show ?case by (simp add: m length_store)
next
  case (2 m i)
  then show ?case
    using load_cell_ok [of "snd m" i] by (cases m) (auto dest: load_less)
next
  case (3 m i v m')
  then show ?case by (cases m) (auto simp: sbind_Inr_iff dest: load_store_same)
next
  case (4 m i j v m')
  then show ?case
    using cells_disjoint [of i j] by (cases m) (auto simp: sbind_Inr_iff intro: load_store_disjoint)
qed

section \<open>Accesses of the width of their object\<close>

definition cell_val :: "seg \<Rightarrow> nat \<Rightarrow> nat" where
  "cell_val seg i = value_of (take (cell_width i) (drop (cell_ptr i) seg))"

lemma cell_rd_val: "shm_ok (st, seg) \<Longrightarrow> i < length initial \<Longrightarrow> cell_rd (st, seg) i = Inr (cell_val seg i)"
  using cell_end [of i] by (simp add: load_def cell_val_def)

lemma GETPTR_cell:
  assumes "shm_ok (st, seg)" "i < length initial" "LENGTH('w::len) div 8 = cell_width i"
  shows "GETPTR_SAFE st seg i (d :: 'w word) = Inr (of_nat (cell_val seg i))"
  using assms cell_end [of i] by (simp add: GETPTR_SAFE_def load_def cell_val_def)

lemma SETPTR_as_cell_wr:
  assumes "shm_ok (st, seg)" "i < length initial" "LENGTH('w::len) div 8 = cell_width i"
  shows "cell_wr i (unat v) (st, seg) = sbind (SETPTR_SAFE st i (v :: 'w word) seg) (\<lambda>s. Inr (st, s))"
  using assms by (simp add: SETPTR_SAFE_def)

lemma SETPTR_cell:
  assumes "shm_ok (st, seg)" "i < length initial" "LENGTH('w::len) = 8 * cell_width i"
  shows "\<exists>seg'. SETPTR_SAFE st i (v :: 'w word) seg = Inr seg' \<and> shm_ok (st, seg') \<and>
           cell_val seg' i = unat v \<and> (\<forall>j < length initial. j \<noteq> i \<longrightarrow> cell_val seg' j = cell_val seg j)"
proof -
  have w: "LENGTH('w) div 8 = cell_width i" using assms(3) by simp
  have i: "i \<in> {..<length initial}" using assms(2) by simp
  obtain m' where m': "cell_wr i (unat v) (st, seg) = Inr m'" "shm_ok m'"
    using shm.wr_ok [OF assms(1) i, of "unat v"] by blast
  then obtain seg' where seg': "SETPTR_SAFE st i v seg = Inr seg'" "m' = (st, seg')"
    using SETPTR_as_cell_wr [OF assms(1,2) w, of v] by (auto simp: sbind_Inr_iff simp del: cell_wr.simps)
  have "unat v < 256 ^ cell_width i"
    using unsigned_less [of v, where 'a = nat] assms(3) by (simp add: power_mult)
  then have "cell_val seg' i = unat v"
    using shm.rd_wr_same [OF assms(1) i m'(1)] cell_rd_val [of st seg' i] m'(2) seg'(2) assms(2)
    by (simp del: cell_rd.simps)
  moreover have "cell_val seg' j = cell_val seg j" if "j < length initial" "j \<noteq> i" for j
    using shm.rd_wr_other [OF assms(1) i _ _ m'(1), of j] that cell_rd_val [of st seg' j]
      cell_rd_val [of st seg j] m'(2) seg'(2) assms(1)
    by (simp del: cell_rd.simps)
  ultimately show ?thesis using seg' m'(2) by blast
qed

section \<open>The properties\<close>



text \<open>the size that \<open>irmem_init\<close> requests is 29 bytes, but the pointers count in units of four:
  the objects can all be accessed exactly if the mapping has 113 bytes, which the rounding to
  whole pages provides and the request does not.\<close>

theorem segment_is_too_small:
  "snd (set_offsets initial 0) = 29 \<and>
   ((\<forall>i < length initial. load (cell_width i) seg (cell_ptr i) \<noteq> Inl OutOfBounds) \<longleftrightarrow> 113 \<le> length seg)"
proof -
  have "snd (set_offsets initial 0) = 29" by (simp add: initial_def)
  moreover have "load (cell_width i) seg (cell_ptr i) \<noteq> Inl OutOfBounds"
    if "113 \<le> length seg" "i < length initial" for i
    using that cell_end [of i] by (simp add: load_def)
  moreover have "113 \<le> length seg"
    if "\<forall>i < length initial. load (cell_width i) seg (cell_ptr i) \<noteq> Inl OutOfBounds"
  proof -
    have "10 < length initial" by (simp add: initial_def)
    with that have "load (cell_width 10) seg (cell_ptr 10) \<noteq> Inl OutOfBounds" by blast
    then show ?thesis
      by (simp add: load_def cell_width_def cell_ptr_def obj_off_def initial_def split: if_splits)
  qed
  ultimately show ?thesis by blast
qed

lemma segment_is_too_small_witness:
  "\<not> (\<forall>i < length initial. load (cell_width i) (replicate 29 0) (cell_ptr i) \<noteq> Inl OutOfBounds)"
  using segment_is_too_small [of "replicate 29 0"] by simp

text \<open>C31: whatever the kernel answers, \<open>irmem_init\<close> never hands out a wrong pointer: after success every
  object has its own place, in a segment that is attached for writing exactly if the result
  is \<open>IRSM_OK\<close>; after a failure every pointer is null.\<close>

theorem irmem_init_pointers:
  assumes "irmem_init env create st = (r, st')"
  shows "r \<noteq> IRSM_NEXIST \<and>
    irmem_getptr st' i =
      Inr (if r \<noteq> IRSM_NINIT \<and> i < length initial then table_ptrs initial ! i else None) \<and>
    (r \<noteq> IRSM_NINIT \<longrightarrow> (shmro st' \<longleftrightarrow> r = IRSM_RDONLY))"
proof -
  have out: "init_outcome r st'" using assms by (rule irmem_init_outcome)
  show ?thesis
  proof (cases r)
    case IRSM_NINIT
    with out show ?thesis by (simp add: getptr_uninitialised)
  qed (use out in \<open>auto simp: table_ptrs_nth cell_ptr_def\<close>)
qed

lemma irmem_init_pointers_witness:
  "\<exists>st'. irmem_init \<lparr>shmget = (\<lambda>k n f. if f = IMEM_FALLBCK then 7 else -1),
       shmat = (\<lambda>k ro. True), shmctl_stat = (\<lambda>k. 0)\<rparr> 0 irshmem_static = (IRSM_RDONLY, st') \<and>
     irmem_getptr st' 10 = Inr (Some 112) \<and> shmro st'"
proof -
  let ?env = "\<lparr>shmget = (\<lambda>k n f. if f = IMEM_FALLBCK then 7 else -1),
       shmat = (\<lambda>k ro. True), shmctl_stat = (\<lambda>k. 0)\<rparr>"
  obtain st' where st': "irmem_init ?env 0 irshmem_static = (IRSM_RDONLY, st')"
    by (cases "set_offsets initial 0") (simp add: irmem_init_def irmem_attach_def Let_def irshmem_static_def)
  from irmem_init_pointers [OF this, of 10] st' show ?thesis
    by (simp add: table_ptrs_def set_ptrs_def initial_def)
qed

text \<open>C30: the objects are independent storage cells: after any sequence of writes to distinct objects
  of a writable segment, each object that was written reads back as what was written, cut to its
  width, and every other object reads as before.\<close>

theorem writes_are_independent:
  assumes "shm_ok m" "fst ` set ivs \<subseteq> {..<length initial}" "distinct (map fst ivs)"
  shows "\<exists>m'. sfoldM (\<lambda>(i, v). cell_wr i v) ivs m = Inr m' \<and> shm_ok m' \<and>
     (\<forall>(i, v) \<in> set ivs. cell_rd m' i = Inr (v mod 256 ^ cell_width i)) \<and>
     (\<forall>j < length initial. j \<notin> fst ` set ivs \<longrightarrow> cell_rd m' j = cell_rd m j)"
proof -
  obtain m' where m': "sfoldM (\<lambda>(i, v). cell_wr i v) ivs m = Inr m'" "shm_ok m'"
    using shm.writes_ok [OF assms(1,2)] by blast
  then show ?thesis
    using shm.writes_read_back [OF assms _ m'(1)] shm.writes_untouched [OF assms(1,2) _ _ m'(1)] by auto
qed

definition shm_attached :: irshmem where
  "shm_attached = snd (irmem_init \<lparr>shmget = (\<lambda>k n f. 7), shmat = (\<lambda>k ro. True), shmctl_stat = (\<lambda>k. 0)\<rparr>
     1 irshmem_static)"

lemma shm_attached_ok: "shm_ok (shm_attached, replicate 4096 0)"
proof -
  let ?env = "\<lparr>shmget = (\<lambda>k n f. 7), shmat = (\<lambda>k ro. True), shmctl_stat = (\<lambda>k. 0)\<rparr>"
  have "fst (irmem_init ?env 1 irshmem_static) = IRSM_OK"
    by (simp add: irmem_init_def irmem_attach_def Let_def irshmem_static_def split: prod.split)
  then have "init_outcome IRSM_OK shm_attached"
    using irmem_init_outcome [of ?env 1 irshmem_static IRSM_OK shm_attached]
    by (simp add: shm_attached_def prod_eq_iff)
  then show ?thesis by simp
qed

lemma writes_are_independent_witness:
  "\<exists>m'. sfoldM (\<lambda>(i, v). cell_wr i v) [(SHM_SPKR, 257), (SHM_MINRECVD, 9)] (shm_attached, replicate 4096 0) = Inr m' \<and>
     cell_rd m' SHM_SPKR = Inr 1 \<and> cell_rd m' SHM_MINRECVD = Inr 9"
proof -
  have len: "fst ` set [(SHM_SPKR, 257), (SHM_MINRECVD, 9)] \<subseteq> {..<length initial}"
    by (simp add: initial_def)
  have w: "cell_width 2 = 1" "cell_width 7 = 4" by (simp_all add: cell_width_def initial_def)
  obtain m' where "sfoldM (\<lambda>(i, v). cell_wr i v) [(SHM_SPKR, 257), (SHM_MINRECVD, 9)] (shm_attached, replicate 4096 0) = Inr m'"
      "\<forall>(i, v) \<in> set [(SHM_SPKR, 257), (SHM_MINRECVD, 9)]. cell_rd m' i = Inr (v mod 256 ^ cell_width i)"
    using writes_are_independent [OF shm_attached_ok len] by auto
  with w show ?thesis by auto
qed

end
