(* ===== verification/Irthread.thy ===== *)
theory Irthread
  imports Prelude
begin

text \<open>
  The thread table of the daemon (\<open>iralarm/irthread.c\<close>), as its callers see it: a static array of
  \<open>MAX_THREADS\<close> pointers to thread records, null until the slot is used for the first time.

  \<^item> Operations: \<open>irthread_start\<close>, \<open>irthread_stop\<close>, \<open>irthread_suspend\<close>, \<open>irthread_resume\<close>,
    \<open>irthread_setdata\<close>.  The answers of the POSIX thread calls are the environment.
  \<^item> Facts: the table's invariant, the slot that is chosen, the effect of every operation; the
    interface \<open>thread_pool\<close>, on which the daemon's state machine rests.

  The interleaving of these operations with the running threads is the subject of the theory
  \<open>Irthread_Conc\<close>.
\<close>

section \<open>State\<close>

record 'cb irthread =
  it_actv :: bool
  it_used :: bool
  it_susp :: bool
  it_tid :: nat
  it_id :: int
  it_tcb :: 'cb
  it_data :: u32

type_synonym 'cb thrds = "'cb irthread option list"

definition MAX_THREADS :: nat where
  "MAX_THREADS = 4"

abbreviation (input) IRTHRD_ERR :: int where "IRTHRD_ERR \<equiv> -1"
abbreviation (input) IRTHRD_FULL :: int where "IRTHRD_FULL \<equiv> -2"

definition thrds_static :: "'cb thrds" where
  "thrds_static = replicate MAX_THREADS None"

text \<open>The results of the POSIX calls: zero is success.\<close>

record pthread_env =
  mutex_init_ret :: int
  cond_init_ret :: int
  create_ret :: int
  new_tid :: nat
  signal_ret :: int
  cancel_ret :: int
  join_ret :: int
  mutex_destroy_ret :: int
  cond_destroy_ret :: int

section \<open>Operations\<close>

definition idcheck :: "int \<Rightarrow> int" where
  "idcheck tid = (if tid < 0 \<or> tid \<ge> int MAX_THREADS then 1 else 0)"

text \<open>The record behind \<open>thrds[id]\<close>.\<close>

definition thrd :: "'cb thrds \<Rightarrow> int \<Rightarrow> 'cb irthread c_result" where
  "thrd ts tid =
     (if tid < 0 then Inl OutOfBounds
      else sbind (aget ts (nat tid)) (\<lambda>t. case t of None \<Rightarrow> Inl NullDeref | Some t \<Rightarrow> Inr t))"

definition thrd_put :: "int \<Rightarrow> 'cb irthread \<Rightarrow> 'cb thrds \<Rightarrow> 'cb thrds" where
  "thrd_put tid t ts = ts[nat tid := Some t]"

text \<open>The search loop of \<open>irthread_start\<close>: the index at which it breaks, or the array's length.\<close>

fun find_slot :: "'cb thrds \<Rightarrow> nat" where
  "find_slot [] = 0"
| "find_slot (None # ts) = 0"
| "find_slot (Some t # ts) = (if it_used t then Suc (find_slot ts) else 0)"

definition irthread_start :: "pthread_env \<Rightarrow> 'cb \<Rightarrow> 'cb thrds \<Rightarrow> int \<times> 'cb thrds" where
  "irthread_start env threadfunc ts =
     (let i = find_slot ts
      in if i < MAX_THREADS then
           let t = \<lparr>it_actv = True, it_used = True, it_susp = False,
                    it_tid = (if create_ret env = 0 then new_tid env else 0),
                    it_id = int i, it_tcb = threadfunc, it_data = 0\<rparr>;
               ret = 0 OR mutex_init_ret env OR cond_init_ret env OR create_ret env
           in (if ret \<noteq> 0 then IRTHRD_ERR else int i, ts[i := Some t])
         else (let ret = IRTHRD_FULL; tid = 0 in (if ret \<noteq> 0 then IRTHRD_ERR else tid, ts)))"

definition irthread_suspend :: "int \<Rightarrow> 'cb thrds \<Rightarrow> 'cb thrds c_result" where
  "irthread_suspend tid ts =
     sbind (thrd ts tid)
       (\<lambda>t. if it_susp t then Inr ts else Inr (thrd_put tid (t\<lparr>it_susp := True\<rparr>) ts))"

definition irthread_stop :: "pthread_env \<Rightarrow> int \<Rightarrow> 'cb thrds \<Rightarrow> (int \<times> 'cb thrds) c_result" where
  "irthread_stop env tid ts =
     (if idcheck tid = 0 then
        sbind (irthread_suspend tid ts)
          (\<lambda>ts1. sbind (thrd ts1 tid)
             (\<lambda>t. let ret = 0 OR signal_ret env OR cancel_ret env OR join_ret env
                          OR mutex_destroy_ret env OR cond_destroy_ret env
                  in Inr (ret, thrd_put tid (t\<lparr>it_used := False, it_actv := False\<rparr>) ts1)))
      else Inr (IRTHRD_ERR, ts))"

definition irthread_resume :: "pthread_env \<Rightarrow> int \<Rightarrow> 'cb thrds \<Rightarrow> (int \<times> 'cb thrds) c_result" where
  "irthread_resume env tid ts =
     sbind (thrd ts tid)
       (\<lambda>t. if \<not> it_susp t then Inr (-1, ts)
            else Inr (signal_ret env, thrd_put tid (t\<lparr>it_susp := False\<rparr>) ts))"

definition irthread_setdata :: "int \<Rightarrow> u32 \<Rightarrow> 'cb thrds \<Rightarrow> 'cb thrds c_result" where
  "irthread_setdata tid d ts =
     sbind (thrd ts tid) (\<lambda>t. Inr (thrd_put tid (t\<lparr>it_data := d\<rparr>) ts))"

section \<open>The table's invariant\<close>

text \<open>
  The array has its length, every record knows its index, a slot is in use exactly while its
  thread is to run, and the slots are taken from the front.
\<close>

definition thrds_ok :: "'cb thrds \<Rightarrow> bool" where
  "thrds_ok ts \<longleftrightarrow>
     length ts = MAX_THREADS \<and>
     (\<forall>i t. i < MAX_THREADS \<longrightarrow> ts ! i = Some t \<longrightarrow> it_id t = int i \<and> it_used t = it_actv t) \<and>
     (\<forall>i j. i < j \<longrightarrow> j < MAX_THREADS \<longrightarrow> ts ! j \<noteq> None \<longrightarrow> ts ! i \<noteq> None)"

definition in_use :: "'cb thrds \<Rightarrow> int set" where
  "in_use ts = {tid. 0 \<le> tid \<and> nat tid < length ts \<and> (\<exists>t. ts ! nat tid = Some t \<and> it_used t)}"

lemma thrds_ok_static [simp]: "thrds_ok thrds_static"
  by (simp add: thrds_ok_def thrds_static_def)

lemma in_use_static [simp]: "in_use thrds_static = {}"
  by (auto simp: in_use_def thrds_static_def)

lemma thrd_in_use: "tid \<in> in_use ts \<Longrightarrow> \<exists>t. thrd ts tid = Inr t \<and> it_used t"
  by (auto simp: in_use_def thrd_def)

lemma thrd_Inr: "thrd ts tid = Inr t \<longleftrightarrow> 0 \<le> tid \<and> nat tid < length ts \<and> ts ! nat tid = Some t"
  by (auto simp: thrd_def aget_def split: option.splits)

lemma thrd_thrd_put:
  assumes "thrd ts tid = Inr t" "0 \<le> tid'"
  shows "thrd (thrd_put tid t' ts) tid' = (if tid' = tid then Inr t' else thrd ts tid')"
proof -
  from assms(1) have "0 \<le> tid" "nat tid < length ts" by (simp_all add: thrd_Inr)
  with assms(2) show ?thesis
    by (auto simp: thrd_def thrd_put_def aget_def nth_list_update eq_nat_nat_iff)
qed

lemma thrds_ok_put:
  assumes "thrds_ok ts" "thrd ts tid = Inr t" "it_id t' = it_id t" "it_used t' = it_actv t'"
  shows "thrds_ok (thrd_put tid t' ts)"
  using assms by (auto simp: thrds_ok_def thrd_put_def thrd_Inr nth_list_update)

lemma in_use_put:
  assumes "thrd ts tid = Inr t" "it_used t' = it_used t"
  shows "in_use (thrd_put tid t' ts) = in_use ts"
  using assms by (auto simp: in_use_def thrd_put_def thrd_Inr nth_list_update)

section \<open>Starting\<close>

lemma find_slot_le: "find_slot ts \<le> length ts"
  by (induction ts rule: find_slot.induct) auto

lemma find_slot_before: "i < find_slot ts \<Longrightarrow> \<exists>t. ts ! i = Some t \<and> it_used t"
proof (induction ts arbitrary: i rule: find_slot.induct)
  case (3 t ts)
  then show ?case by (cases i) (auto split: if_splits)
qed auto

lemma find_slot_free: "find_slot ts < length ts \<Longrightarrow> ts ! find_slot ts = Some t \<Longrightarrow> \<not> it_used t"
  by (induction ts rule: find_slot.induct) (auto split: if_splits)

lemma or_zero_iff: "((a :: int) OR b = 0) \<longleftrightarrow> a = 0 \<and> b = 0"
  by (rule or_eq_0_iff)

lemma start_ok:
  assumes "thrds_ok ts" "irthread_start env cb ts = (r, ts')"
  shows "thrds_ok ts'"
proof -
  have len: "length ts = MAX_THREADS" using assms(1) by (simp add: thrds_ok_def)
  let ?i = "find_slot ts"
  have before: "ts ! j \<noteq> None" if "j < ?i" for j using find_slot_before [OF that] by auto
  show ?thesis
  proof (cases "?i < MAX_THREADS")
    case True
    with assms(2) obtain t where t: "ts' = ts[?i := Some t]" "it_id t = int ?i" "it_used t" "it_actv t"
      by (auto simp: irthread_start_def Let_def)
    then show ?thesis
      using True assms(1) len before by (auto simp: thrds_ok_def nth_list_update)
  next
    case False
    then show ?thesis using assms by (simp add: irthread_start_def Let_def)
  qed
qed

lemma start_full:
  assumes "\<not> find_slot ts < MAX_THREADS"
  shows "irthread_start env cb ts = (IRTHRD_ERR, ts)"
  using assms by (simp add: irthread_start_def Let_def)

lemma start_success:
  assumes "find_slot ts < MAX_THREADS"
    and "mutex_init_ret env = 0" "cond_init_ret env = 0" "create_ret env = 0"
  shows "irthread_start env cb ts =
           (int (find_slot ts),
            ts[find_slot ts := Some \<lparr>it_actv = True, it_used = True, it_susp = False,
              it_tid = new_tid env, it_id = int (find_slot ts), it_tcb = cb, it_data = 0\<rparr>])"
  using assms by (simp add: irthread_start_def Let_def)

lemma start_in_use:
  assumes "find_slot ts < MAX_THREADS" "length ts = MAX_THREADS"
  shows "in_use (snd (irthread_start env cb ts)) = insert (int (find_slot ts)) (in_use ts)"
  using assms by (auto simp: irthread_start_def Let_def in_use_def nth_list_update)

lemma find_slot_static [simp]: "find_slot thrds_static = 0"
  by (simp add: thrds_static_def MAX_THREADS_def numeral_eq_Suc)

lemma start_first: "in_use (snd (irthread_start env cb thrds_static)) = {0}"
  by (subst start_in_use) (simp_all add: MAX_THREADS_def thrds_static_def [THEN arg_cong [where f = length]])

section \<open>The interface of the running threads\<close>

text \<open>
  What a client of a thread pool relies on: the data word and the suspension of every thread in
  use, each changed by its own operation for its own thread only.
\<close>

locale thread_pool =
  fixes data_of :: "'t \<Rightarrow> int \<Rightarrow> u32"
    and susp_of :: "'t \<Rightarrow> int \<Rightarrow> bool"
    and setdata :: "int \<Rightarrow> u32 \<Rightarrow> 't \<Rightarrow> 't c_result"
    and suspend :: "int \<Rightarrow> 't \<Rightarrow> 't c_result"
    and resume :: "int \<Rightarrow> 't \<Rightarrow> (int \<times> 't) c_result"
    and ids :: "'t \<Rightarrow> int set"
    and valid :: "'t \<Rightarrow> bool"
  assumes setdata_ok: "valid p \<Longrightarrow> i \<in> ids p \<Longrightarrow>
      \<exists>p'. setdata i d p = Inr p' \<and> valid p' \<and> ids p' = ids p \<and>
           data_of p' i = d \<and> (\<forall>j \<in> ids p. j \<noteq> i \<longrightarrow> data_of p' j = data_of p j) \<and>
           (\<forall>j \<in> ids p. susp_of p' j = susp_of p j)"
    and suspend_ok: "valid p \<Longrightarrow> i \<in> ids p \<Longrightarrow>
      \<exists>p'. suspend i p = Inr p' \<and> valid p' \<and> ids p' = ids p \<and>
           susp_of p' i \<and> (\<forall>j \<in> ids p. j \<noteq> i \<longrightarrow> susp_of p' j = susp_of p j) \<and>
           (\<forall>j \<in> ids p. data_of p' j = data_of p j)"
    and resume_ok: "valid p \<Longrightarrow> i \<in> ids p \<Longrightarrow>
      \<exists>r p'. resume i p = Inr (r, p') \<and> valid p' \<and> ids p' = ids p \<and>
           \<not> susp_of p' i \<and> (\<forall>j \<in> ids p. j \<noteq> i \<longrightarrow> susp_of p' j = susp_of p j) \<and>
           (\<forall>j \<in> ids p. data_of p' j = data_of p j)"
begin

text \<open>Handing the same word to two threads, one after the other.\<close>

lemma publish_ok:
  assumes "valid p" "a \<in> ids p" "b \<in> ids p"
  shows "\<exists>p'. sbind (setdata a d p) (setdata b d) = Inr p' \<and> valid p' \<and> ids p' = ids p \<and>
           data_of p' a = d \<and> data_of p' b = d \<and>
           (\<forall>j \<in> ids p. susp_of p' j = susp_of p j)"
proof -
  obtain p1 where p1: "setdata a d p = Inr p1" "valid p1" "ids p1 = ids p" "data_of p1 a = d"
      "\<forall>j \<in> ids p. susp_of p1 j = susp_of p j"
    using setdata_ok [OF assms(1,2), of d] by blast
  obtain p2 where "setdata b d p1 = Inr p2" "valid p2" "ids p2 = ids p1" "data_of p2 b = d"
      "\<forall>j \<in> ids p1. j \<noteq> b \<longrightarrow> data_of p2 j = data_of p1 j" "\<forall>j \<in> ids p1. susp_of p2 j = susp_of p1 j"
    using setdata_ok [of p1 b d] p1 assms(3) by auto
  with p1 assms show ?thesis by (cases "a = b") auto
qed

lemma publish_resume_ok:
  assumes "valid p" "a \<in> ids p" "b \<in> ids p"
  shows "\<exists>r p'. sbind (sbind (setdata a d p) (setdata b d)) (resume a) = Inr (r, p') \<and> valid p' \<and>
           ids p' = ids p \<and> data_of p' a = d \<and> data_of p' b = d \<and> \<not> susp_of p' a \<and>
           (b \<noteq> a \<longrightarrow> susp_of p' b = susp_of p b)"
proof -
  obtain p1 where p1: "sbind (setdata a d p) (setdata b d) = Inr p1" "valid p1" "ids p1 = ids p"
      "data_of p1 a = d" "data_of p1 b = d" "\<forall>j \<in> ids p. susp_of p1 j = susp_of p j"
    using publish_ok [OF assms, of d] by blast
  obtain r p2 where "resume a p1 = Inr (r, p2)" "valid p2" "ids p2 = ids p1" "\<not> susp_of p2 a"
      "\<forall>j \<in> ids p1. j \<noteq> a \<longrightarrow> susp_of p2 j = susp_of p1 j"
      "\<forall>j \<in> ids p1. data_of p2 j = data_of p1 j"
    using resume_ok [of p1 a] p1 assms by metis
  with p1 assms show ?thesis by auto
qed

end

definition thrd_data :: "'cb thrds \<Rightarrow> int \<Rightarrow> u32" where
  "thrd_data ts tid = (case thrd ts tid of Inl _ \<Rightarrow> 0 | Inr t \<Rightarrow> it_data t)"

definition thrd_susp :: "'cb thrds \<Rightarrow> int \<Rightarrow> bool" where
  "thrd_susp ts tid = (case thrd ts tid of Inl _ \<Rightarrow> False | Inr t \<Rightarrow> it_susp t)"

lemma in_use_nonneg: "tid \<in> in_use ts \<Longrightarrow> 0 \<le> tid"
  by (simp add: in_use_def)

interpretation irt: thread_pool thrd_data thrd_susp irthread_setdata irthread_suspend
    "irthread_resume env" in_use thrds_ok for env
proof (unfold_locales, goal_cases)
  case (1 p i d)
  then obtain t where t: "thrd p i = Inr t" "it_used t" using thrd_in_use by blast
  moreover have "it_used t = it_actv t" using 1 t by (auto simp: thrds_ok_def thrd_Inr)
  ultimately show ?case
    using 1 thrds_ok_put [of p i t "t\<lparr>it_data := d\<rparr>"] in_use_put [of p i t "t\<lparr>it_data := d\<rparr>"]
    by (auto simp: irthread_setdata_def thrd_data_def thrd_susp_def thrd_thrd_put in_use_nonneg)
next
  case (2 p i)
  then obtain t where t: "thrd p i = Inr t" "it_used t" using thrd_in_use by blast
  moreover have "it_used t = it_actv t" using 2 t by (auto simp: thrds_ok_def thrd_Inr)
  ultimately show ?case
    using 2 thrds_ok_put [of p i t "t\<lparr>it_susp := True\<rparr>"] in_use_put [of p i t "t\<lparr>it_susp := True\<rparr>"]
    by (auto simp: irthread_suspend_def thrd_data_def thrd_susp_def thrd_thrd_put in_use_nonneg)
next
  case (3 p i)
  then obtain t where t: "thrd p i = Inr t" "it_used t" using thrd_in_use by blast
  moreover have "it_used t = it_actv t" using 3 t by (auto simp: thrds_ok_def thrd_Inr)
  ultimately show ?case
    using 3 thrds_ok_put [of p i t "t\<lparr>it_susp := False\<rparr>"] in_use_put [of p i t "t\<lparr>it_susp := False\<rparr>"]
    by (auto simp: irthread_resume_def thrd_data_def thrd_susp_def thrd_thrd_put in_use_nonneg)
qed

section \<open>Stopping\<close>

lemma stop_ok:
  assumes "thrds_ok ts" "idcheck tid = 0 \<longrightarrow> tid \<in> in_use ts"
  shows "\<exists>r ts'. irthread_stop env tid ts = Inr (r, ts') \<and> thrds_ok ts' \<and>
           in_use ts' = in_use ts - {tid} \<and>
           (if idcheck tid = 0 then find_slot ts' \<le> nat tid else r = IRTHRD_ERR \<and> ts' = ts)"
proof (cases "idcheck tid = 0")
  case True
  with assms(2) obtain t where t: "thrd ts tid = Inr t" "it_used t"
    using thrd_in_use by blast
  have nn: "0 \<le> tid" "nat tid < length ts" "ts ! nat tid = Some t"
    using t(1) by (simp_all add: thrd_Inr)
  let ?t' = "t\<lparr>it_susp := True, it_used := False, it_actv := False\<rparr>"
  let ?ts' = "thrd_put tid ?t' ts"
  have put2: "thrd_put tid b (thrd_put tid a ts) = thrd_put tid b ts" for a b :: "'a irthread"
    by (simp add: thrd_put_def)
  have susp: "t\<lparr>it_used := False, it_actv := False\<rparr> = ?t'" if "it_susp t"
    using that by (cases t) simp
  have step: "\<exists>r. irthread_stop env tid ts = Inr (r, ?ts')"
  proof (cases "it_susp t")
    case True
    then show ?thesis
      using t \<open>idcheck tid = 0\<close>
      by (simp add: irthread_stop_def irthread_suspend_def Let_def susp del: sbind.simps(1))
  next
    case False
    then show ?thesis
      using t \<open>idcheck tid = 0\<close> nn(1)
      by (simp add: irthread_stop_def irthread_suspend_def Let_def thrd_thrd_put put2)
  qed
  have "thrds_ok ?ts'"
    using assms(1) t(1) by (intro thrds_ok_put) simp_all
  moreover have "in_use ?ts' = in_use ts - {tid}"
    using nn by (auto simp: in_use_def thrd_put_def nth_list_update eq_nat_nat_iff)
  moreover have "find_slot ?ts' \<le> nat tid"
  proof (rule ccontr)
    assume "\<not> find_slot ?ts' \<le> nat tid"
    then have "nat tid < find_slot ?ts'" by simp
    from find_slot_before [OF this] nn show False by (auto simp: thrd_put_def)
  qed
  ultimately show ?thesis using step True by auto
next
  case False
  then have "tid \<notin> in_use ts"
    using assms(1) by (auto simp: idcheck_def in_use_def thrds_ok_def split: if_splits)
  with False assms(1) show ?thesis by (simp add: irthread_stop_def)
qed

section \<open>The properties\<close>

definition slot_free :: "'cb thrds \<Rightarrow> nat \<Rightarrow> bool" where
  "slot_free ts i \<longleftrightarrow> (case ts ! i of None \<Rightarrow> True | Some t \<Rightarrow> \<not> it_used t)"

text \<open>\<open>irthread_start\<close> takes the first slot that is free, leaves every other slot alone, and refuses,
  without any effect, exactly if all slots are in use; it reports the full table as
  \<open>IRTHRD_ERR\<close>, never as \<open>IRTHRD_FULL\<close>.\<close>

theorem start_takes_first_free:
  assumes "thrds_ok ts" "irthread_start env cb ts = (r, ts')"
    and "mutex_init_ret env = 0" "cond_init_ret env = 0" "create_ret env = 0"
  shows "if \<forall>i < MAX_THREADS. \<not> slot_free ts i then r = IRTHRD_ERR \<and> ts' = ts
         else 0 \<le> r \<and> nat r < MAX_THREADS \<and> slot_free ts (nat r) \<and> (\<forall>j < nat r. \<not> slot_free ts j) \<and>
              in_use ts' = insert r (in_use ts) \<and> (\<forall>j. j \<noteq> nat r \<longrightarrow> ts' ! j = ts ! j)"
proof -
  have len: "length ts = MAX_THREADS" using assms(1) by (simp add: thrds_ok_def)
  have before: "\<not> slot_free ts j" if "j < find_slot ts" for j
    using find_slot_before [OF that] by (auto simp: slot_free_def)
  show ?thesis
  proof (cases "find_slot ts < MAX_THREADS")
    case True
    then have free: "slot_free ts (find_slot ts)"
      using find_slot_free [of ts] len by (auto simp: slot_free_def split: option.splits)
    with True assms(2-5) before len show ?thesis
      by (auto simp: start_success in_use_def nth_list_update)
  next
    case False
    with before len assms(2) find_slot_le [of ts] show ?thesis
      by (auto simp: start_full)
  qed
qed

definition pthread_success :: pthread_env where
  "pthread_success = \<lparr>mutex_init_ret = 0, cond_init_ret = 0, create_ret = 0, new_tid = 77, signal_ret = 0,
     cancel_ret = 0, join_ret = 0, mutex_destroy_ret = 0, cond_destroy_ret = 0\<rparr>"

lemma start_takes_first_free_witness:
  "\<exists>ts'. irthread_start pthread_success () thrds_static = (0, ts') \<and> in_use ts' = {0}"
proof -
  have full: "\<not> (\<forall>i < MAX_THREADS. \<not> slot_free (thrds_static :: unit thrds) i)"
    by (simp add: slot_free_def thrds_static_def MAX_THREADS_def exI [of _ 0])
  obtain ts' where ts': "irthread_start pthread_success () thrds_static = (0, ts')"
    by (simp add: irthread_start_def thrds_static_def MAX_THREADS_def numeral_eq_Suc Let_def pthread_success_def)
  from start_takes_first_free [OF thrds_ok_static this] full ts' show ?thesis
    by (simp add: pthread_success_def)
qed

fun start_times :: "pthread_env \<Rightarrow> 'cb \<Rightarrow> nat \<Rightarrow> 'cb thrds \<Rightarrow> 'cb thrds" where
  "start_times env cb 0 ts = ts"
| "start_times env cb (Suc n) ts = start_times env cb n (snd (irthread_start env cb ts))"

text \<open>a thread that cannot be created still occupies its slot: \<open>irthread_start\<close> reports the failure
  and the slot stays in use, so that after four failures the table is full although no thread
  runs.\<close>

theorem failed_start_leaks_slot:
  assumes "create_ret env \<noteq> 0" "find_slot ts < MAX_THREADS" "length ts = MAX_THREADS"
  shows "fst (irthread_start env cb ts) = IRTHRD_ERR \<and>
         in_use (snd (irthread_start env cb ts)) = insert (int (find_slot ts)) (in_use ts) \<and>
         (\<forall>env'. irthread_start env' cb (start_times env cb 4 thrds_static) =
                 (IRTHRD_ERR, start_times env cb 4 thrds_static))"
proof -
  have "fst (irthread_start env cb ts) = IRTHRD_ERR"
    using assms by (simp add: irthread_start_def Let_def or_zero_iff)
  moreover have "in_use (snd (irthread_start env cb ts)) = insert (int (find_slot ts)) (in_use ts)"
    using assms by (simp add: start_in_use)
  moreover have "find_slot (start_times env cb 4 thrds_static) = 4"
    by (simp add: thrds_static_def MAX_THREADS_def numeral_eq_Suc irthread_start_def Let_def)
  ultimately show ?thesis by (simp add: start_full MAX_THREADS_def)
qed

lemma failed_start_leaks_slot_witness:
  "fst (irthread_start (pthread_success\<lparr>create_ret := 11\<rparr>) () thrds_static) = IRTHRD_ERR \<and>
   in_use (snd (irthread_start (pthread_success\<lparr>create_ret := 11\<rparr>) () thrds_static)) = {0}"
proof -
  from failed_start_leaks_slot [of "pthread_success\<lparr>create_ret := 11\<rparr>" thrds_static "()"] show ?thesis
    by (simp add: thrds_static_def [THEN arg_cong [where f = length]] MAX_THREADS_def)
qed

text \<open>\<open>irthread_stop\<close> on a thread in use frees exactly its slot, keeps the table well-formed, and the
  next start takes that slot or one before it; on an index outside of the table it is an error
  without an effect.\<close>

theorem stop_frees_slot:
  assumes "thrds_ok ts" "idcheck tid = 0 \<longrightarrow> tid \<in> in_use ts"
  shows "\<exists>r ts'. irthread_stop env tid ts = Inr (r, ts') \<and> thrds_ok ts' \<and>
           in_use ts' = in_use ts - {tid} \<and>
           (if idcheck tid = 0 then find_slot ts' \<le> nat tid else r = IRTHRD_ERR \<and> ts' = ts)"
  using assms by (rule stop_ok)

lemma stop_frees_slot_witness:
  "\<exists>r ts'. irthread_stop pthread_success 0 (snd (irthread_start pthread_success () thrds_static)) = Inr (r, ts') \<and>
     in_use ts' = {}"
proof -
  let ?ts = "snd (irthread_start pthread_success () thrds_static)"
  have ok: "thrds_ok ?ts"
    using start_ok [OF thrds_ok_static, of pthread_success "()"] by (simp add: prod_eq_iff)
  have u: "in_use ?ts = {0}"
    by (rule start_first)
  from stop_frees_slot [OF ok, of 0 pthread_success] u show ?thesis by auto
qed

text \<open>the other operations do not check their index: on one outside of the table, such as the error
  value of a failed \<open>irthread_start\<close>, they access memory outside of the table, and on a slot that was
  never used all of them, \<open>irthread_stop\<close> included, dereference a null pointer.\<close>

theorem unchecked_ids:
  assumes "length ts = MAX_THREADS"
  shows "(idcheck tid \<noteq> 0 \<longrightarrow>
            irthread_suspend tid ts = Inl OutOfBounds \<and> irthread_resume env tid ts = Inl OutOfBounds \<and>
            irthread_setdata tid d ts = Inl OutOfBounds) \<and>
         (idcheck tid = 0 \<and> ts ! nat tid = None \<longrightarrow>
            irthread_suspend tid ts = Inl NullDeref \<and> irthread_resume env tid ts = Inl NullDeref \<and>
            irthread_setdata tid d ts = Inl NullDeref \<and> irthread_stop env tid ts = Inl NullDeref)"
  using assms
  by (auto simp: idcheck_def irthread_suspend_def irthread_resume_def irthread_setdata_def
      irthread_stop_def thrd_def split: if_splits)

lemma unchecked_ids_witness:
  "irthread_suspend IRTHRD_ERR (thrds_static :: unit thrds) = Inl OutOfBounds \<and>
   irthread_stop pthread_success 3 (thrds_static :: unit thrds) = Inl NullDeref"
proof -
  have "length (thrds_static :: unit thrds) = MAX_THREADS" by (simp add: thrds_static_def)
  from unchecked_ids [OF this, of IRTHRD_ERR] unchecked_ids [OF this, of 3 pthread_success] show ?thesis
    by (simp add: idcheck_def thrds_static_def MAX_THREADS_def)
qed

section \<open>Sequences of operations\<close>

datatype 'cb thr_op =
    Op_start pthread_env 'cb
  | Op_stop pthread_env int
  | Op_suspend int
  | Op_resume pthread_env int
  | Op_setdata int u32

fun thr_step :: "'cb thr_op \<Rightarrow> 'cb thrds \<Rightarrow> 'cb thrds c_result" where
  "thr_step (Op_start env cb) ts = Inr (snd (irthread_start env cb ts))"
| "thr_step (Op_stop env i) ts = sbind (irthread_stop env i ts) (\<lambda>(_, ts). Inr ts)"
| "thr_step (Op_suspend i) ts = irthread_suspend i ts"
| "thr_step (Op_resume env i) ts = sbind (irthread_resume env i ts) (\<lambda>(_, ts). Inr ts)"
| "thr_step (Op_setdata i d) ts = irthread_setdata i d ts"

text \<open>The slot has been used before, whether or not its thread still runs.\<close>

definition known :: "'cb thrds \<Rightarrow> int \<Rightarrow> bool" where
  "known ts i \<longleftrightarrow> idcheck i = 0 \<and> ts ! nat i \<noteq> None"

fun op_fine :: "'cb thrds \<Rightarrow> 'cb thr_op \<Rightarrow> bool" where
  "op_fine ts (Op_start env cb) \<longleftrightarrow> True"
| "op_fine ts (Op_stop env i) \<longleftrightarrow> idcheck i \<noteq> 0 \<or> known ts i"
| "op_fine ts (Op_suspend i) \<longleftrightarrow> known ts i"
| "op_fine ts (Op_resume env i) \<longleftrightarrow> known ts i"
| "op_fine ts (Op_setdata i d) \<longleftrightarrow> known ts i"

lemma known_thrd: "thrds_ok ts \<Longrightarrow> known ts i \<longleftrightarrow> (\<exists>t. thrd ts i = Inr t)"
  by (auto simp: known_def idcheck_def thrd_Inr thrds_ok_def nat_less_iff)

lemma suspend_sound:
  assumes "thrds_ok ts"
  shows "(\<exists>ts'. irthread_suspend i ts = Inr ts') \<longleftrightarrow> known ts i"
    and "irthread_suspend i ts = Inr ts' \<Longrightarrow> thrds_ok ts' \<and> known ts' i"
proof -
  show "(\<exists>ts'. irthread_suspend i ts = Inr ts') \<longleftrightarrow> known ts i"
    using known_thrd [OF assms, of i] by (cases "thrd ts i") (simp_all add: irthread_suspend_def)
  assume a: "irthread_suspend i ts = Inr ts'"
  then obtain t where t: "thrd ts i = Inr t" "ts' = (if it_susp t then ts else thrd_put i (t\<lparr>it_susp := True\<rparr>) ts)"
    by (cases "thrd ts i") (auto simp: irthread_suspend_def split: if_splits)
  then have "it_used t = it_actv t" using assms by (auto simp: thrd_Inr thrds_ok_def)
  with t thrds_ok_put [OF assms t(1), of "t\<lparr>it_susp := True\<rparr>"] assms have ok: "thrds_ok ts'" by simp
  moreover have "\<exists>t'. thrd ts' i = Inr t'"
    using t by (auto simp: thrd_put_def thrd_Inr)
  ultimately show "thrds_ok ts' \<and> known ts' i" by (simp add: known_thrd)
qed

lemma thr_step_sound:
  assumes "thrds_ok ts"
  shows "(\<exists>ts'. thr_step op ts = Inr ts') \<longleftrightarrow> op_fine ts op"
    and "thr_step op ts = Inr ts' \<Longrightarrow> thrds_ok ts'"
proof -
  note put = thrds_ok_put [OF assms]
  have own: "it_used t = it_actv t" if "thrd ts i = Inr t" for i t
    using that assms by (auto simp: thrd_Inr thrds_ok_def)
  have "((\<exists>ts'. thr_step op ts = Inr ts') \<longleftrightarrow> op_fine ts op) \<and> (\<forall>ts'. thr_step op ts = Inr ts' \<longrightarrow> thrds_ok ts')"
  proof (cases op)
    case (Op_start env cb)
    then show ?thesis using start_ok [OF assms, of env cb] by (simp add: prod_eq_iff)
  next
    case (Op_stop env i)
    show ?thesis
    proof (cases "idcheck i = 0")
      case False
      with Op_stop assms show ?thesis by (simp add: irthread_stop_def)
    next
      case True
      show ?thesis
      proof (cases "irthread_suspend i ts")
        case (Inl e)
        with True Op_stop suspend_sound(1) [OF assms, of i] show ?thesis by (simp add: irthread_stop_def)
      next
        case (Inr ts1)
        with suspend_sound(2) [OF assms] have 1: "thrds_ok ts1" "known ts1 i" by auto
        then obtain t where t: "thrd ts1 i = Inr t" using known_thrd by blast
        have "thrds_ok (thrd_put i (t\<lparr>it_used := False, it_actv := False\<rparr>) ts1)"
          by (rule thrds_ok_put [OF 1(1) t]) simp_all
        with True Op_stop Inr t suspend_sound(1) [OF assms, of i] show ?thesis
          by (simp add: irthread_stop_def Let_def)
      qed
    qed
  next
    case (Op_suspend i)
    with suspend_sound [OF assms, of i] show ?thesis by auto
  next
    case (Op_resume env i)
    show ?thesis
    proof (cases "thrd ts i")
      case (Inl e)
      with Op_resume known_thrd [OF assms, of i] show ?thesis by (simp add: irthread_resume_def)
    next
      case (Inr t)
      with Op_resume known_thrd [OF assms, of i] own [OF Inr] put [OF Inr, of "t\<lparr>it_susp := False\<rparr>"] assms
      show ?thesis by (simp add: irthread_resume_def)
    qed
  next
    case (Op_setdata i d)
    show ?thesis
    proof (cases "thrd ts i")
      case (Inl e)
      with Op_setdata known_thrd [OF assms, of i] show ?thesis by (simp add: irthread_setdata_def)
    next
      case (Inr t)
      with Op_setdata known_thrd [OF assms, of i] own [OF Inr] put [OF Inr, of "t\<lparr>it_data := d\<rparr>"] assms
      show ?thesis by (simp add: irthread_setdata_def)
    qed
  qed
  then show "(\<exists>ts'. thr_step op ts = Inr ts') \<longleftrightarrow> op_fine ts op" "thr_step op ts = Inr ts' \<Longrightarrow> thrds_ok ts'"
    by blast+
qed

lemma thr_run_ok: "thrds_ok ts \<Longrightarrow> sfoldM thr_step ops ts = Inr ts' \<Longrightarrow> thrds_ok ts'"
proof (induction ops arbitrary: ts)
  case (Cons op ops)
  from Cons.prems(2) obtain ts1 where "thr_step op ts = Inr ts1" "sfoldM thr_step ops ts1 = Inr ts'"
    by (auto simp: sbind_Inr_iff)
  with Cons.IH thr_step_sound(2) [OF Cons.prems(1)] show ?case by blast
qed simp



end
