(* ===== verification/Irthread_Conc.thy ===== *)
theory Irthread_Conc
  imports Irthread
begin

text \<open>
  One thread of the table and its controller, statement by statement (\<open>iralarm/irthread.c\<close>).

  \<^item> The worker is \<open>__thread_mainloop\<close>, a position for each statement; the callback may suspend its
    own thread, as \<open>alarm_thread\<close> does.  The controller is the main thread, which runs
    \<open>irthread_suspend\<close>, \<open>irthread_resume\<close>, \<open>irthread_setdata\<close> and \<open>irthread_stop\<close>, in any order.
  \<^item> A step of \<open>conc_step\<close> is one statement of one of the two, or a spurious wakeup of the condition
    variable, which POSIX allows.  Memory is sequentially consistent.
  \<^item> Facts: who holds the mutex, what holds when \<open>irthread_stop\<close> joins, and the executions in which
    a wakeup is lost.
\<close>

section \<open>State\<close>

datatype wpc =
    W_while      \<comment> \<open>\<open>while (it->actv == 1)\<close>\<close>
  | W_testcancel
  | W_disable
  | W_lock
  | W_susp       \<comment> \<open>\<open>if (it->susp == 1)\<close>\<close>
  | W_wait       \<comment> \<open>about to call \<open>pthread_cond_wait\<close>\<close>
  | W_waiting    \<comment> \<open>inside of it, the mutex released\<close>
  | W_relock     \<comment> \<open>woken up, acquiring the mutex again\<close>
  | W_read
  | W_unlock
  | W_actv       \<comment> \<open>\<open>if (it->actv == 1)\<close>\<close>
  | W_call
  | W_cb_check   \<comment> \<open>the callback's \<open>irthread_suspend\<close> of its own thread\<close>
  | W_cb_lock
  | W_cb_set
  | W_cb_unlock
  | W_enable
  | W_returned
  | W_cancelled

datatype cpc =
    C_idle
  | C_suspend_check bool  \<comment> \<open>the flag: whether \<open>irthread_stop\<close> is the caller\<close>
  | C_suspend_lock bool
  | C_suspend_set bool
  | C_suspend_unlock bool
  | C_resume_check
  | C_resume_set
  | C_resume_signal
  | C_setdata_lock u32
  | C_setdata_set u32
  | C_setdata_unlock
  | C_stop_used
  | C_stop_actv
  | C_stop_signal
  | C_stop_cancel
  | C_stop_join
  | C_stopped

datatype owner = Worker | Controller

record conc =
  actv :: bool
  used :: bool
  susp :: bool
  data :: u32
  mtx :: "owner option"
  cancel :: bool          \<comment> \<open>a cancellation is pending\<close>
  wpc :: wpc
  data_ptr :: u32         \<comment> \<open>the worker's local copy\<close>
  cpc :: cpc
  calls :: "u32 list"     \<comment> \<open>the arguments the callback was called with, the last one first\<close>

text \<open>The state in which \<open>irthread_start\<close> leaves a new thread.\<close>

definition conc_start :: conc where
  "conc_start =
     \<lparr>actv = True, used = True, susp = False, data = 0, mtx = None, cancel = False,
      wpc = W_while, data_ptr = 0, cpc = C_idle, calls = []\<rparr>"

section \<open>The worker\<close>

text \<open>
  The worker's next statement; \<open>None\<close> if it is blocked or gone.  \<open>self\<close> says for which data the
  callback suspends its own thread.
\<close>

fun worker_at :: "(u32 \<Rightarrow> bool) \<Rightarrow> wpc \<Rightarrow> conc \<Rightarrow> conc option" where
  "worker_at self W_while s = Some (s\<lparr>wpc := if actv s then W_testcancel else W_returned\<rparr>)"
| "worker_at self W_testcancel s = Some (s\<lparr>wpc := if cancel s then W_cancelled else W_disable\<rparr>)"
| "worker_at self W_disable s = Some (s\<lparr>wpc := W_lock\<rparr>)"
| "worker_at self W_lock s = (if mtx s = None then Some (s\<lparr>mtx := Some Worker, wpc := W_susp\<rparr>) else None)"
| "worker_at self W_susp s = Some (s\<lparr>wpc := if susp s then W_wait else W_read\<rparr>)"
| "worker_at self W_wait s = Some (s\<lparr>mtx := None, wpc := W_waiting\<rparr>)"
| "worker_at self W_waiting s = None"
| "worker_at self W_relock s = (if mtx s = None then Some (s\<lparr>mtx := Some Worker, wpc := W_read\<rparr>) else None)"
| "worker_at self W_read s = Some (s\<lparr>data_ptr := data s, wpc := W_unlock\<rparr>)"
| "worker_at self W_unlock s = Some (s\<lparr>mtx := None, wpc := W_actv\<rparr>)"
| "worker_at self W_actv s = Some (s\<lparr>wpc := if actv s then W_call else W_enable\<rparr>)"
| "worker_at self W_call s =
     Some (s\<lparr>calls := data_ptr s # calls s, wpc := if self (data_ptr s) then W_cb_check else W_enable\<rparr>)"
| "worker_at self W_cb_check s = Some (s\<lparr>wpc := if susp s then W_enable else W_cb_lock\<rparr>)"
| "worker_at self W_cb_lock s = (if mtx s = None then Some (s\<lparr>mtx := Some Worker, wpc := W_cb_set\<rparr>) else None)"
| "worker_at self W_cb_set s = Some (s\<lparr>susp := True, wpc := W_cb_unlock\<rparr>)"
| "worker_at self W_cb_unlock s = Some (s\<lparr>mtx := None, wpc := W_enable\<rparr>)"
| "worker_at self W_enable s = Some (s\<lparr>wpc := W_while\<rparr>)"
| "worker_at self W_returned s = None"
| "worker_at self W_cancelled s = None"

definition worker :: "(u32 \<Rightarrow> bool) \<Rightarrow> conc \<Rightarrow> conc option" where
  "worker self s = worker_at self (wpc s) s"

section \<open>The controller\<close>

text \<open>\<open>pthread_cond_signal\<close>: it wakes the worker if the worker waits, and has no effect otherwise.\<close>

definition signal :: "conc \<Rightarrow> conc" where
  "signal s = (if wpc s = W_waiting then s\<lparr>wpc := W_relock\<rparr> else s)"

definition after_suspend :: "bool \<Rightarrow> cpc" where
  "after_suspend stopping = (if stopping then C_stop_used else C_idle)"

fun controller_at :: "cpc \<Rightarrow> conc \<Rightarrow> conc option" where
  "controller_at C_idle s = None"
| "controller_at (C_suspend_check b) s = Some (s\<lparr>cpc := if susp s then after_suspend b else C_suspend_lock b\<rparr>)"
| "controller_at (C_suspend_lock b) s =
     (if mtx s = None then Some (s\<lparr>mtx := Some Controller, cpc := C_suspend_set b\<rparr>) else None)"
| "controller_at (C_suspend_set b) s = Some (s\<lparr>susp := True, cpc := C_suspend_unlock b\<rparr>)"
| "controller_at (C_suspend_unlock b) s = Some (s\<lparr>mtx := None, cpc := after_suspend b\<rparr>)"
| "controller_at C_resume_check s = Some (s\<lparr>cpc := if susp s then C_resume_set else C_idle\<rparr>)"
| "controller_at C_resume_set s = Some (s\<lparr>susp := False, cpc := C_resume_signal\<rparr>)"
| "controller_at C_resume_signal s = Some (signal s\<lparr>cpc := C_idle\<rparr>)"
| "controller_at (C_setdata_lock d) s =
     (if mtx s = None then Some (s\<lparr>mtx := Some Controller, cpc := C_setdata_set d\<rparr>) else None)"
| "controller_at (C_setdata_set d) s = Some (s\<lparr>data := d, cpc := C_setdata_unlock\<rparr>)"
| "controller_at C_setdata_unlock s = Some (s\<lparr>mtx := None, cpc := C_idle\<rparr>)"
| "controller_at C_stop_used s = Some (s\<lparr>used := False, cpc := C_stop_actv\<rparr>)"
| "controller_at C_stop_actv s = Some (s\<lparr>actv := False, cpc := C_stop_signal\<rparr>)"
| "controller_at C_stop_signal s = Some (signal s\<lparr>cpc := C_stop_cancel\<rparr>)"
| "controller_at C_stop_cancel s = Some (s\<lparr>cancel := True, cpc := C_stop_join\<rparr>)"
| "controller_at C_stop_join s =
     (if wpc s = W_returned \<or> wpc s = W_cancelled then Some (s\<lparr>cpc := C_stopped\<rparr>) else None)"
| "controller_at C_stopped s = None"

definition controller :: "conc \<Rightarrow> conc option" where
  "controller s = controller_at (cpc s) s"

text \<open>Where the operations begin.\<close>

definition entry_points :: "cpc set" where
  "entry_points = {C_suspend_check False, C_suspend_check True, C_resume_check} \<union> range C_setdata_lock"

section \<open>Interleaving\<close>

inductive conc_step :: "(u32 \<Rightarrow> bool) \<Rightarrow> conc \<Rightarrow> conc \<Rightarrow> bool" for self where
  worker: "worker self s = Some t \<Longrightarrow> conc_step self s t"
| controller: "controller s = Some t \<Longrightarrow> conc_step self s t"
| enter: "cpc s = C_idle \<Longrightarrow> p \<in> entry_points \<Longrightarrow> conc_step self s (s\<lparr>cpc := p\<rparr>)"
| spurious: "wpc s = W_waiting \<Longrightarrow> conc_step self s (s\<lparr>wpc := W_relock\<rparr>)"

inductive conc_reachable :: "(u32 \<Rightarrow> bool) \<Rightarrow> conc \<Rightarrow> bool" for self where
  start: "conc_reachable self conc_start"
| step: "conc_reachable self s \<Longrightarrow> conc_step self s t \<Longrightarrow> conc_reachable self t"

text \<open>Schedules, for concrete executions; no spurious wakeup occurs in them.\<close>

datatype move = Wk | Ct | Enter cpc

fun move_step :: "(u32 \<Rightarrow> bool) \<Rightarrow> move \<Rightarrow> conc \<Rightarrow> conc option" where
  "move_step self Wk s = worker self s"
| "move_step self Ct s = controller s"
| "move_step self (Enter p) s = (if cpc s = C_idle then Some (s\<lparr>cpc := p\<rparr>) else None)"

fun schedule :: "(u32 \<Rightarrow> bool) \<Rightarrow> move list \<Rightarrow> conc \<Rightarrow> conc option" where
  "schedule self [] s = Some s"
| "schedule self (m # ms) s = (case move_step self m s of None \<Rightarrow> None | Some t \<Rightarrow> schedule self ms t)"

text \<open>The worker on its own, for at most \<open>n\<close> statements.\<close>

fun worker_run :: "(u32 \<Rightarrow> bool) \<Rightarrow> nat \<Rightarrow> conc \<Rightarrow> conc" where
  "worker_run self 0 s = s"
| "worker_run self (Suc n) s = (case worker self s of None \<Rightarrow> s | Some t \<Rightarrow> worker_run self n t)"

lemma schedule_reachable:
  assumes "conc_reachable self s" "schedule self ms s = Some t" "\<forall>p. Enter p \<in> set ms \<longrightarrow> p \<in> entry_points"
  shows "conc_reachable self t"
  using assms
proof (induction ms arbitrary: s)
  case (Cons m ms)
  then obtain s' where s': "move_step self m s = Some s'" "schedule self ms s' = Some t"
    by (auto split: option.splits)
  have "conc_step self s s'"
    using s'(1) Cons.prems(3)
    by (cases m) (auto intro: conc_step.intros split: if_splits)
  with Cons s' show ?case by (auto intro: conc_reachable.step)
qed simp

section \<open>The invariant\<close>

fun worker_holds :: "wpc \<Rightarrow> bool" where
  "worker_holds W_susp = True"
| "worker_holds W_wait = True"
| "worker_holds W_read = True"
| "worker_holds W_unlock = True"
| "worker_holds W_cb_set = True"
| "worker_holds W_cb_unlock = True"
| "worker_holds p = False"

fun worker_gone :: "wpc \<Rightarrow> bool" where
  "worker_gone W_returned = True"
| "worker_gone W_cancelled = True"
| "worker_gone p = False"

fun controller_holds :: "cpc \<Rightarrow> bool" where
  "controller_holds (C_suspend_set b) = True"
| "controller_holds (C_suspend_unlock b) = True"
| "controller_holds (C_setdata_set d) = True"
| "controller_holds C_setdata_unlock = True"
| "controller_holds p = False"

text \<open>
  The controller's positions at which a cancellation has been requested, at which the thread is no
  longer active, and at which it is known to be suspended.
\<close>

fun cancelling :: "cpc \<Rightarrow> bool" where
  "cancelling C_stop_join = True"
| "cancelling C_stopped = True"
| "cancelling p = False"

fun deactivated :: "cpc \<Rightarrow> bool" where
  "deactivated C_stop_signal = True"
| "deactivated C_stop_cancel = True"
| "deactivated p = cancelling p"

fun suspended_at :: "cpc \<Rightarrow> bool" where
  "suspended_at C_stop_used = True"
| "suspended_at C_stop_actv = True"
| "suspended_at (C_suspend_unlock b) = True"
| "suspended_at p = deactivated p"

definition mtx_inv :: "conc \<Rightarrow> bool" where
  "mtx_inv s \<longleftrightarrow>
     (worker_holds (wpc s) \<longleftrightarrow> mtx s = Some Worker) \<and>
     (controller_holds (cpc s) \<longleftrightarrow> mtx s = Some Controller)"

definition life_inv :: "conc \<Rightarrow> bool" where
  "life_inv s \<longleftrightarrow>
     (actv s \<longleftrightarrow> \<not> deactivated (cpc s)) \<and>
     (cancel s \<longleftrightarrow> cancelling (cpc s)) \<and>
     (suspended_at (cpc s) \<longrightarrow> susp s) \<and>
     (wpc s = W_returned \<longrightarrow> \<not> actv s) \<and>
     (wpc s = W_cancelled \<longrightarrow> cancel s) \<and>
     (cpc s = C_stopped \<longrightarrow> worker_gone (wpc s))"

lemma worker_gone_iff: "worker_gone p \<longleftrightarrow> p = W_returned \<or> p = W_cancelled"
  by (cases p) simp_all

lemma cancelling_deactivated: "cancelling p \<Longrightarrow> deactivated p"
  by (cases p) simp_all

lemma inv_start: "mtx_inv conc_start \<and> life_inv conc_start"
  by (simp add: mtx_inv_def life_inv_def conc_start_def)

lemma worker_keeps:
  assumes "worker self s = Some t"
  shows "cpc t = cpc s \<and> actv t = actv s \<and> cancel t = cancel s \<and> data t = data s \<and> (susp s \<longrightarrow> susp t)"
  using assms by (cases "wpc s") (simp_all add: worker_def split: if_splits, auto)

lemma worker_gone_stays: "worker_gone (wpc s) \<Longrightarrow> worker self s = None"
  by (auto simp: worker_gone_iff worker_def)

lemma worker_mtx_inv:
  assumes "worker self s = Some t" "mtx_inv s"
  shows "mtx_inv t"
  using assms by (cases "wpc s") (auto simp: worker_def mtx_inv_def split: if_splits)

lemma worker_ends:
  assumes "worker self s = Some t"
  shows "(wpc t = W_returned \<longrightarrow> \<not> actv s) \<and> (wpc t = W_cancelled \<longrightarrow> cancel s)"
  using assms by (cases "wpc s") (auto simp: worker_def split: if_splits)

lemma worker_life_inv:
  assumes "worker self s = Some t" "life_inv s"
  shows "life_inv t"
proof -
  have "\<not> worker_gone (wpc s)" using assms(1) worker_gone_stays [of s self] by auto
  with assms(2) worker_keeps [OF assms(1)] worker_ends [OF assms(1)] show ?thesis
    by (simp add: life_inv_def)
qed

lemma signal_keeps [simp]:
  "actv (signal s) = actv s" "cancel (signal s) = cancel s" "susp (signal s) = susp s"
  "cpc (signal s) = cpc s" "mtx (signal s) = mtx s"
  "worker_holds (wpc (signal s)) = worker_holds (wpc s)"
  "wpc (signal s) = W_returned \<longleftrightarrow> wpc s = W_returned"
  "wpc (signal s) = W_cancelled \<longleftrightarrow> wpc s = W_cancelled"
  by (simp_all add: signal_def)

lemma controller_mtx_inv:
  assumes "controller s = Some t" "mtx_inv s"
  shows "mtx_inv t"
  using assms
  by (cases "cpc s") (auto simp: controller_def mtx_inv_def after_suspend_def split: if_splits)

lemma controller_life_inv:
  assumes "controller s = Some t" "life_inv s"
  shows "life_inv t"
  using assms
  by (cases "cpc s") (auto simp: controller_def life_inv_def after_suspend_def worker_gone_iff split: if_splits)

lemma enter_inv:
  assumes "cpc s = C_idle" "p \<in> entry_points" "mtx_inv s" "life_inv s"
  shows "mtx_inv (s\<lparr>cpc := p\<rparr>) \<and> life_inv (s\<lparr>cpc := p\<rparr>)"
  using assms by (auto simp: mtx_inv_def life_inv_def entry_points_def)

lemma conc_step_inv:
  assumes "conc_step self s t" "mtx_inv s \<and> life_inv s"
  shows "mtx_inv t \<and> life_inv t"
  using assms(1)
proof (cases rule: conc_step.cases)
  case worker
  with assms(2) show ?thesis by (auto intro: worker_mtx_inv worker_life_inv)
next
  case controller
  with assms(2) show ?thesis by (auto intro: controller_mtx_inv controller_life_inv)
next
  case (enter p)
  with assms(2) enter_inv show ?thesis by simp
next
  case spurious
  with assms(2) show ?thesis by (simp add: mtx_inv_def life_inv_def worker_gone_iff)
qed

lemma conc_reachable_inv: "conc_reachable self s \<Longrightarrow> mtx_inv s \<and> life_inv s"
proof (induction rule: conc_reachable.induct)
  case start
  show ?case by (rule inv_start)
next
  case (step s t)
  then show ?case using conc_step_inv [OF step.hyps(2)] by simp
qed

text \<open>What the worker has copied is the data word, until it gives up the mutex.\<close>

definition snap_inv :: "conc \<Rightarrow> bool" where
  "snap_inv s \<longleftrightarrow> (wpc s = W_unlock \<longrightarrow> data_ptr s = data s)"

lemma signal_snap [simp]: "snap_inv (signal s) \<longleftrightarrow> snap_inv s"
  by (simp add: snap_inv_def signal_def)

lemma worker_snap:
  assumes "worker self s = Some t"
  shows "snap_inv t"
  using assms by (cases "wpc s") (auto simp: worker_def snap_inv_def split: if_splits)

lemma controller_snap:
  assumes "controller s = Some t" "mtx_inv s" "snap_inv s"
  shows "snap_inv t"
proof (cases "\<exists>d. cpc s = C_setdata_set d")
  case True
  with assms(2) have "\<not> worker_holds (wpc s)" by (auto simp: mtx_inv_def)
  with True assms(1) show ?thesis
    by (auto simp: controller_def snap_inv_def)
next
  case False
  then have "wpc t = wpc s \<or> wpc t = W_relock" "data t = data s" "data_ptr t = data_ptr s"
    using assms(1) by (cases "cpc s"; auto simp: controller_def signal_def split: if_splits)+
  with assms(3) show ?thesis by (auto simp: snap_inv_def)
qed

lemma conc_reachable_snap: "conc_reachable self s \<Longrightarrow> snap_inv s"
proof (induction rule: conc_reachable.induct)
  case start
  show ?case by (simp add: snap_inv_def conc_start_def)
next
  case (step s t)
  have inv: "mtx_inv s" using conc_reachable_inv [OF step.hyps(1)] by simp
  from step.hyps(2) show ?case
  proof (cases rule: conc_step.cases)
    case worker
    then show ?thesis by (rule worker_snap)
  next
    case controller
    then show ?thesis using inv step.IH by (rule controller_snap)
  next
    case (enter p)
    with step.IH show ?thesis by (simp add: snap_inv_def)
  next
    case spurious
    then show ?thesis by (simp add: snap_inv_def)
  qed
qed

section \<open>The properties\<close>



text \<open>once \<open>irthread_stop\<close> has returned, nothing happens any more: the thread has ended, so that
  its record may be reused, and its callback is never called again.\<close>

theorem stopped_is_final:
  assumes "conc_reachable self s" "cpc s = C_stopped"
  shows "worker_gone (wpc s) \<and> \<not> actv s \<and> mtx s = None \<and> \<not> conc_step self s t"
proof -
  from conc_reachable_inv [OF assms(1)] assms(2)
  have inv: "worker_gone (wpc s)" "\<not> actv s" "mtx s \<noteq> Some Worker" "mtx s \<noteq> Some Controller"
    by (auto simp: life_inv_def mtx_inv_def worker_gone_iff)
  have "mtx s = None"
  proof (cases "mtx s")
    case (Some ow)
    with inv show ?thesis by (cases ow) auto
  qed
  moreover have "\<not> conc_step self s t"
    using inv(1) assms(2) worker_gone_stays [OF inv(1), of self]
    by (auto simp: controller_def worker_gone_iff elim!: conc_step.cases)
  ultimately show ?thesis using inv by simp
qed

text \<open>The worker waits; it is stopped, and leaves through the end of its loop.\<close>

lemma stopped_is_final_witness:
  "\<exists>s. schedule (\<lambda>d. False)
        ([Enter (C_suspend_check False), Ct, Ct, Ct, Ct] @ [Wk, Wk, Wk, Wk, Wk, Wk] @
         [Enter (C_suspend_check True), Ct, Ct, Ct, Ct, Ct] @ [Wk, Wk, Wk, Wk, Wk, Wk] @ [Ct])
        conc_start = Some s \<and> cpc s = C_stopped \<and> wpc s = W_returned \<and> \<not> conc_step (\<lambda>d. False) s s"
proof -
  let ?ms = "[Enter (C_suspend_check False), Ct, Ct, Ct, Ct] @ [Wk, Wk, Wk, Wk, Wk, Wk] @
    [Enter (C_suspend_check True), Ct, Ct, Ct, Ct, Ct] @ [Wk, Wk, Wk, Wk, Wk, Wk] @ [Ct]"
  obtain s where s: "schedule (\<lambda>d. False) ?ms conc_start = Some s" "cpc s = C_stopped" "wpc s = W_returned"
    by (simp add: conc_start_def worker_def controller_def after_suspend_def signal_def)
  have "conc_reachable (\<lambda>d. False) s"
    by (rule schedule_reachable [OF conc_reachable.start s(1)]) (auto simp: entry_points_def)
  with stopped_is_final [of "\<lambda>d. False" s s] s show ?thesis by auto
qed

definition committed :: "wpc \<Rightarrow> bool" where
  "committed p \<longleftrightarrow> p = W_disable \<or> p = W_lock \<or> p = W_susp \<or> p = W_wait \<or> p = W_waiting"

text \<open>C27: whether \<open>irthread_stop\<close> returns is decided by where the worker is when it is joined: it
  returns, without any help, unless the worker has passed its cancellation test and has not yet got
  through its wait; then the worker ends up in the wait with nobody left to wake it, the join
  never ends, and only a spurious wakeup could resolve that.\<close>

theorem stop_join_decided:
  assumes "conc_reachable self s" "cpc s = C_stop_join" "t = worker_run self 12 s"
  shows "if committed (wpc s) then wpc t = W_waiting \<and> worker self t = None \<and> controller t = None
         else worker_gone (wpc t) \<and> controller t = Some (t\<lparr>cpc := C_stopped\<rparr>)"
proof -
  from conc_reachable_inv [OF assms(1)] assms(2)
  have inv: "\<not> actv s" "cancel s" "susp s" "mtx s \<noteq> Some Controller"
      "worker_holds (wpc s) \<longleftrightarrow> mtx s = Some Worker"
    by (auto simp: life_inv_def mtx_inv_def)
  have mtx: "mtx s = (if worker_holds (wpc s) then Some Worker else None)"
    using inv(4,5) by (cases "mtx s") (auto intro: owner.exhaust)
  show ?thesis
    using inv(1-3) mtx assms(2)
    by (cases "wpc s")
      (simp_all add: assms(3) worker_def controller_def committed_def numeral_eq_Suc)
qed

text \<open>The execution in which the stop comes between the worker's cancellation test and its wait.\<close>

definition overtaken :: "move list" where
  "overtaken = [Wk, Wk, Wk, Enter (C_suspend_check True), Ct, Ct, Ct, Ct, Ct, Ct, Ct, Ct]"

lemma stop_join_decided_witness:
  "\<exists>s. schedule (\<lambda>d. False) overtaken conc_start = Some s \<and> cpc s = C_stop_join \<and>
     wpc (worker_run (\<lambda>d. False) 12 s) = W_waiting \<and>
     controller (worker_run (\<lambda>d. False) 12 s) = None"
proof -
  obtain s where s: "schedule (\<lambda>d. False) overtaken conc_start = Some s" "cpc s = C_stop_join"
      "wpc s = W_lock"
    by (simp add: overtaken_def conc_start_def worker_def controller_def after_suspend_def signal_def)
  have "conc_reachable (\<lambda>d. False) s"
    by (rule schedule_reachable [OF conc_reachable.start s(1)]) (auto simp: entry_points_def overtaken_def)
  with stop_join_decided [of "\<lambda>d. False" s "worker_run (\<lambda>d. False) 12 s"] s show ?thesis
    by (simp add: committed_def)
qed

text \<open>a thread that waits when \<open>irthread_resume\<close> signals it does run: five statements of its own
  later its callback has been called, with the data word of that moment.\<close>

theorem resume_wakes_waiting:
  assumes "conc_reachable self s" "cpc s = C_resume_signal" "wpc s = W_waiting"
  shows "\<exists>t. controller s = Some t \<and> calls (worker_run self 5 t) = data s # calls s"
proof -
  from conc_reachable_inv [OF assms(1)] assms(2,3)
  have inv: "actv s" "mtx s \<noteq> Some Controller" "mtx s \<noteq> Some Worker"
    by (auto simp: life_inv_def mtx_inv_def)
  have mtx: "mtx s = None"
    using inv(2,3) by (cases "mtx s") (auto intro: owner.exhaust)
  show ?thesis
    using assms(2,3) mtx inv(1)
    by (simp add: controller_def signal_def worker_def numeral_eq_Suc)
qed

lemma resume_wakes_waiting_witness:
  "\<exists>s t. schedule (\<lambda>d. False)
       ([Enter (C_suspend_check False), Ct, Ct, Ct, Ct] @ [Wk, Wk, Wk, Wk, Wk, Wk] @
        [Enter C_resume_check, Ct, Ct]) conc_start = Some s \<and>
     controller s = Some t \<and> calls (worker_run (\<lambda>d. False) 5 t) = [0]"
proof -
  let ?ms = "[Enter (C_suspend_check False), Ct, Ct, Ct, Ct] @ [Wk, Wk, Wk, Wk, Wk, Wk] @
    [Enter C_resume_check, Ct, Ct]"
  obtain s where s: "schedule (\<lambda>d. False) ?ms conc_start = Some s" "cpc s = C_resume_signal"
      "wpc s = W_waiting" "data s = 0" "calls s = []"
    by (simp add: conc_start_def worker_def controller_def after_suspend_def)
  have "conc_reachable (\<lambda>d. False) s"
    by (rule schedule_reachable [OF conc_reachable.start s(1)]) (auto simp: entry_points_def)
  from resume_wakes_waiting [OF this s(2,3)] s show ?thesis by auto
qed

text \<open>because \<open>irthread_resume\<close> clears the flag and signals without the mutex, a resume can be lost:
  if it comes between the worker's test of the flag and its wait, the thread stays asleep although
  its flag is cleared, and every further resume returns at once without a signal.\<close>

theorem resume_can_be_lost:
  "\<exists>s. conc_reachable self s \<and> \<not> susp s \<and> actv s \<and> cpc s = C_idle \<and> wpc s = W_waiting \<and>
     worker self s = None \<and> controller (s\<lparr>cpc := C_resume_check\<rparr>) = Some s"
proof -
  let ?ms = "[Enter (C_suspend_check False), Ct, Ct, Ct, Ct] @ [Wk, Wk, Wk, Wk, Wk] @
    [Enter C_resume_check, Ct, Ct, Ct] @ [Wk]"
  obtain s where s: "schedule self ?ms conc_start = Some s" "\<not> susp s" "actv s" "cpc s = C_idle"
      "wpc s = W_waiting"
    by (simp add: conc_start_def worker_def controller_def after_suspend_def signal_def)
  have "conc_reachable self s"
    by (rule schedule_reachable [OF conc_reachable.start s(1)]) (auto simp: entry_points_def)
  with s show ?thesis
    by (intro exI [of _ s]) (simp add: worker_def controller_def)
qed

text \<open>the callback that suspends its own thread when there is no alarm can overtake the controller:
  the new state is published and the thread resumed, and after that the thread puts itself
  to sleep; the callback has never seen the new state.\<close>

theorem self_suspend_overtakes_alarm:
  assumes "self 0" "d \<noteq> 0"
  shows "\<exists>s. conc_reachable self s \<and> susp s \<and> cpc s = C_idle \<and> wpc s = W_waiting \<and>
           data s = d \<and> calls s = [0] \<and> worker self s = None"
proof -
  let ?ms = "[Wk, Wk, Wk, Wk, Wk, Wk, Wk, Wk, Wk, Wk] @
    [Enter (C_setdata_lock d), Ct, Ct, Ct, Enter C_resume_check, Ct] @
    [Wk, Wk, Wk] @ [Wk, Wk, Wk, Wk, Wk, Wk, Wk]"
  obtain s where s: "schedule self ?ms conc_start = Some s" "susp s" "cpc s = C_idle" "wpc s = W_waiting"
      "data s = d" "calls s = [0]"
    using assms(1) by (simp add: conc_start_def worker_def controller_def)
  have "conc_reachable self s"
    by (rule schedule_reachable [OF conc_reachable.start s(1)]) (auto simp: entry_points_def)
  with s show ?thesis
    by (intro exI [of _ s]) (simp add: worker_def)
qed

lemma self_suspend_overtakes_alarm_witness:
  "\<exists>s. conc_reachable (\<lambda>d. d = 0) s \<and> susp s \<and> data s = 1 \<and> calls s = [0]"
  using self_suspend_overtakes_alarm [of "\<lambda>d. d = 0" 1] by auto

text \<open>the wait is not in a loop: a spurious wakeup makes a suspended thread call its callback once,
  the flag still being set.\<close>

theorem spurious_wakeup_runs_suspended:
  assumes "conc_reachable self s" "wpc s = W_waiting" "cpc s = C_idle"
  shows "\<exists>t. conc_step self s t \<and> susp t = susp s \<and> calls (worker_run self 5 t) = data s # calls s"
proof -
  from conc_reachable_inv [OF assms(1)] assms(2,3)
  have inv: "actv s" "mtx s \<noteq> Some Controller" "mtx s \<noteq> Some Worker"
    by (auto simp: life_inv_def mtx_inv_def)
  have "mtx s = None"
    using inv(2,3) by (cases "mtx s") (auto intro: owner.exhaust)
  with inv(1) assms(2) show ?thesis
    by (intro exI [of _ "s\<lparr>wpc := W_relock\<rparr>"])
      (simp add: conc_step.spurious worker_def numeral_eq_Suc)
qed

lemma spurious_wakeup_runs_suspended_witness:
  "\<exists>s t. schedule (\<lambda>d. False) ([Enter (C_suspend_check False), Ct, Ct, Ct, Ct] @
       [Wk, Wk, Wk, Wk, Wk, Wk]) conc_start = Some s \<and> susp s \<and>
     conc_step (\<lambda>d. False) s t \<and> susp t \<and> calls (worker_run (\<lambda>d. False) 5 t) = [0]"
proof -
  let ?ms = "[Enter (C_suspend_check False), Ct, Ct, Ct, Ct] @ [Wk, Wk, Wk, Wk, Wk, Wk]"
  obtain s where s: "schedule (\<lambda>d. False) ?ms conc_start = Some s" "susp s" "cpc s = C_idle"
      "wpc s = W_waiting" "data s = 0" "calls s = []"
    by (simp add: conc_start_def worker_def controller_def after_suspend_def)
  have "conc_reachable (\<lambda>d. False) s"
    by (rule schedule_reachable [OF conc_reachable.start s(1)]) (auto simp: entry_points_def)
  from spurious_wakeup_runs_suspended [OF this s(4,3)] s show ?thesis by auto
qed

end
