(* ===== verification/Irpio.thy ===== *)
theory Irpio
  imports CLib
begin

unbundle bit_operations_syntax

text \<open>
  The GPIO and PWM access of the daemon (\<open>iralarm/irpio.c\<close>, without \<open>USE_WIPI\<close>, and the pin table of
  \<open>config.h\<close>).

  \<^item> Data: the translation tables, the static variables, and the three register blocks that
    \<open>/dev/mem\<close> maps, each unmapped (\<open>None\<close>) until \<open>__init_gpio\<close> succeeds.  Every store to a register
    and every delay is also recorded in \<open>io_log\<close>, in order, since the write-only set and clear
    registers act by being written.
  \<^item> Operations: board detection, \<open>__init_gpio\<close>, pin and PWM set-up, digital and PWM writes, the
    interrupt plumbing, and the exported \<open>irpio_*\<close> functions.

  What the kernel and the hardware answer is the environment \<open>irpio_env\<close>.
\<close>

section \<open>Tables\<close>

abbreviation (input) INPUT :: nat where "INPUT \<equiv> 0"
abbreviation (input) OUTPUT :: nat where "OUTPUT \<equiv> 1"
abbreviation (input) PWM_OUTPUT :: nat where "PWM_OUTPUT \<equiv> 2"
abbreviation (input) PWM_MODE_MS :: nat where "PWM_MODE_MS \<equiv> 0"
abbreviation (input) PWM_MODE_BAL :: nat where "PWM_MODE_BAL \<equiv> 1"

abbreviation (input) FSEL_ALT0 :: u8 where "FSEL_ALT0 \<equiv> 4"
abbreviation (input) FSEL_ALT5 :: u8 where "FSEL_ALT5 \<equiv> 2"

abbreviation (input) PWM_CONTROL :: nat where "PWM_CONTROL \<equiv> 0"
abbreviation (input) PWMCLK_CNTL :: nat where "PWMCLK_CNTL \<equiv> 40"
abbreviation (input) PWMCLK_DIV :: nat where "PWMCLK_DIV \<equiv> 41"
abbreviation (input) PWM0_RANGE :: nat where "PWM0_RANGE \<equiv> 4"
abbreviation (input) PWM1_RANGE :: nat where "PWM1_RANGE \<equiv> 8"
abbreviation (input) BCM_PASSWORD :: u32 where "BCM_PASSWORD \<equiv> 0x5A000000"
abbreviation (input) PI_GPIO_MASK :: u32 where "PI_GPIO_MASK \<equiv> 0xFFFFFFC0"

definition pinToGpioR1 :: "int list" where
  "pinToGpioR1 =
     [17, 18, 21, 22, 23, 24, 25, 4,
      0, 1,
      8, 7,
      10, 9, 11,
      14, 15] @ replicate 47 (-1)"

definition pinToGpioR2 :: "int list" where
  "pinToGpioR2 =
     [17, 18, 27, 22, 23, 24, 25, 4,
      2, 3,
      8, 7,
      10, 9, 11,
      14, 15,
      28, 29, 30, 31,
      5, 6, 13, 19, 26,
      12, 16, 20, 21,
      0, 1] @ replicate 32 (-1)"

text \<open>
  A table of \<open>int\<close> seen through a \<open>const uint8_t *\<close>: the source casts the pointer, so an index
  counts the bytes of the little-endian integers.
\<close>

definition int_bytes :: "int \<Rightarrow> u8 list" where
  "int_bytes n = map (\<lambda>k. ucast (drop_bit (8 * k) (of_int n :: u32))) [0, 1, 2, 3]"

definition byte_view :: "int list \<Rightarrow> u8 list" where
  "byte_view ns = concat (map int_bytes ns)"

definition gpioToGPFSEL :: "nat list" where
  "gpioToGPFSEL = concat (map (replicate 10) [0, 1, 2, 3, 4, 5])"

definition gpioToShift :: "nat list" where
  "gpioToShift = concat (replicate 5 [0, 3, 6, 9, 12, 15, 18, 21, 24, 27])"

definition gpioToPwmALT :: "u8 list" where
  "gpioToPwmALT =
     [0, 0, 0, 0, 0, 0, 0, 0,
      0, 0, 0, 0, FSEL_ALT0, FSEL_ALT0, 0, 0,
      0, 0, FSEL_ALT5, FSEL_ALT5, 0, 0, 0, 0,
      0, 0, 0, 0, 0, 0, 0, 0,
      0, 0, 0, 0, 0, 0, 0, 0,
      FSEL_ALT0, FSEL_ALT0, 0, 0, 0, FSEL_ALT0, 0, 0,
      0, 0, 0, 0, 0, 0, 0, 0,
      0, 0, 0, 0, 0, 0, 0, 0]"

definition gpioToPwmPort :: "nat list" where
  "gpioToPwmPort =
     [0, 0, 0, 0, 0, 0, 0, 0,
      0, 0, 0, 0, 5, 9, 0, 0,
      0, 0, 5, 9, 0, 0, 0, 0,
      0, 0, 0, 0, 0, 0, 0, 0,
      0, 0, 0, 0, 0, 0, 0, 0,
      5, 9, 0, 0, 0, 9, 0, 0,
      0, 0, 0, 0, 0, 0, 0, 0,
      0, 0, 0, 0, 0, 0, 0, 0]"

definition gpioToGPSET :: "nat list" where
  "gpioToGPSET = replicate 32 7 @ replicate 32 8"

definition gpioToGPCLR :: "nat list" where
  "gpioToGPCLR = replicate 32 10 @ replicate 32 11"

text \<open>The pins of the alarm, in the order of \<open>enum pinout\<close>.\<close>

record irpio_pin =
  pin_name :: string
  pin_pin :: u32
  pin_mode :: nat
  pin_enabled :: bool

datatype pinout = IRLED | IRECV | SPEKR | ALARM | STATS

fun pipi :: "pinout \<Rightarrow> irpio_pin" where
  "pipi IRLED = \<lparr>pin_name = ''IR-LED'', pin_pin = 1, pin_mode = PWM_OUTPUT, pin_enabled = True\<rparr>"
| "pipi IRECV = \<lparr>pin_name = ''IR-RECIEVER'', pin_pin = 3, pin_mode = INPUT, pin_enabled = True\<rparr>"
| "pipi SPEKR = \<lparr>pin_name = ''SPEAKER'', pin_pin = 2, pin_mode = OUTPUT, pin_enabled = True\<rparr>"
| "pipi ALARM = \<lparr>pin_name = ''ALARM-LED'', pin_pin = 0, pin_mode = OUTPUT, pin_enabled = True\<rparr>"
| "pipi STATS = \<lparr>pin_name = ''STATUS-LED'', pin_pin = 4, pin_mode = OUTPUT, pin_enabled = True\<rparr>"

definition all_pins :: "pinout list" where
  "all_pins = [IRLED, IRECV, SPEKR, ALARM, STATS]"

section \<open>State and environment\<close>

datatype bank = GPIO | PWM | CLK

datatype io_event =
    RegWrite bank nat u32
  | Usleep u32
  | Perror string
  | Syslog string

type_synonym regs = "nat \<Rightarrow> u32"

text \<open>The only function that the program registers for interrupts.\<close>

datatype isr_function = Ir_flank

record irpio =
  r_gpio :: "regs option"
  r_pwm :: "regs option"
  r_clk :: "regs option"
  pinToGpio :: "u8 list option"
  piModel2 :: bool
  boardRev :: int
  peri_base :: u32
  pwm_range :: u32
  sysFds :: "int list"
  isrFunctions :: "isr_function option list"
  pinPass :: int
  handlers :: "int list" \<comment> \<open>the pins that a running \<open>interruptHandler\<close> serves\<close>
  io_log :: "io_event list"

definition irpio_static :: irpio where
  "irpio_static =
     \<lparr>r_gpio = None, r_pwm = None, r_clk = None, pinToGpio = None, piModel2 = False,
      boardRev = -1, peri_base = 0x20000000, pwm_range = 1024,
      sysFds = replicate 64 (-1), isrFunctions = replicate 64 None, pinPass = -1, handlers = [],
      io_log = []\<rparr>"

record irpio_env =
  cpuinfo :: "string option"       \<comment> \<open>\<open>/proc/cpuinfo\<close>, if it can be opened\<close>
  stack_line :: string             \<comment> \<open>what the uninitialised line buffer holds\<close>
  geteuid :: int
  open_mem :: int                  \<comment> \<open>the result of opening \<open>/dev/mem\<close>\<close>
  mmap_at :: "u32 \<Rightarrow> regs option"  \<comment> \<open>the registers mapped at a physical address\<close>
  errno_now :: int
  clk_reads :: "nat \<Rightarrow> u32"        \<comment> \<open>the clock control register, read after read\<close>
  open_value :: int                \<comment> \<open>the result of opening the pin's value file\<close>
  isr_thread :: bool               \<comment> \<open>whether the handler's thread can be created\<close>

section \<open>Registers\<close>

fun regs_of :: "bank \<Rightarrow> irpio \<Rightarrow> regs option" where
  "regs_of GPIO st = r_gpio st"
| "regs_of PWM st = r_pwm st"
| "regs_of CLK st = r_clk st"

fun regs_put :: "bank \<Rightarrow> regs \<Rightarrow> irpio \<Rightarrow> irpio" where
  "regs_put GPIO f st = st\<lparr>r_gpio := Some f\<rparr>"
| "regs_put PWM f st = st\<lparr>r_pwm := Some f\<rparr>"
| "regs_put CLK f st = st\<lparr>r_clk := Some f\<rparr>"

definition log_io :: "io_event \<Rightarrow> irpio \<Rightarrow> irpio" where
  "log_io e st = st\<lparr>io_log := io_log st @ [e]\<rparr>"

definition rd :: "bank \<Rightarrow> nat \<Rightarrow> irpio \<Rightarrow> u32 c_result" where
  "rd b off st = (case regs_of b st of None \<Rightarrow> Inl NullDeref | Some f \<Rightarrow> Inr (f off))"

definition wr :: "bank \<Rightarrow> nat \<Rightarrow> u32 \<Rightarrow> irpio \<Rightarrow> irpio c_result" where
  "wr b off v st =
     (case regs_of b st of
        None \<Rightarrow> Inl NullDeref
      | Some f \<Rightarrow> Inr (log_io (RegWrite b off v) (regs_put b (f(off := v)) st)))"

definition usleep :: "u32 \<Rightarrow> irpio \<Rightarrow> irpio c_result" where
  "usleep us st = Inr (log_io (Usleep us) st)"

section \<open>Board detection\<close>

text \<open>\<open>while (fgets (line, 120, f)) if (strncmp (line, key, 8) == 0) break;\<close>\<close>

definition starts_with :: "string \<Rightarrow> string \<Rightarrow> bool" where
  "starts_with line key \<longleftrightarrow> prefix key (cstr line)"

function find_line :: "string \<Rightarrow> string \<Rightarrow> string \<Rightarrow> string" where
  "find_line key line txt =
     (case fgets 120 txt of
        None \<Rightarrow> line
      | Some (l, r) \<Rightarrow> if starts_with l key then l else find_line key l r)"
  by pat_completeness auto
termination
  by (relation "measure (\<lambda>(k, l, txt). length txt)")
    (auto dest: fgets_shorter [where n = 118, simplified])

declare find_line.simps [simp del]

definition chomp :: "string \<Rightarrow> string" where
  "chomp line = rev (dropWhile (\<lambda>c. c = NL \<or> c = CR) (rev line))"

text \<open>
  The end of \<open>piBoardRev\<close>, from the line that the search for \<open>Revision\<close> leaves: the error codes,
  or the board revision by the last four characters.
\<close>

definition parse_revision :: "string \<Rightarrow> int" where
  "parse_revision line =
     (if \<not> starts_with line ''Revision'' then -4
      else let c = dropWhile (\<lambda>c. \<not> c_isdigit c) (chomp (cstr line))
           in if c = [] then -5
              else if length c < 4 then -6
              else let c4 = drop (length c - 4) c
                   in if c4 = ''0002'' \<or> c4 = ''0003'' then 1 else 2)"

definition piBoardRev :: "irpio_env \<Rightarrow> irpio \<Rightarrow> int \<times> irpio" where
  "piBoardRev env st =
     (if boardRev st \<noteq> -1 then (boardRev st, st)
      else case cpuinfo env of
        None \<Rightarrow> (-1, st)
      | Some txt \<Rightarrow>
          let hw = find_line ''Hardware'' (stack_line env) txt
          in if \<not> starts_with hw ''Hardware'' then (-2, st)
          else if strstr (cstr hw) ''BCM2709'' = None \<and> strstr (cstr hw) ''BCM2708'' = None
          then (-3, st)
          else
            let st1 = (if strstr (cstr hw) ''BCM2709'' \<noteq> None then st\<lparr>piModel2 := True\<rparr> else st);
                r = parse_revision (find_line ''Revision'' hw txt)
            in (r, if 0 < r then st1\<lparr>boardRev := r\<rparr> else st1))"

definition init_gpio :: "irpio_env \<Rightarrow> irpio \<Rightarrow> int \<times> irpio" where
  "init_gpio env st =
     (case piBoardRev env st of (brev, st1) \<Rightarrow>
        if geteuid env \<noteq> 0 then (-1, st1)
        else
          let st2 = (if brev = 1 then st1\<lparr>pinToGpio := Some (byte_view pinToGpioR1)\<rparr>
                     else (if piModel2 st1 then st1\<lparr>peri_base := 0x3F000000\<rparr> else st1)
                            \<lparr>pinToGpio := Some (byte_view pinToGpioR2)\<rparr>)
          in if open_mem env < 0 then (errno_now env, st2)
          else case mmap_at env (peri_base st2 + 0x00200000) of
            None \<Rightarrow> (errno_now env, st2)
          | Some g \<Rightarrow>
              (case mmap_at env (peri_base st2 + 0x0020C000) of
                 None \<Rightarrow> (errno_now env, st2\<lparr>r_gpio := Some g\<rparr>)
               | Some p \<Rightarrow>
                   (case mmap_at env (peri_base st2 + 0x00101000) of
                      None \<Rightarrow> (errno_now env, st2\<lparr>r_gpio := Some g, r_pwm := Some p\<rparr>)
                    | Some c \<Rightarrow> (0, st2\<lparr>r_gpio := Some g, r_pwm := Some p, r_clk := Some c\<rparr>))))"

section \<open>PWM\<close>

definition pwmSetMode :: "nat \<Rightarrow> irpio \<Rightarrow> irpio c_result" where
  "pwmSetMode mode =
     (if mode = PWM_MODE_MS then wr PWM PWM_CONTROL (0x0001 OR 0x0100 OR 0x0080 OR 0x8000)
      else wr PWM PWM_CONTROL (0x0001 OR 0x0100))"

text \<open>The wait for the clock: the number of the read that finds it idle, if there is one.\<close>

partial_function (option) clk_wait :: "(nat \<Rightarrow> u32) \<Rightarrow> nat \<Rightarrow> nat option" where
  "clk_wait reads k = (if reads k AND 0x80 \<noteq> 0 then clk_wait reads (Suc k) else Some k)"

definition wait_not_busy :: "irpio_env \<Rightarrow> irpio \<Rightarrow> irpio c_result" where
  "wait_not_busy env st =
     (case regs_of CLK st of
        None \<Rightarrow> Inl NullDeref
      | Some _ \<Rightarrow>
          (case clk_wait (clk_reads env) 0 of
             None \<Rightarrow> Inl Hangs
           | Some k \<Rightarrow> Inr (st\<lparr>io_log := io_log st @ replicate k (Usleep 1)\<rparr>)))"

definition pwmSetClock :: "irpio_env \<Rightarrow> u32 \<Rightarrow> irpio \<Rightarrow> irpio c_result" where
  "pwmSetClock env divisor0 st =
     (let divisor = divisor0 AND 4095
      in sbind (rd PWM PWM_CONTROL st) (\<lambda>pwm_control.
         sbind (wr PWM PWM_CONTROL 0 st) (\<lambda>st.
         sbind (wr CLK PWMCLK_CNTL (BCM_PASSWORD OR 0x01) st) (\<lambda>st.
         sbind (usleep 110 st) (\<lambda>st.
         sbind (wait_not_busy env st) (\<lambda>st.
         sbind (wr CLK PWMCLK_DIV (BCM_PASSWORD OR push_bit 12 divisor) st) (\<lambda>st.
         sbind (wr CLK PWMCLK_CNTL (BCM_PASSWORD OR 0x11) st) (\<lambda>st.
         wr PWM PWM_CONTROL pwm_control st))))))))"

definition pwmSetRange :: "u32 \<Rightarrow> irpio \<Rightarrow> irpio c_result" where
  "pwmSetRange rng st =
     sbind (wr PWM PWM0_RANGE rng st) (\<lambda>st.
     sbind (usleep 10 st) (\<lambda>st.
     sbind (wr PWM PWM1_RANGE rng st) (\<lambda>st.
     usleep 10 st)))"

section \<open>Pins\<close>

definition on_board :: "u32 \<Rightarrow> bool" where
  "on_board pin \<longleftrightarrow> pin AND PI_GPIO_MASK = 0"

definition gpio_index :: "irpio \<Rightarrow> u32 \<Rightarrow> nat c_result" where
  "gpio_index st pin =
     (case pinToGpio st of
        None \<Rightarrow> Inl NullDeref
      | Some tbl \<Rightarrow> sbind (aget tbl (unat pin)) (\<lambda>b. Inr (unat b)))"

text \<open>The read-modify-write of a pin's three function bits.\<close>

definition set_fsel :: "nat \<Rightarrow> nat \<Rightarrow> u32 \<Rightarrow> irpio \<Rightarrow> irpio c_result" where
  "set_fsel fSel shift code st =
     sbind (rd GPIO fSel st)
       (\<lambda>v. wr GPIO fSel ((v AND NOT (push_bit shift 7)) OR push_bit shift code) st)"

definition pinMode :: "irpio_env \<Rightarrow> u32 \<Rightarrow> nat \<Rightarrow> irpio \<Rightarrow> irpio c_result" where
  "pinMode env pin0 mode st =
     (if on_board pin0 then
        sbind (gpio_index st pin0) (\<lambda>pin.
        sbind (aget gpioToGPFSEL pin) (\<lambda>fSel.
        sbind (aget gpioToShift pin) (\<lambda>shift.
          if mode = INPUT then
            sbind (rd GPIO fSel st) (\<lambda>v. wr GPIO fSel (v AND NOT (push_bit shift 7)) st)
          else if mode = OUTPUT then set_fsel fSel shift 1 st
          else if mode = PWM_OUTPUT then
            sbind (aget gpioToPwmALT pin) (\<lambda>alt.
              if alt = 0 then Inr st
              else sbind (set_fsel fSel shift (ucast alt) st) (\<lambda>st.
                   sbind (usleep 110 st) (\<lambda>st.
                   sbind (pwmSetMode PWM_MODE_BAL st) (\<lambda>st.
                   sbind (pwmSetRange 1024 st) (\<lambda>st.
                   pwmSetClock env 32 st)))))
          else Inr st)))
      else Inr st)"

definition digitalWrite :: "u32 \<Rightarrow> u32 \<Rightarrow> irpio \<Rightarrow> irpio c_result" where
  "digitalWrite pin val st =
     (if on_board pin then
        if val = 0 then
          sbind (aget gpioToGPCLR (unat pin)) (\<lambda>r. wr GPIO r (push_bit (unat (pin AND 31)) 1) st)
        else
          sbind (aget gpioToGPSET (unat pin)) (\<lambda>r. wr GPIO r (push_bit (unat (pin AND 31)) 1) st)
      else Inr st)"

definition pwmWrite :: "u32 \<Rightarrow> u32 \<Rightarrow> irpio \<Rightarrow> irpio c_result" where
  "pwmWrite pin val st =
     (if on_board pin then sbind (aget gpioToPwmPort (unat pin)) (\<lambda>r. wr PWM r val st) else Inr st)"

section \<open>Interrupts\<close>

text \<open>
  \<open>waitForInterrupt\<close> with the result of \<open>poll\<close>; one round of \<open>interruptHandler\<close> calls the
  registered function exactly when that result is positive.
\<close>

definition waitForInterrupt :: "irpio \<Rightarrow> nat \<Rightarrow> int \<Rightarrow> int c_result" where
  "waitForInterrupt st pin polled =
     sbind (aget (sysFds st) pin) (\<lambda>fd. if fd = -1 then Inr (-2) else Inr polled)"

definition interrupt_round :: "irpio \<Rightarrow> nat \<Rightarrow> int \<Rightarrow> isr_function option c_result" where
  "interrupt_round st pin polled =
     sbind (waitForInterrupt st pin polled)
       (\<lambda>x. if x > 0 then
              sbind (aget (isrFunctions st) pin)
                (\<lambda>f. case f of None \<Rightarrow> Inl NullDeref | Some g \<Rightarrow> Inr (Some g))
            else Inr None)"

text \<open>The start of \<open>interruptHandler\<close>: it takes its pin from \<open>pinPass\<close> and resets that.\<close>

definition interruptHandler_start :: "irpio \<Rightarrow> irpio" where
  "interruptHandler_start st = st\<lparr>handlers := handlers st @ [pinPass st], pinPass := -1\<rparr>"

text \<open>
  \<open>__isr_init\<close> waits until the new thread has reset \<open>pinPass\<close>; the result of the thread's creation
  is not looked at, so that it waits forever if there is no thread.
\<close>

definition isr_init :: "irpio_env \<Rightarrow> nat \<Rightarrow> isr_function \<Rightarrow> irpio \<Rightarrow> (int \<times> irpio) c_result" where
  "isr_init env pin f st =
     sbind (aget (sysFds st) pin)
       (\<lambda>fd. let st1 = (if fd = -1 then st\<lparr>sysFds := (sysFds st)[pin := open_value env]\<rparr> else st)
             in if fd = -1 \<and> open_value env < 0 then Inr (-1, st1)
                else sbind (aset (isrFunctions st1) pin (Some f))
                  (\<lambda>fs. let st2 = st1\<lparr>isrFunctions := fs, pinPass := int pin\<rparr>
                        in if isr_thread env then Inr (0, interruptHandler_start st2)
                           else Inl Hangs))"

section \<open>The exported functions\<close>

definition irpio_getpin :: "pinout \<Rightarrow> u32" where
  "irpio_getpin p = pin_pin (pipi p)"

text \<open>The entry points for single pins pass their arguments on.\<close>

definition irpio_pwmSetMode :: "nat \<Rightarrow> irpio \<Rightarrow> irpio c_result" where
  "irpio_pwmSetMode mode = pwmSetMode mode"

definition irpio_pwmSetClock :: "irpio_env \<Rightarrow> u32 \<Rightarrow> irpio \<Rightarrow> irpio c_result" where
  "irpio_pwmSetClock env divisor = pwmSetClock env divisor"

definition irpio_pwmSetRange :: "u32 \<Rightarrow> irpio \<Rightarrow> irpio c_result" where
  "irpio_pwmSetRange r = pwmSetRange r"

definition irpio_digitalWrite :: "u32 \<Rightarrow> u32 \<Rightarrow> irpio \<Rightarrow> irpio c_result" where
  "irpio_digitalWrite pin value = digitalWrite pin value"

definition irpio_pwmWrite :: "u32 \<Rightarrow> u32 \<Rightarrow> irpio \<Rightarrow> irpio c_result" where
  "irpio_pwmWrite pin value = pwmWrite pin value"

definition irpio_isr :: "irpio_env \<Rightarrow> nat \<Rightarrow> isr_function \<Rightarrow> irpio \<Rightarrow> (int \<times> irpio) c_result" where
  "irpio_isr env pin f = isr_init env pin f"

definition irpio_setvalue :: "pinout \<Rightarrow> u32 \<Rightarrow> irpio \<Rightarrow> irpio c_result" where
  "irpio_setvalue p val st =
     (if pin_enabled (pipi p) then
        if pin_mode (pipi p) = OUTPUT then digitalWrite (pin_pin (pipi p)) val st
        else if pin_mode (pipi p) = PWM_OUTPUT then pwmWrite (pin_pin (pipi p)) val st
        else Inr st
      else Inr st)"

definition irpio_init :: "irpio_env \<Rightarrow> irpio \<Rightarrow> irpio c_result" where
  "irpio_init env st =
     (case init_gpio env st of (ret, st1) \<Rightarrow>
        if ret \<noteq> 0 then Inr (log_io (Perror ''init_gpio'') st1)
        else sbind (pwmSetMode PWM_MODE_BAL st1)
               (sfoldM (\<lambda>p st. if pin_enabled (pipi p)
                               then sbind (pinMode env (pin_pin (pipi p)) (pin_mode (pipi p)) st)
                                      (irpio_setvalue p 0)
                               else Inr st) all_pins))"

definition irpio_lowall :: "irpio \<Rightarrow> irpio c_result" where
  "irpio_lowall =
     sfoldM (\<lambda>p st. if pin_enabled (pipi p) then irpio_setvalue p 0 st else Inr st) all_pins"

definition irpio_setpwm :: "irpio_env \<Rightarrow> u32 \<Rightarrow> u32 \<Rightarrow> irpio \<Rightarrow> irpio c_result" where
  "irpio_setpwm env clock rng st =
     sbind (pwmSetClock env clock (st\<lparr>pwm_range := rng\<rparr>)) (pwmSetRange rng)"

definition irpio_selftest :: "irpio \<Rightarrow> irpio c_result" where
  "irpio_selftest =
     sfoldM (\<lambda>p st.
       if pin_enabled (pipi p) then
         sbind (irpio_setvalue p (if pin_mode (pipi p) = PWM_OUTPUT then pwm_range st - 1 else 1)
                  (log_io (Syslog (pin_name (pipi p))) st)) (\<lambda>st.
         sbind (usleep 10000 st) (irpio_setvalue p 0))
       else Inr st) all_pins"

section \<open>Tables and pin numbers\<close>

lemma and_not_mask_eq_0: "w AND NOT (mask n) = 0 \<longleftrightarrow> unat w < 2 ^ n" if "n < LENGTH('w)" for w :: "'w::len word"
proof -
  have "w AND NOT (mask n) = 0 \<longleftrightarrow> take_bit n w = w"
    by (auto simp: bit_eq_iff bit_simps)
  also have "\<dots> \<longleftrightarrow> unat (take_bit n w) = unat w" by (simp only: word_unat_eq_iff)
  also have "\<dots> \<longleftrightarrow> take_bit n (unat w) = unat w" by (simp add: unsigned_take_bit_eq)
  also have "\<dots> \<longleftrightarrow> unat w < 2 ^ n" by (simp add: take_bit_nat_eq_self_iff)
  finally show ?thesis .
qed

lemma on_board_iff: "on_board pin \<longleftrightarrow> unat pin < 64"
proof -
  have "PI_GPIO_MASK = NOT (mask 6)" by (simp add: mask_eq_exp_minus_1)
  then show ?thesis unfolding on_board_def using and_not_mask_eq_0 [of 6 pin] by simp
qed

lemma gpioToGPFSEL_map: "gpioToGPFSEL = map (\<lambda>g. g div 10) [0..<60]"
  by code_simp
lemma gpioToShift_map: "gpioToShift = map (\<lambda>g. 3 * (g mod 10)) [0..<50]"
  by code_simp

lemma bytes_R1: "list_all (\<lambda>b. unat b < 32) (take 64 (byte_view pinToGpioR1))"
  by code_simp
lemma bytes_R2: "list_all (\<lambda>b. unat b < 32) (take 64 (byte_view pinToGpioR2))"
  by code_simp

lemma length_byte_view [simp]: "length (byte_view ns) = 4 * length ns"
  by (induction ns) (simp_all add: byte_view_def int_bytes_def)

lemma gpio_index_on_board:
  assumes "pinToGpio st = Some (byte_view pinToGpioR1) \<or> pinToGpio st = Some (byte_view pinToGpioR2)"
    and "on_board pin"
  shows "\<exists>g. gpio_index st pin = Inr g \<and> g < 32"
proof -
  have l: "length pinToGpioR1 = 64 \<or> True" "length pinToGpioR1 \<ge> 16" "length pinToGpioR2 \<ge> 16"
    by (simp_all add: pinToGpioR1_def pinToGpioR2_def)
  have p: "unat pin < 64" using assms(2) by (simp add: on_board_iff)
  with l bytes_R1 bytes_R2
  have "unat (byte_view pinToGpioR1 ! unat pin) < 32" "unat (byte_view pinToGpioR2 ! unat pin) < 32"
    by (simp_all add: list_all_length)
  with assms(1) p l show ?thesis by (auto simp: gpio_index_def)
qed

section \<open>The wait for the clock\<close>

lemma clk_wait_Some:
  assumes "clk_wait reads k = Some n"
  shows "k \<le> n \<and> reads n AND 0x80 = 0 \<and> (\<forall>j. k \<le> j \<longrightarrow> j < n \<longrightarrow> reads j AND 0x80 \<noteq> 0)"
proof (rule clk_wait.raw_induct [where P = "\<lambda>reads k n. k \<le> n \<and> reads n AND 0x80 = 0 \<and>
      (\<forall>j. k \<le> j \<longrightarrow> j < n \<longrightarrow> reads j AND 0x80 \<noteq> 0)", OF _ assms])
  fix f reads k n
  assume IH: "\<And>reads k n. f reads k = Some n \<Longrightarrow> k \<le> n \<and> reads n AND 0x80 = 0 \<and>
      (\<forall>j. k \<le> j \<longrightarrow> j < n \<longrightarrow> reads j AND (0x80 :: u32) \<noteq> 0)"
    and eq: "(if reads k AND (0x80 :: u32) \<noteq> 0 then f reads (Suc k) else Some k) = Some n"
  show "k \<le> n \<and> reads n AND 0x80 = 0 \<and> (\<forall>j. k \<le> j \<longrightarrow> j < n \<longrightarrow> reads j AND 0x80 \<noteq> 0)"
  proof (cases "reads k AND 0x80 = 0")
    case True
    with eq show ?thesis by auto
  next
    case False
    with eq have "f reads (Suc k) = Some n" by simp
    from IH [OF this] False show ?thesis by (metis Suc_leD le_antisym not_less_eq_eq)
  qed
qed

lemma clk_wait_returns:
  assumes "k \<le> n" "reads n AND 0x80 = 0"
  shows "\<exists>m. clk_wait reads k = Some m"
  using assms(1)
proof (induction k rule: inc_induct)
  case base
  with assms(2) show ?case by (simp add: clk_wait.simps)
next
  case (step k)
  then show ?case by (auto simp: clk_wait.simps [of reads k])
qed

section \<open>Register stores\<close>

lemma r_gpio_log [simp]: "r_gpio (log_io e st) = r_gpio st" "r_pwm (log_io e st) = r_pwm st" "r_clk (log_io e st) = r_clk st"
   "io_log (log_io e st) = io_log st @ [e]" "regs_of b (log_io e st) = regs_of b st"
   "pinToGpio (log_io e st) = pinToGpio st"
  by (simp_all add: log_io_def, cases b, simp_all)

definition io_mapped :: "irpio \<Rightarrow> bool" where
  "io_mapped st \<longleftrightarrow> r_gpio st \<noteq> None \<and> r_pwm st \<noteq> None \<and> r_clk st \<noteq> None"

lemma io_mapped_regs: "io_mapped st \<Longrightarrow> \<exists>f. regs_of b st = Some f"
  by (cases b) (auto simp: io_mapped_def)

lemma regs_of_put [simp]: "regs_of b (regs_put b f st) = Some f" "b' \<noteq> b \<Longrightarrow> regs_of b' (regs_put b f st) = regs_of b' st"
  by (cases b; simp) (cases b; cases b'; simp)

lemma regs_of_upd [simp]:
  "b \<noteq> GPIO \<Longrightarrow> regs_of b (st\<lparr>r_gpio := x\<rparr>) = regs_of b st"
  "b \<noteq> PWM \<Longrightarrow> regs_of b (st\<lparr>r_pwm := x\<rparr>) = regs_of b st"
  "b \<noteq> CLK \<Longrightarrow> regs_of b (st\<lparr>r_clk := x\<rparr>) = regs_of b st"
  by (cases b; simp)+

lemma io_mapped_log [simp]: "io_mapped (log_io e st) = io_mapped st"
  by (simp add: io_mapped_def)

lemma wr_ok:
  assumes "io_mapped st"
  shows "\<exists>st'. wr b r v st = Inr st' \<and> io_mapped st' \<and> io_log st' = io_log st @ [RegWrite b r v] \<and>
           regs_of b st' = Some ((the (regs_of b st))(r := v)) \<and>
           (\<forall>b'. b' \<noteq> b \<longrightarrow> regs_of b' st' = regs_of b' st)"
  using io_mapped_regs [OF assms, of b] assms
  by (cases b) (auto simp: wr_def io_mapped_def)

section \<open>The function of a pin\<close>

text \<open>The three function bits of a GPIO.\<close>

definition fsel_of :: "regs \<Rightarrow> nat \<Rightarrow> u32" where
  "fsel_of f g = drop_bit (3 * (g mod 10)) (f (g div 10)) AND 7"


lemma seven_mask: "(7 :: u32) = mask 3"
  by (simp add: mask_eq_exp_minus_1)

lemma small_code_bits: "unat (c :: u32) < 8 \<Longrightarrow> bit c k \<Longrightarrow> k < 3"
proof -
  assume "unat c < 8" "bit c k"
  then have "c = take_bit 3 c" by (simp add: word_unat_eq_iff unsigned_take_bit_eq take_bit_nat_eq_self)
  with \<open>bit c k\<close> show ?thesis by (metis bit_take_bit_iff)
qed

lemma fsel_of_cong:
  assumes "\<And>k. k < 3 \<Longrightarrow> bit (f (g div 10)) (3 * (g mod 10) + k) = bit (f' (g div 10)) (3 * (g mod 10) + k)"
  shows "fsel_of f g = fsel_of f' g"
  unfolding fsel_of_def seven_mask using assms by (auto simp: bit_eq_iff bit_simps)

lemma field_set:
  fixes v c :: u32
  assumes "unat c < 8" "s \<le> 27"
  shows "drop_bit s ((v AND NOT (push_bit s 7)) OR push_bit s c) AND 7 = c"
  unfolding seven_mask using assms(2)
  by (auto simp: bit_eq_iff bit_simps intro: small_code_bits [OF assms(1)]
      dest: small_code_bits [OF assms(1)])

lemma field_other:
  fixes v c :: u32
  assumes "unat c < 8" "k < s \<or> s + 3 \<le> k"
  shows "bit ((v AND NOT (push_bit s 7)) OR push_bit s c) k = bit v k"
  unfolding seven_mask using assms(2) small_code_bits [OF assms(1)]
  by (cases "k < 32") (fastforce simp: bit_simps dest: bit_imp_le_length)+

lemma fsel_update:
  assumes "unat c < 8" "f' = f(g div 10 := (f (g div 10) AND NOT (push_bit (3 * (g mod 10)) 7)) OR push_bit (3 * (g mod 10)) c)"
  shows "fsel_of f' g = c" "g' \<noteq> g \<Longrightarrow> fsel_of f' g' = fsel_of f g'"
proof -
  show "fsel_of f' g = c"
    unfolding fsel_of_def assms(2) using field_set [OF assms(1), of "3 * (g mod 10)"] by simp
next
  assume ne: "g' \<noteq> g"
  show "fsel_of f' g' = fsel_of f g'"
  proof (cases "g' div 10 = g div 10")
    case True
    with ne have "g' mod 10 \<noteq> g mod 10" by (metis div_mult_mod_eq)
    then have "3 * (g' mod 10) + k < 3 * (g mod 10) \<or> 3 * (g mod 10) + 3 \<le> 3 * (g' mod 10) + k" if "k < 3" for k
      using that by linarith
    with True show ?thesis
      unfolding assms(2) by (intro fsel_of_cong) (simp add: field_other [OF assms(1)])
  next
    case False
    then show ?thesis unfolding assms(2) by (intro fsel_of_cong) simp
  qed
qed

lemma pinMode_digital:
  assumes "r_gpio st = Some f" "on_board pin" "gpio_index st pin = Inr g" "g < 50"
    and "mode = INPUT \<or> mode = OUTPUT"
  shows "\<exists>st' f'. pinMode env pin mode st = Inr st' \<and> r_gpio st' = Some f' \<and>
           fsel_of f' g = of_nat mode \<and> (\<forall>g'. g' \<noteq> g \<longrightarrow> fsel_of f' g' = fsel_of f g')"
  using assms fsel_update [of 0 _ f g] fsel_update [of 1 _ f g]
  by (auto simp: pinMode_def set_fsel_def rd_def wr_def gpioToGPFSEL_map gpioToShift_map)

section \<open>The level of a pin\<close>

fun level_step :: "(nat \<Rightarrow> bool) \<Rightarrow> io_event \<Rightarrow> (nat \<Rightarrow> bool)" where
  "level_step l (RegWrite GPIO r v) =
     (if r = 7 \<or> r = 8 then (\<lambda>g. l g \<or> (g div 32 = r - 7 \<and> bit v (g mod 32)))
      else if r = 10 \<or> r = 11 then (\<lambda>g. l g \<and> \<not> (g div 32 = r - 10 \<and> bit v (g mod 32)))
      else l)"
| "level_step l e = l"

definition levels :: "(nat \<Rightarrow> bool) \<Rightarrow> io_event list \<Rightarrow> (nat \<Rightarrow> bool)" where
  "levels l es = foldl level_step l es"

lemma levels_append: "levels l (es @ es') = levels (levels l es) es'"
  by (simp add: levels_def)

lemma gpset_nth: "p < 64 \<Longrightarrow> gpioToGPSET ! p = 7 + p div 32" 
  by (auto simp: gpioToGPSET_def nth_append)
lemma gpclr_nth: "p < 64 \<Longrightarrow> gpioToGPCLR ! p = 10 + p div 32" 
  by (auto simp: gpioToGPCLR_def nth_append)

lemma and_31: "unat (pin AND 31 :: u32) = unat pin mod 32"
proof -
  have "(31 :: u32) = mask 5" by (simp add: mask_eq_exp_minus_1)
  then have "unat (pin AND 31) = take_bit 5 (unat pin)"
    by (simp only: take_bit_eq_mask [symmetric] unsigned_take_bit_eq)
  then show ?thesis by (simp add: take_bit_eq_mod)
qed

lemma digitalWrite_level:
  assumes "io_mapped st" "on_board pin"
  shows "\<exists>st'. digitalWrite pin v st = Inr st' \<and> io_mapped st' \<and>
           levels l (io_log st') = (levels l (io_log st))(unat pin := v \<noteq> 0)"
proof -
  have p: "unat pin < 64" using assms(2) by (simp add: on_board_iff)
  have len: "length gpioToGPSET = 64" "length gpioToGPCLR = 64"
    by (simp_all add: gpioToGPSET_def gpioToGPCLR_def)
  let ?m = "push_bit (unat pin mod 32) (1 :: u32)"
  have one: "bit ?m (g mod 32) \<longleftrightarrow> g mod 32 = unat pin mod 32" for g
    using bit_mask_single [of "unat pin mod 32" "g mod 32", where 'w = 32] by simp
  have same: "g div 32 = unat pin div 32 \<and> g mod 32 = unat pin mod 32 \<longleftrightarrow> g = unat pin" for g
    by (metis div_mult_mod_eq)
  show ?thesis
  proof (cases "v = 0")
    case True
    obtain st' where "wr GPIO (10 + unat pin div 32) ?m st = Inr st'" "io_mapped st'"
        "io_log st' = io_log st @ [RegWrite GPIO (10 + unat pin div 32) ?m]"
      using wr_ok [OF assms(1)] by blast
    with True p len one same assms(2) show ?thesis
      by (auto simp: digitalWrite_def gpclr_nth and_31 levels_append levels_def fun_eq_iff)
  next
    case False
    obtain st' where "wr GPIO (7 + unat pin div 32) ?m st = Inr st'" "io_mapped st'"
        "io_log st' = io_log st @ [RegWrite GPIO (7 + unat pin div 32) ?m]"
      using wr_ok [OF assms(1)] by blast
    with False p len one same assms(2) show ?thesis
      by (auto simp: digitalWrite_def gpset_nth and_31 levels_append levels_def fun_eq_iff)
  qed
qed

section \<open>Operations on mapped registers\<close>

text \<open>The state after a successful \<open>__init_gpio\<close>; every operation keeps it.\<close>

definition io_ready :: "irpio \<Rightarrow> bool" where
  "io_ready st \<longleftrightarrow> io_mapped st \<and>
     (pinToGpio st = Some (byte_view pinToGpioR1) \<or> pinToGpio st = Some (byte_view pinToGpioR2))"

definition clk_idle :: "irpio_env \<Rightarrow> bool" where
  "clk_idle env \<longleftrightarrow> (\<exists>n. clk_reads env n AND 0x80 = 0)"

lemma clk_wait_idle: "(\<exists>n. clk_wait (clk_reads env) 0 = Some n) \<longleftrightarrow> clk_idle env"
  using clk_wait_Some [of "clk_reads env" 0] clk_wait_returns [of 0 _ "clk_reads env"]
  by (auto simp: clk_idle_def)

lemma pinToGpio_put [simp]: "pinToGpio (regs_put b f st) = pinToGpio st"
  by (cases b) simp_all

lemma io_ready_log [simp]: "io_ready (log_io e st) = io_ready st"
  by (simp add: io_ready_def)

lemma wr_ready: "total_on io_ready (wr b r v)"
proof (rule total_onI)
  fix st assume "io_ready st"
  then obtain st' where "wr b r v st = Inr st'" "io_mapped st'"
    using wr_ok [of st b r v] by (auto simp: io_ready_def)
  with \<open>io_ready st\<close> show "\<exists>st'. wr b r v st = Inr st' \<and> io_ready st'"
    by (auto simp: io_ready_def wr_def split: option.splits)
qed

lemma usleep_ready: "total_on io_ready (usleep us)"
  by (simp add: total_on_def usleep_def)

lemma rd_ready: "io_ready st \<Longrightarrow> \<exists>v. rd b r st = Inr v"
  using io_mapped_regs [of st b] by (auto simp: io_ready_def rd_def)

lemma pwmSetMode_ready: "total_on io_ready (pwmSetMode m)"
  by (simp add: pwmSetMode_def wr_ready)

lemma pwmSetRange_ready: "total_on io_ready (pwmSetRange r)"
  unfolding pwmSetRange_def by (intro total_on_bind wr_ready usleep_ready)

lemma wait_ready: "clk_idle env \<Longrightarrow> total_on io_ready (wait_not_busy env)"
proof (rule total_onI)
  fix st assume "clk_idle env" "io_ready st"
  moreover from this(1) obtain n where "clk_wait (clk_reads env) 0 = Some n"
    using clk_wait_idle [of env] by auto
  moreover obtain f where "r_clk st = Some f"
    using io_mapped_regs [of st CLK] \<open>io_ready st\<close> by (auto simp: io_ready_def)
  ultimately show "\<exists>s'. wait_not_busy env st = Inr s' \<and> io_ready s'"
    by (auto simp: wait_not_busy_def io_ready_def io_mapped_def)
qed

lemma total_on_rd:
  assumes "\<And>v. total_on io_ready (f v)"
  shows "total_on io_ready (\<lambda>st. sbind (rd b r st) (\<lambda>v. f v st))"
  unfolding total_on_def
proof (intro allI impI)
  fix st assume "io_ready st"
  then obtain v where "rd b r st = Inr v" using rd_ready by blast
  with assms [of v] \<open>io_ready st\<close> show "\<exists>s'. sbind (rd b r st) (\<lambda>v. f v st) = Inr s' \<and> io_ready s'"
    by (auto simp: total_on_def)
qed

lemma pwmSetClock_ready: "clk_idle env \<Longrightarrow> total_on io_ready (pwmSetClock env d)"
  unfolding pwmSetClock_def Let_def
  by (intro total_on_rd total_on_bind wr_ready usleep_ready wait_ready)

lemma set_fsel_ready: "total_on io_ready (set_fsel r s c)"
  unfolding set_fsel_def by (intro total_on_rd wr_ready)

lemma digitalWrite_ready: "total_on io_ready (digitalWrite pin v)"
proof (rule total_onI)
  fix st assume "io_ready st"
  moreover have "unat pin < length gpioToGPSET" "unat pin < length gpioToGPCLR" if "on_board pin"
    using that by (simp_all add: on_board_iff gpioToGPSET_def gpioToGPCLR_def)
  ultimately show "\<exists>s'. digitalWrite pin v st = Inr s' \<and> io_ready s'"
    using wr_ready by (auto simp: digitalWrite_def total_on_def)
qed

lemma irpio_digitalWrite_ready: "total_on io_ready (irpio_digitalWrite pin v)"
  using digitalWrite_ready by (simp add: irpio_digitalWrite_def [abs_def])

lemma pwmWrite_ready: "total_on io_ready (pwmWrite pin v)"
proof (rule total_onI)
  fix st assume "io_ready st"
  moreover have "unat pin < length gpioToPwmPort" if "on_board pin"
    using that by (simp add: on_board_iff gpioToPwmPort_def)
  ultimately show "\<exists>s'. pwmWrite pin v st = Inr s' \<and> io_ready s'"
    using wr_ready by (auto simp: pwmWrite_def total_on_def)
qed

lemma irpio_setvalue_ready: "total_on io_ready (irpio_setvalue p v)"
  using digitalWrite_ready [of "pin_pin (pipi p)" v] pwmWrite_ready [of "pin_pin (pipi p)" v]
  by (auto simp: irpio_setvalue_def total_on_def)

lemma gpio_index_ready:
  "io_ready st \<Longrightarrow> on_board pin \<Longrightarrow> \<exists>g. gpio_index st pin = Inr g \<and> g < 32"
  by (rule gpio_index_on_board) (simp_all add: io_ready_def)

lemma pinMode_ready: "clk_idle env \<Longrightarrow> total_on io_ready (pinMode env pin mode)"
proof (rule total_onI)
  fix st assume idle: "clk_idle env" and ready: "io_ready st"
  show "\<exists>s'. pinMode env pin mode st = Inr s' \<and> io_ready s'"
  proof (cases "on_board pin")
    case True
    then obtain g where g: "gpio_index st pin = Inr g" "g < 32" using gpio_index_ready [OF ready] by auto
    let ?r = "gpioToGPFSEL ! g" and ?s = "gpioToShift ! g" and ?a = "gpioToPwmALT ! g"
    have len: "length gpioToGPFSEL = 60" "length gpioToShift = 50" "length gpioToPwmALT = 64"
      by (simp_all add: gpioToGPFSEL_map gpioToShift_map gpioToPwmALT_def)
    have 1: "total_on io_ready (\<lambda>st. sbind (rd GPIO ?r st) (\<lambda>v. wr GPIO ?r (v AND NOT (push_bit ?s 7)) st))"
      by (intro total_on_rd wr_ready)
    have 2: "total_on io_ready (\<lambda>st. sbind (set_fsel ?r ?s (ucast ?a) st) (\<lambda>st.
                   sbind (usleep 110 st) (\<lambda>st.
                   sbind (pwmSetMode PWM_MODE_BAL st) (\<lambda>st.
                   sbind (pwmSetRange 1024 st) (\<lambda>st.
                   pwmSetClock env 32 st)))))"
      by (intro total_on_bind set_fsel_ready usleep_ready pwmSetMode_ready pwmSetRange_ready
          pwmSetClock_ready idle)
    obtain s1 where s1: "sbind (rd GPIO ?r st) (\<lambda>v. wr GPIO ?r (v AND NOT (push_bit ?s 7)) st) = Inr s1" "io_ready s1"
      using total_onE [OF 1 ready] by blast
    obtain s2 where s2: "sbind (set_fsel ?r ?s (ucast ?a) st) (\<lambda>st.
                   sbind (usleep 110 st) (\<lambda>st.
                   sbind (pwmSetMode PWM_MODE_BAL st) (\<lambda>st.
                   sbind (pwmSetRange 1024 st) (\<lambda>st.
                   pwmSetClock env 32 st)))) = Inr s2" "io_ready s2"
      using total_onE [OF 2 ready] by blast
    obtain s3 where s3: "set_fsel ?r ?s 1 st = Inr s3" "io_ready s3"
      using total_onE [OF set_fsel_ready ready] by blast
    from True g len ready s1 s2 s3 show ?thesis by (simp add: pinMode_def)
  next
    case False
    with ready show ?thesis by (simp add: pinMode_def)
  qed
qed

lemma irpio_lowall_ready: "total_on io_ready irpio_lowall"
  unfolding irpio_lowall_def
proof (rule total_on_fold)
  fix p
  show "total_on io_ready (\<lambda>st. if pin_enabled (pipi p) then irpio_setvalue p 0 st else Inr st)"
    using irpio_setvalue_ready [of p 0] by (auto simp: total_on_def)
qed

lemma irpio_setpwm_ready: "clk_idle env \<Longrightarrow> total_on io_ready (irpio_setpwm env c r)"
proof (rule total_onI)
  fix st assume a: "clk_idle env" "io_ready st"
  then have r: "io_ready (st\<lparr>pwm_range := r\<rparr>)" by (simp add: io_ready_def io_mapped_def)
  have "total_on io_ready (\<lambda>st. sbind (pwmSetClock env c st) (pwmSetRange r))"
    by (intro total_on_bind pwmSetClock_ready pwmSetRange_ready a)
  from total_onE [OF this r] show "\<exists>s'. irpio_setpwm env c r st = Inr s' \<and> io_ready s'"
    by (auto simp: irpio_setpwm_def)
qed

text \<open>What the environment must grant for \<open>__init_gpio\<close> to succeed.\<close>

definition gpio_granted :: "irpio_env \<Rightarrow> bool" where
  "gpio_granted env \<longleftrightarrow> geteuid env = 0 \<and> 0 \<le> open_mem env \<and> (\<forall>a. mmap_at env a \<noteq> None)"

lemma init_gpio_granted:
  assumes "gpio_granted env"
  shows "\<exists>st'. init_gpio env st = (0, st') \<and> io_ready st'"
proof -
  obtain r st1 where b: "piBoardRev env st = (r, st1)" by fastforce
  have "\<exists>m. mmap_at env a = Some m" for a using assms by (auto simp: gpio_granted_def)
  then obtain m where "\<And>a. mmap_at env a = Some (m a)" by metis
  with assms show ?thesis
    by (auto simp: init_gpio_def b gpio_granted_def io_ready_def io_mapped_def Let_def)
qed

lemma irpio_init_granted:
  assumes "gpio_granted env" "clk_idle env"
  shows "\<exists>st'. irpio_init env st = Inr st' \<and> io_ready st'"
proof -
  obtain st1 where st1: "init_gpio env st = (0, st1)" "io_ready st1"
    using init_gpio_granted [OF assms(1)] by blast
  have body: "total_on io_ready (\<lambda>st. if pin_enabled (pipi p)
        then sbind (pinMode env (pin_pin (pipi p)) (pin_mode (pipi p)) st) (irpio_setvalue p 0)
        else Inr st)" for p
    using total_on_bind [OF pinMode_ready [OF assms(2)] irpio_setvalue_ready]
    by (auto simp: total_on_def)
  have "total_on io_ready (\<lambda>st. sbind (pwmSetMode PWM_MODE_BAL st)
          (sfoldM (\<lambda>p st. if pin_enabled (pipi p)
             then sbind (pinMode env (pin_pin (pipi p)) (pin_mode (pipi p)) st) (irpio_setvalue p 0)
             else Inr st) all_pins))"
    by (intro total_on_bind pwmSetMode_ready total_on_fold body)
  from total_onE [OF this st1(2)] st1(1) show ?thesis by (auto simp: irpio_init_def)
qed

section \<open>Effects\<close>

lemma pwmSetClock_effect:
  assumes "io_mapped st" "clk_idle env" "r_pwm st = Some p" "r_clk st = Some c"
  shows "\<exists>st'. pwmSetClock env d st = Inr st' \<and> r_pwm st' = Some p \<and>
           r_clk st' = Some (c(PWMCLK_DIV := BCM_PASSWORD OR push_bit 12 (d AND 4095),
                               PWMCLK_CNTL := BCM_PASSWORD OR 0x11)) \<and> r_gpio st' = r_gpio st"
proof -
  obtain n where "clk_wait (clk_reads env) 0 = Some n" using assms(2) clk_wait_idle by blast
  with assms show ?thesis
    by (simp add: pwmSetClock_def Let_def rd_def wr_def usleep_def wait_not_busy_def fun_upd_idem_iff fun_upd_twist)
qed

lemma pwmSetClock_hangs:
  assumes "io_mapped st" "\<not> clk_idle env"
  shows "pwmSetClock env d st = Inl Hangs"
proof -
  have "clk_wait (clk_reads env) 0 = None" using assms(2) clk_wait_idle by fastforce
  with assms(1) show ?thesis
    by (auto simp: pwmSetClock_def Let_def rd_def wr_def usleep_def wait_not_busy_def io_mapped_def)
qed

lemma pwmWrite_level:
  assumes "io_mapped st" "pwmWrite pin v st = Inr st'"
  shows "io_mapped st' \<and> levels l (io_log st') = levels l (io_log st)"
  using assms wr_ok [OF assms(1), of PWM "gpioToPwmPort ! unat pin" v]
  by (auto simp: pwmWrite_def sbind_Inr_iff aget_def levels_append levels_def split: if_splits)

text \<open>What \<open>irpio_setvalue\<close> does to the levels of the pins: only the outputs follow the value.\<close>

lemma pins_on_board: "on_board (pin_pin (pipi p))"
  by (cases p) (simp_all add: on_board_iff)

lemma irpio_setvalue_level:
  assumes "io_ready st"
  shows "\<exists>st'. irpio_setvalue p v st = Inr st' \<and> io_ready st' \<and>
           levels l (io_log st') =
             (if pin_mode (pipi p) = OUTPUT
              then (levels l (io_log st))(unat (pin_pin (pipi p)) := v \<noteq> 0) else levels l (io_log st))"
proof -
  obtain st' where st': "irpio_setvalue p v st = Inr st'" "io_ready st'"
    using total_onE [OF irpio_setvalue_ready assms] by blast
  have m: "io_mapped st" using assms by (simp add: io_ready_def)
  have en: "pin_enabled (pipi p)" by (cases p) simp_all
  show ?thesis
  proof (cases "pin_mode (pipi p) = OUTPUT")
    case True
    with st' en digitalWrite_level [OF m pins_on_board, of p v l] show ?thesis
      by (auto simp: irpio_setvalue_def)
  next
    case False
    with st' en pwmWrite_level [OF m, of "pin_pin (pipi p)" v st' l] show ?thesis
      by (auto simp: irpio_setvalue_def split: if_splits)
  qed
qed

lemma irpio_lowall_levels:
  assumes "io_ready st"
  shows "\<exists>st'. irpio_lowall st = Inr st' \<and> io_ready st' \<and>
           levels l (io_log st') = (levels l (io_log st))(2 := False, 0 := False, 4 := False)"
proof -
  have en: "pin_enabled (pipi p)" for p by (cases p) simp_all
  note step = irpio_setvalue_level [where v = 0 and l = l]
  obtain s1 where s1: "irpio_setvalue IRLED 0 st = Inr s1" "io_ready s1" "levels l (io_log s1) = levels l (io_log st)"
    using step [of st IRLED] assms by auto
  obtain s2 where s2: "irpio_setvalue IRECV 0 s1 = Inr s2" "io_ready s2" "levels l (io_log s2) = levels l (io_log s1)"
    using step [of s1 IRECV] s1 by auto
  obtain s3 where s3: "irpio_setvalue SPEKR 0 s2 = Inr s3" "io_ready s3" "levels l (io_log s3) = (levels l (io_log s2))(2 := False)"
    using step [of s2 SPEKR] s2 by auto
  obtain s4 where s4: "irpio_setvalue ALARM 0 s3 = Inr s4" "io_ready s4" "levels l (io_log s4) = (levels l (io_log s3))(0 := False)"
    using step [of s3 ALARM] s3 by auto
  obtain s5 where s5: "irpio_setvalue STATS 0 s4 = Inr s5" "io_ready s5" "levels l (io_log s5) = (levels l (io_log s4))(4 := False)"
    using step [of s4 STATS] s4 by auto
  show ?thesis
    using s1 s2 s3 s4 s5 by (simp add: irpio_lowall_def all_pins_def en)
qed

lemma parse_revision_range: "parse_revision line \<in> {-6, -5, -4, 1, 2}"
  by (simp add: parse_revision_def Let_def)

lemma parse_revision_ok_iff:
  "0 < parse_revision line \<longleftrightarrow>
     starts_with line ''Revision'' \<and> 4 \<le> length (dropWhile (\<lambda>c. \<not> c_isdigit c) (chomp (cstr line)))"
proof -
  obtain c where c: "c = dropWhile (\<lambda>c. \<not> c_isdigit c) (chomp (cstr line))" by simp
  show ?thesis unfolding parse_revision_def c [symmetric] Let_def by auto
qed

lemma piBoardRev_cases:
  assumes "piBoardRev env st = (r, st')"
  obtains (cached) "boardRev st \<noteq> -1" "r = boardRev st" "st' = st"
    | (no_board) "r \<in> {-3, -2, -1}" "st' = st"
    | (parsed) line where "r = parse_revision line" "boardRev st' = (if 0 < r then r else boardRev st)"
proof (cases "boardRev st = -1")
  case True
  show ?thesis
  proof (cases "cpuinfo env")
    case None
    have "(r, st') = (-1, st)"
      unfolding assms [symmetric] piBoardRev_def None option.case by (simp add: True)
    with no_board show ?thesis by blast
  next
    case (Some cpu)
    obtain hw where hw: "find_line ''Hardware'' (stack_line env) cpu = hw" by simp
    obtain line where line: "find_line ''Revision'' hw cpu = line" by simp
    obtain a b c where abc: "starts_with hw ''Hardware'' = a" "(strstr (cstr hw) ''BCM2709'' = None) = b"
        "(strstr (cstr hw) ''BCM2708'' = None) = c"
      by blast
    have eq: "(r, st') =
        (if \<not> a then (-2, st) else if b \<and> c then (-3, st)
         else let st1 = (if \<not> b then st\<lparr>piModel2 := True\<rparr> else st)
              in (parse_revision line, if 0 < parse_revision line
                                       then st1\<lparr>boardRev := parse_revision line\<rparr> else st1))"
      unfolding assms [symmetric] piBoardRev_def Let_def Some option.case hw line abc
      by (simp add: True)
    show ?thesis
    proof (cases "\<not> a \<or> b \<and> c")
      case True
      with eq have "r \<in> {-3, -2, -1}" "st' = st" by (auto split: if_splits)
      then show ?thesis by (rule no_board)
    next
      case False
      with eq have "r = parse_revision line" "boardRev st' = (if 0 < r then r else boardRev st)"
        by (auto simp: Let_def split: if_splits)
      then show ?thesis by (rule parsed)
    qed
  qed
next
  case False
  then have "(r, st') = (boardRev st, st)"
    unfolding assms [symmetric] piBoardRev_def by (simp only: if_True not_False_eq_True)
  with False cached show ?thesis by blast
qed

lemma piBoardRev_range:
  assumes "piBoardRev env st = (r, st')" "r \<noteq> boardRev st"
  shows "r \<in> {-6, -5, -4, -3, -2, -1, 1, 2}"
  using assms(1)
proof (cases rule: piBoardRev_cases)
  case (parsed line)
  then show ?thesis using parse_revision_range [of line] by auto
qed (use assms(2) in auto)

lemma piBoardRev_again:
  assumes "piBoardRev env st = (r, st')" "0 < r"
  shows "piBoardRev env' st' = (r, st')"
  using assms(1)
proof (cases rule: piBoardRev_cases)
  case (parsed line)
  with assms(2) show ?thesis by (simp add: piBoardRev_def)
qed (use assms(2) in \<open>auto simp: piBoardRev_def\<close>)

text \<open>The PWM pin: its data go to the control register, and its mode is never set.\<close>

lemma irled_write_hits_control:
  assumes "io_mapped st"
  shows "\<exists>st'. irpio_setvalue IRLED v st = Inr st' \<and> io_log st' = io_log st @ [RegWrite PWM PWM_CONTROL v]"
  using wr_ok [OF assms, of PWM 0 v]
  by (auto simp: irpio_setvalue_def pwmWrite_def on_board_iff gpioToPwmPort_def)

lemma irled_pwm_mode_is_skipped:
  assumes "io_ready st"
  shows "pinMode env (pin_pin (pipi IRLED)) (pin_mode (pipi IRLED)) st = Inr st"
proof -
  have "aget (byte_view pinToGpioR1) 1 = Inr 0" "aget (byte_view pinToGpioR2) 1 = Inr 0"
    by code_simp+
  moreover have "aget gpioToGPFSEL 0 = Inr 0" "aget gpioToShift 0 = Inr 0" "aget gpioToPwmALT 0 = Inr 0"
    by code_simp+
  ultimately show ?thesis
    using assms by (auto simp: pinMode_def gpio_index_def io_ready_def)
qed

section \<open>Properties\<close>

text \<open>An environment in which everything succeeds, for the examples.\<close>

definition calm_env :: irpio_env where
  "calm_env = \<lparr>cpuinfo = None, stack_line = [], geteuid = 0, open_mem = 3, mmap_at = (\<lambda>_. Some (\<lambda>_. 0)),
     errno_now = 0, clk_reads = (\<lambda>_. 0), open_value = 4, isr_thread = True\<rparr>"

text \<open>
  Setting an on-board pin to input or output programs the three function bits of exactly one
  GPIO, the one that the pin table yields, with the mode's code, and leaves the function of every
  other GPIO as it was.
\<close>

theorem pinMode_sets_one_function:
  assumes "io_ready st" "on_board pin" "mode = INPUT \<or> mode = OUTPUT" "r_gpio st = Some f"
  shows "\<exists>st' f' g. pinMode env pin mode st = Inr st' \<and> r_gpio st' = Some f' \<and>
           gpio_index st pin = Inr g \<and> fsel_of f' g = of_nat mode \<and>
           (\<forall>g'. g' \<noteq> g \<longrightarrow> fsel_of f' g' = fsel_of f g')"
proof -
  obtain g where "gpio_index st pin = Inr g" "g < 32" using gpio_index_ready assms by blast
  with pinMode_digital [of st f pin g mode env] assms show ?thesis by fastforce
qed

theorem pinMode_sets_one_function_witness:
  "\<exists>st' f' g. pinMode calm_env 4 OUTPUT (irpio_static\<lparr>r_gpio := Some (\<lambda>_. 0), r_pwm := Some (\<lambda>_. 0),
        r_clk := Some (\<lambda>_. 0), pinToGpio := Some (byte_view pinToGpioR2)\<rparr>) = Inr st' \<and>
     r_gpio st' = Some f' \<and> fsel_of f' g = 1"
  using pinMode_sets_one_function [of "irpio_static\<lparr>r_gpio := Some (\<lambda>_. 0), r_pwm := Some (\<lambda>_. 0),
        r_clk := Some (\<lambda>_. 0), pinToGpio := Some (byte_view pinToGpioR2)\<rparr>" 4 OUTPUT "\<lambda>_. 0" calm_env]
  by (auto simp: io_ready_def io_mapped_def on_board_iff)

text \<open>
  C33: Writing a value to an alarm pin never fails once the registers are mapped, and the levels of
  the pins change as the abstract operation "this output pin follows the value" says: no level
  changes for the input and for the PWM pin.
\<close>

theorem setvalue_refines_levels:
  assumes "io_ready st"
  shows "\<exists>st'. irpio_setvalue p v st = Inr st' \<and> io_ready st' \<and>
           levels l (io_log st') =
             (if p \<in> {SPEKR, ALARM, STATS}
              then (levels l (io_log st))(unat (irpio_getpin p) := v \<noteq> 0)
              else levels l (io_log st))"
  using irpio_setvalue_level [OF assms, of p v l] by (cases p) (auto simp: irpio_getpin_def)

theorem setvalue_refines_levels_witness:
  "\<exists>st'. irpio_setvalue ALARM 1 (irpio_static\<lparr>r_gpio := Some (\<lambda>_. 0), r_pwm := Some (\<lambda>_. 0),
        r_clk := Some (\<lambda>_. 0), pinToGpio := Some (byte_view pinToGpioR1)\<rparr>) = Inr st' \<and>
     levels (\<lambda>_. False) (io_log st') 0"
  using setvalue_refines_levels [of "irpio_static\<lparr>r_gpio := Some (\<lambda>_. 0), r_pwm := Some (\<lambda>_. 0),
        r_clk := Some (\<lambda>_. 0), pinToGpio := Some (byte_view pinToGpioR1)\<rparr>" ALARM 1 "\<lambda>_. False"]
  by (auto simp: io_ready_def io_mapped_def irpio_getpin_def)

text \<open>
  C34: \<open>pwmSetClock\<close> returns exactly if the clock's busy bit is clear at some read; then the PWM
  block is as before (its control register is restored), and the clock runs with the divisor cut
  to twelve bits.
\<close>

theorem pwmSetClock_returns_iff:
  assumes "r_gpio st = Some f" "r_pwm st = Some p" "r_clk st = Some c"
  shows "if clk_idle env
         then \<exists>st'. pwmSetClock env d st = Inr st' \<and> r_pwm st' = Some p \<and> r_gpio st' = Some f \<and>
                r_clk st' = Some (c(PWMCLK_DIV := BCM_PASSWORD OR push_bit 12 (d AND 4095),
                                    PWMCLK_CNTL := BCM_PASSWORD OR 0x11))
         else pwmSetClock env d st = Inl Hangs"
  using assms pwmSetClock_effect [of st env p c d] pwmSetClock_hangs [of st env d]
  by (cases "clk_idle env") (auto simp: io_mapped_def)

theorem pwmSetClock_returns_iff_witness:
  "\<exists>st'. pwmSetClock \<lparr>cpuinfo = None, stack_line = [], geteuid = 0, open_mem = 3,
            mmap_at = (\<lambda>_. Some (\<lambda>_. 0)), errno_now = 0, clk_reads = (\<lambda>n. if n < 5 then 0x80 else 0),
            open_value = 4, isr_thread = True\<rparr> 199
          (irpio_static\<lparr>r_gpio := Some (\<lambda>_. 0), r_pwm := Some (\<lambda>_. 7), r_clk := Some (\<lambda>_. 0)\<rparr>) = Inr st' \<and>
         r_pwm st' = Some (\<lambda>_. 7)"
proof -
  let ?env = "\<lparr>cpuinfo = None, stack_line = [], geteuid = 0, open_mem = 3,
            mmap_at = (\<lambda>_. Some (\<lambda>_. 0)), errno_now = 0, clk_reads = (\<lambda>n. if n < 5 then 0x80 else 0),
            open_value = 4, isr_thread = True\<rparr>"
  have "clk_idle ?env" unfolding clk_idle_def by (rule exI [of _ 5]) simp
  then show ?thesis
    using pwmSetClock_returns_iff [of "irpio_static\<lparr>r_gpio := Some (\<lambda>_. 0), r_pwm := Some (\<lambda>_. 7),
        r_clk := Some (\<lambda>_. 0)\<rparr>" "\<lambda>_. 0" "\<lambda>_. 7" "\<lambda>_. 0" ?env 199]
    by auto
qed

text \<open>
  The pin table is read through a pointer to bytes although it holds integers.  With the
  table of the second board revision the five pins of the alarm therefore reach the GPIOs 0, 0,
  0, 17 and 18, where the table says 18, 22, 27, 17 and 23.
\<close>

theorem pins_reach_wrong_gpios:
  assumes "pinToGpio st = Some (byte_view pinToGpioR2)"
  shows "map (\<lambda>p. gpio_index st (pin_pin (pipi p))) all_pins = map Inr [0, 0, 0, 17, 18] \<and>
         map (\<lambda>p. pinToGpioR2 ! unat (pin_pin (pipi p))) all_pins = [18, 22, 27, 17, 23]"
proof
  have "map (\<lambda>p. sbind (aget (byte_view pinToGpioR2) (unat (pin_pin (pipi p)))) (\<lambda>b. Inr (unat b))) all_pins =
      map Inr [0, 0, 0, 17, 18]"
    by code_simp
  then show "map (\<lambda>p. gpio_index st (pin_pin (pipi p))) all_pins = map Inr [0, 0, 0, 17, 18]"
    by (simp only: gpio_index_def assms option.case)
next
  show "map (\<lambda>p. pinToGpioR2 ! unat (pin_pin (pipi p))) all_pins = [18, 22, 27, 17, 23]"
    by code_simp
qed

theorem pins_reach_wrong_gpios_witness:
  "map (\<lambda>p. gpio_index (irpio_static\<lparr>pinToGpio := Some (byte_view pinToGpioR2)\<rparr>) (pin_pin (pipi p))) all_pins =
     map Inr [0, 0, 0, 17, 18]"
  using pins_reach_wrong_gpios [of "irpio_static\<lparr>pinToGpio := Some (byte_view pinToGpioR2)\<rparr>"] by simp

text \<open>
  \<open>irpio_init\<close> only prints a message when the registers cannot be mapped, and returns as
  after a success: started without the rights of the superuser, the next step of the daemon,
  \<open>irpio_setpwm\<close>, stores through a null pointer.
\<close>

theorem init_failure_goes_unnoticed:
  assumes "geteuid env \<noteq> 0"
  shows "\<exists>st. irpio_init env irpio_static = Inr st \<and> irpio_setpwm env c r st = Inl NullDeref"
proof -
  obtain rv st1 where b: "piBoardRev env irpio_static = (rv, st1)" by fastforce
  then have "r_pwm st1 = None"
    by (auto simp: piBoardRev_def irpio_static_def Let_def split: option.splits if_splits)
  with assms b show ?thesis
    by (simp add: irpio_init_def init_gpio_def irpio_setpwm_def pwmSetClock_def rd_def log_io_def)
qed

theorem init_failure_goes_unnoticed_witness:
  "\<exists>st. irpio_init \<lparr>cpuinfo = None, stack_line = [], geteuid = 1000, open_mem = -1,
            mmap_at = (\<lambda>_. None), errno_now = 13, clk_reads = (\<lambda>_. 0), open_value = -1,
            isr_thread = True\<rparr> irpio_static = Inr st \<and>
        irpio_setpwm \<lparr>cpuinfo = None, stack_line = [], geteuid = 1000, open_mem = -1,
            mmap_at = (\<lambda>_. None), errno_now = 13, clk_reads = (\<lambda>_. 0), open_value = -1,
            isr_thread = True\<rparr> 199 1024 st = Inl NullDeref"
  by (rule init_failure_goes_unnoticed) simp

end
