(* ===== verification/Portex_Spi.thy ===== *)
theory Portex_Spi
  imports Prelude
begin

unbundle bit_operations_syntax

text \<open>
  The SPI half of the port expander driver (\<open>portexpander/portex_spi.c\<close>, with the addresses and
  registers of \<open>portex.h\<close>): transfers to the MCP23S17, the register cache, probing, and the
  driver's registration.

  The kernel's answers are the environment \<open>spi_env\<close>; what the driver asks of the kernel is
  recorded in \<open>k_log\<close>, in order.  The abstraction \<open>wire\<close> reads off the log what the chip's
  registers were last told.
\<close>

section \<open>Addresses and registers\<close>

datatype MCP23S_ADDR =
    MCP23S08_ADDR_00 | MCP23S08_ADDR_01 | MCP23S08_ADDR_02 | MCP23S08_ADDR_03
  | MCP23S17_ADDR_00 | MCP23S17_ADDR_01 | MCP23S17_ADDR_02 | MCP23S17_ADDR_03

fun addr_val :: "MCP23S_ADDR \<Rightarrow> u8" where
  "addr_val MCP23S08_ADDR_00 = 0x0"
| "addr_val MCP23S08_ADDR_01 = 0x2"
| "addr_val MCP23S08_ADDR_02 = 0x4"
| "addr_val MCP23S08_ADDR_03 = 0x6"
| "addr_val MCP23S17_ADDR_00 = 0x8"
| "addr_val MCP23S17_ADDR_01 = 0xA"
| "addr_val MCP23S17_ADDR_02 = 0xC"
| "addr_val MCP23S17_ADDR_03 = 0xE"

datatype MCP23S_REGS =
    MCP23S08_REG_IODIR | MCP23S08_REG_IPOL | MCP23S08_REG_GPINTEN | MCP23S08_REG_DEFVAL
  | MCP23S08_REG_INTCON | MCP23S08_REG_IOCON | MCP23S08_REG_GPPU | MCP23S08_REG_INTF
  | MCP23S08_REG_INTCAP | MCP23S08_REG_GPIO | MCP23S08_REG_OLAT
  | MCP23S17_REG_IODIR | MCP23S17_REG_IPOL | MCP23S17_REG_GPINTEN | MCP23S17_REG_DEFVAL
  | MCP23S17_REG_INTCON | MCP23S17_REG_IOCON | MCP23S17_REG_GPPU | MCP23S17_REG_INTF
  | MCP23S17_REG_INTCAP | MCP23S17_REG_GPIO | MCP23S17_REG_OLAT

fun reg_num :: "MCP23S_REGS \<Rightarrow> nat" where
  "reg_num MCP23S08_REG_IODIR = 0x00"
| "reg_num MCP23S08_REG_IPOL = 0x01"
| "reg_num MCP23S08_REG_GPINTEN = 0x02"
| "reg_num MCP23S08_REG_DEFVAL = 0x03"
| "reg_num MCP23S08_REG_INTCON = 0x04"
| "reg_num MCP23S08_REG_IOCON = 0x05"
| "reg_num MCP23S08_REG_GPPU = 0x06"
| "reg_num MCP23S08_REG_INTF = 0x07"
| "reg_num MCP23S08_REG_INTCAP = 0x08"
| "reg_num MCP23S08_REG_GPIO = 0x09"
| "reg_num MCP23S08_REG_OLAT = 0x0A"
| "reg_num MCP23S17_REG_IODIR = 0x10"
| "reg_num MCP23S17_REG_IPOL = 0x11"
| "reg_num MCP23S17_REG_GPINTEN = 0x12"
| "reg_num MCP23S17_REG_DEFVAL = 0x13"
| "reg_num MCP23S17_REG_INTCON = 0x14"
| "reg_num MCP23S17_REG_IOCON = 0x15"
| "reg_num MCP23S17_REG_GPPU = 0x16"
| "reg_num MCP23S17_REG_INTF = 0x17"
| "reg_num MCP23S17_REG_INTCAP = 0x18"
| "reg_num MCP23S17_REG_GPIO = 0x19"
| "reg_num MCP23S17_REG_OLAT = 0x1A"

definition REG_MAX :: nat where
  "REG_MAX = 0x1B"

section \<open>State and environment\<close>

datatype k_event =
    SpiWrite "u8 list"
  | SpiWriteThenRead "u8 list"
  | DeleteDevice nat          \<comment> \<open>the device that another driver put on the chip select\<close>
  | NewDevice
  | PutMaster
  | RegisterDriver
  | UnregisterDriver
  | DeviceDel
  | Kfree
  | ClassRegister
  | ClassUnregister

record portex =
  cache_mcp23s17 :: "u8 list"
  spi_mcp23s17 :: bool        \<comment> \<open>whether the device pointer is set\<close>
  k_log :: "k_event list"

definition portex_static :: portex where
  "portex_static = \<lparr>cache_mcp23s17 = replicate REG_MAX 0, spi_mcp23s17 = False, k_log = []\<rparr>"

record spi_env =
  spi_write_ret :: "u8 list \<Rightarrow> int"
  spi_read_ret :: "u8 list \<Rightarrow> int \<times> u8 \<times> u8" \<comment> \<open>result, \<open>rx[0]\<close>, \<open>rx[1]\<close>\<close>
  spi_master :: bool
  cs_taken :: bool
  new_device :: bool
  register_ret :: int

definition k_say :: "k_event \<Rightarrow> portex \<Rightarrow> portex" where
  "k_say e st = st\<lparr>k_log := k_log st @ [e]\<rparr>"

section \<open>Transfers\<close>

definition mcp23s17_read :: "spi_env \<Rightarrow> MCP23S_ADDR \<Rightarrow> MCP23S_REGS \<Rightarrow> portex \<Rightarrow> (int \<times> portex) c_result" where
  "mcp23s17_read env addr reg st =
     (let tx = [0x41 OR addr_val addr, of_nat (reg_num reg)]
      in if \<not> spi_mcp23s17 st then Inl NullDeref
         else case spi_read_ret env tx of
           (ret, rx0, rx1) \<Rightarrow>
             Inr (if ret < 0 then ret else uint ((ucast rx1 :: u32) OR push_bit 8 (ucast rx0)),
                  k_say (SpiWriteThenRead tx) st))"

definition mcp23s17_write :: "spi_env \<Rightarrow> MCP23S_ADDR \<Rightarrow> MCP23S_REGS \<Rightarrow> u8 \<Rightarrow> portex \<Rightarrow> (int \<times> portex) c_result" where
  "mcp23s17_write env addr reg val st =
     (let tx = [0x40 OR addr_val addr, of_nat (reg_num reg), val]
      in if \<not> spi_mcp23s17 st then Inl NullDeref
         else Inr (spi_write_ret env tx, k_say (SpiWrite tx) st))"

section \<open>The register cache\<close>

definition portex_write_cached :: "spi_env \<Rightarrow> MCP23S_REGS \<Rightarrow> u8 \<Rightarrow> u8 \<Rightarrow> portex \<Rightarrow> portex c_result" where
  "portex_write_cached env reg pin_mask val st =
     sbind (aget (cache_mcp23s17 st) (reg_num reg)) (\<lambda>c.
     sbind (aset (cache_mcp23s17 st) (reg_num reg)
              (if val = 0 then c AND NOT pin_mask else c OR pin_mask)) (\<lambda>cache.
     let st1 = st\<lparr>cache_mcp23s17 := cache\<rparr>
     in sbind (aget (cache_mcp23s17 st1) (reg_num reg)) (\<lambda>v.
        sbind (mcp23s17_write env MCP23S08_ADDR_00 reg v st1) (\<lambda>(_, st2). Inr st2))))"

definition portex_read_cached :: "MCP23S_REGS \<Rightarrow> u8 \<Rightarrow> portex \<Rightarrow> u32 c_result" where
  "portex_read_cached reg pin_nmb st =
     sbind (aget (cache_mcp23s17 st) (reg_num reg))
       (\<lambda>c. Inr (drop_bit (unat pin_nmb) (ucast c) AND 0x1))"

section \<open>Probing and registration\<close>

abbreviation (input) ENODEV :: int where "ENODEV \<equiv> 19"
abbreviation (input) EINVAL :: int where "EINVAL \<equiv> 22"
abbreviation (input) EPERM :: int where "EPERM \<equiv> 1"

text \<open>The result of a read is compared after its conversion to \<open>u16\<close>.\<close>

definition mcp23s17_probe :: "spi_env \<Rightarrow> portex \<Rightarrow> (int \<times> portex) c_result" where
  "mcp23s17_probe env st =
     sbind (mcp23s17_read env MCP23S08_ADDR_00 MCP23S08_REG_IODIR st) (\<lambda>(r, st).
     if (of_int r :: u16) \<noteq> 0xFFFF then Inr (- ENODEV, st)
     else
       sbind (mcp23s17_read env MCP23S08_ADDR_00 MCP23S17_REG_IODIR st) (\<lambda>(r, st).
       if (of_int r :: u16) \<noteq> 0xFFFF then Inr (- ENODEV, st)
       else
         sbind (mcp23s17_write env MCP23S08_ADDR_00 MCP23S08_REG_IODIR 0x00 st) (\<lambda>(_, st).
         sbind (mcp23s17_write env MCP23S08_ADDR_00 MCP23S17_REG_IODIR 0x00 st) (\<lambda>(_, st).
         Inr (0, st)))))"

definition spidevices_delete :: "spi_env \<Rightarrow> nat \<Rightarrow> portex \<Rightarrow> portex" where
  "spidevices_delete env cs st = (if cs_taken env then k_say (DeleteDevice cs) st else st)"

definition portex_spi_init :: "spi_env \<Rightarrow> portex \<Rightarrow> int \<times> portex" where
  "portex_spi_init env st =
     (if \<not> spi_master env then (- EINVAL, st)
      else
        let st1 = spidevices_delete env 0 st;
            st2 = k_say PutMaster (k_say NewDevice (st1\<lparr>spi_mcp23s17 := new_device env\<rparr>))
        in if \<not> spi_mcp23s17 st2 then (- EPERM, st2)
           else (register_ret env, k_say RegisterDriver st2))"

definition portex_spi_free :: "spi_env \<Rightarrow> portex \<Rightarrow> portex c_result" where
  "portex_spi_free env st =
     sbind (mcp23s17_write env MCP23S08_ADDR_00 MCP23S08_REG_GPIO 0x00 st) (\<lambda>(_, st).
     sbind (mcp23s17_write env MCP23S08_ADDR_00 MCP23S08_REG_IODIR 0xFF st) (\<lambda>(_, st).
     sbind (mcp23s17_write env MCP23S08_ADDR_00 MCP23S17_REG_GPIO 0x00 st) (\<lambda>(_, st).
     sbind (mcp23s17_write env MCP23S08_ADDR_00 MCP23S17_REG_IODIR 0xFF st) (\<lambda>(_, st).
     let st1 = k_say UnregisterDriver st
     in Inr (if spi_mcp23s17 st1 then k_say Kfree (k_say DeviceDel st1) else st1)))))"

section \<open>What the chip was told\<close>

text \<open>The value last written to each register of the chip at the address in use.\<close>

fun wire_step :: "(nat \<rightharpoonup> u8) \<Rightarrow> k_event \<Rightarrow> (nat \<rightharpoonup> u8)" where
  "wire_step w (SpiWrite [ctl, reg, val]) = (if ctl = 0x40 then w(unat reg \<mapsto> val) else w)"
| "wire_step w e = w"

definition wire :: "k_event list \<Rightarrow> (nat \<rightharpoonup> u8)" where
  "wire es = foldl wire_step Map.empty es"

lemma wire_append: "wire (es @ [e]) = wire_step (wire es) e"
  by (simp add: wire_def)

lemma reg_num_less: "reg_num r < REG_MAX"
  by (cases r) (simp_all add: REG_MAX_def)

lemma unat_reg_num [simp]: "unat (of_nat (reg_num r) :: u8) = reg_num r"
  by (cases r) simp_all

lemma reg_num_inj: "reg_num r = reg_num r' \<longleftrightarrow> r = r'"
  by (cases r; cases r'; simp)

text \<open>
  Writing through the cache always succeeds on a device: the cached register changes in the
  masked bits only, and the chip is told exactly the cached value.
\<close>

definition cache_ok :: "portex \<Rightarrow> bool" where
  "cache_ok st \<longleftrightarrow> length (cache_mcp23s17 st) = REG_MAX \<and> spi_mcp23s17 st"

lemma write_cached_effect:
  assumes "cache_ok st"
  shows "\<exists>st'. portex_write_cached env reg m v st = Inr st' \<and> cache_ok st' \<and>
           cache_mcp23s17 st' = (cache_mcp23s17 st)
             [reg_num reg := (if v = 0 then cache_mcp23s17 st ! reg_num reg AND NOT m
                              else cache_mcp23s17 st ! reg_num reg OR m)] \<and>
           wire (k_log st') = (wire (k_log st))(reg_num reg \<mapsto> cache_mcp23s17 st' ! reg_num reg)"
  using assms reg_num_less [of reg]
  by (simp add: portex_write_cached_def mcp23s17_write_def cache_ok_def k_say_def wire_append Let_def)

lemma read_cached_effect:
  assumes "cache_ok st"
  shows "portex_read_cached reg pin st =
           Inr (if bit (cache_mcp23s17 st ! reg_num reg) (unat pin) then 1 else 0)"
proof -
  have "bit (ucast c :: u32) n \<longleftrightarrow> bit c n" for c :: u8 and n
    by (auto simp: bit_ucast_iff dest: bit_imp_le_length)
  moreover have "drop_bit n w AND 1 = (if bit w n then 1 else 0)" for w :: u32 and n
    by (simp add: and_one_eq bit_iff_odd_drop_bit odd_iff_mod_2_eq_one even_iff_mod_2_eq_zero)
  ultimately have "drop_bit n (ucast c :: u32) AND 1 = (if bit c n then 1 else 0)" for c :: u8 and n
    by simp
  then show ?thesis using assms reg_num_less [of reg] by (simp add: portex_read_cached_def cache_ok_def)
qed

text \<open>
  Every port register of the cache equals what the chip was last told, or is still zero, the
  chip's reset value, if it was told nothing.
\<close>

definition coherent :: "portex \<Rightarrow> bool" where
  "coherent st \<longleftrightarrow>
     (\<forall>reg \<in> {MCP23S08_REG_GPIO, MCP23S17_REG_GPIO}.
        cache_mcp23s17 st ! reg_num reg =
          (case wire (k_log st) (reg_num reg) of None \<Rightarrow> 0 | Some v \<Rightarrow> v))"

lemma write_cached_coherent:
  assumes "cache_ok st" "coherent st" "portex_write_cached env reg m v st = Inr st'"
  shows "cache_ok st' \<and> coherent st'"
proof -
  have "reg_num reg < length (cache_mcp23s17 st)"
    using assms(1) reg_num_less [of reg] by (simp add: cache_ok_def)
  with assms write_cached_effect [OF assms(1), of env reg m v] show ?thesis
    by (auto simp: coherent_def nth_list_update reg_num_inj simp del: reg_num.simps)
qed

lemma coherent_initially: "portex_spi_init env portex_static = (r, st) \<Longrightarrow> coherent st"
  by (auto simp: portex_spi_init_def coherent_def portex_static_def spidevices_delete_def k_say_def
      wire_def Let_def REG_MAX_def split: if_splits)

lemma init_cache_ok: "portex_spi_init env portex_static = (0, st) \<Longrightarrow> cache_ok st"
  by (auto simp: portex_spi_init_def cache_ok_def portex_static_def spidevices_delete_def k_say_def
      Let_def split: if_splits)

lemma probe_wire:
  assumes "mcp23s17_probe env st = Inr (r, st')"
  shows "cache_mcp23s17 st' = cache_mcp23s17 st \<and> spi_mcp23s17 st' = spi_mcp23s17 st \<and>
         (\<forall>n. n \<noteq> 0x00 \<longrightarrow> n \<noteq> 0x10 \<longrightarrow> wire (k_log st') n = wire (k_log st) n)"
  using assms
  by (auto simp: mcp23s17_probe_def mcp23s17_read_def mcp23s17_write_def k_say_def wire_def Let_def
      split: if_splits prod.splits)

lemma probe_coherent:
  assumes "cache_ok st" "coherent st" "mcp23s17_probe env st = Inr (r, st')"
  shows "cache_ok st' \<and> coherent st'"
  using assms probe_wire [OF assms(3)] by (auto simp: cache_ok_def coherent_def)

end
