(* ===== verification/Portex_Sysfs.thy ===== *)
theory Portex_Sysfs
  imports Portex_Spi CLib
begin

unbundle bit_operations_syntax

text \<open>
  The sysfs half of the port expander driver (\<open>portexpander/portex_sysfs.c\<close>) and the module's
  entry and exit (\<open>portex_init.c\<close>).

  A file of the class is an attribute with its operations; \<open>sysfs_show\<close> and \<open>sysfs_store\<close> dispatch
  as the kernel does on the attribute table.  The specification is a set of sixteen pins with a
  level each (\<open>pin_levels\<close>), on which a store acts as \<open>abs_store\<close> says.
\<close>

section \<open>Attributes\<close>

datatype attr_ops = Gpio_ops | Gpio_dir_ops | Gpio_all_ops

definition GPIO_attrs :: "nat \<Rightarrow> (string \<times> attr_ops) list" where
  "GPIO_attrs n =
     [(''gpio'' @ show_nat n, Gpio_ops), (''gpio'' @ show_nat n @ ''_dir'', Gpio_dir_ops)]"

definition portex_class_attrs :: "(string \<times> attr_ops) list" where
  "portex_class_attrs = concat (map GPIO_attrs [0..<16]) @ [(''gpio_all'', Gpio_all_ops)]"

text \<open>\<open>sscanf (name, "gpio%u", &idx)\<close>: without a conversion \<open>idx\<close> stays uninitialised.\<close>

definition get_gpio :: "string \<Rightarrow> u32 c_result" where
  "get_gpio name =
     (if prefix ''gpio'' name then
        case subject (drop 4 name) of
          (_, _, _, ds) \<Rightarrow> if ds = [] then Inl Uninitialised else Inr (of_nat (digits_value ds))
      else Inl Uninitialised)"

section \<open>Operations of the attributes\<close>

definition gpio_all_get :: "string" where
  "gpio_all_get = []"

definition gpio_all_set :: "spi_env \<Rightarrow> string \<Rightarrow> portex \<Rightarrow> (nat \<times> portex) c_result" where
  "gpio_all_set env buf st =
     sbind (case sscanf_d buf of
              None \<Rightarrow> Inr st
            | Some val \<Rightarrow>
                sbind (portex_write_cached env MCP23S08_REG_GPIO 0xFF (ucast val) st)
                  (portex_write_cached env MCP23S17_REG_GPIO 0xFF (ucast val)))
       (\<lambda>st. Inr (length buf, st))"

definition gpio_get :: "string \<Rightarrow> portex \<Rightarrow> string c_result" where
  "gpio_get name st =
     sbind (get_gpio name) (\<lambda>gpio.
     sbind (if gpio > 7 then portex_read_cached MCP23S17_REG_GPIO (ucast (gpio - 8)) st
            else portex_read_cached MCP23S08_REG_GPIO (ucast gpio) st)
       (\<lambda>ret. Inr (show_d ret @ [NL])))"

definition gpio_set :: "spi_env \<Rightarrow> string \<Rightarrow> string \<Rightarrow> portex \<Rightarrow> (nat \<times> portex) c_result" where
  "gpio_set env name buf st =
     sbind (get_gpio name) (\<lambda>gpio.
     sbind (case sscanf_d buf of
              None \<Rightarrow> Inr st
            | Some val \<Rightarrow>
                if gpio > 7 then
                  portex_write_cached env MCP23S17_REG_GPIO
                    (ucast (push_bit (unat (gpio - 8)) 0x1 :: u32)) (ucast val) st
                else
                  portex_write_cached env MCP23S08_REG_GPIO
                    (ucast (push_bit (unat gpio) 0x1 :: u32)) (ucast val) st)
       (\<lambda>st. Inr (length buf, st)))"

definition gpio_dir_set :: "portex \<Rightarrow> nat \<times> portex" where
  "gpio_dir_set st = (0, st)"

definition gpio_dir_get :: "string" where
  "gpio_dir_get = []"

section \<open>Dispatch\<close>

definition sysfs_show :: "string \<Rightarrow> portex \<Rightarrow> string c_result option" where
  "sysfs_show name st =
     (case map_of portex_class_attrs name of
        None \<Rightarrow> None
      | Some Gpio_ops \<Rightarrow> Some (gpio_get name st)
      | Some Gpio_dir_ops \<Rightarrow> Some (Inr gpio_dir_get)
      | Some Gpio_all_ops \<Rightarrow> Some (Inr gpio_all_get))"

definition sysfs_store :: "spi_env \<Rightarrow> string \<Rightarrow> string \<Rightarrow> portex \<Rightarrow> (nat \<times> portex) c_result option" where
  "sysfs_store env name buf st =
     (case map_of portex_class_attrs name of
        None \<Rightarrow> None
      | Some Gpio_ops \<Rightarrow> Some (gpio_set env name buf st)
      | Some Gpio_dir_ops \<Rightarrow> Some (Inr (gpio_dir_set st))
      | Some Gpio_all_ops \<Rightarrow> Some (gpio_all_set env buf st))"

text \<open>A write to a file of the class, by name; a file that does not exist cannot be written.\<close>

fun store_file :: "spi_env \<Rightarrow> string \<times> string \<Rightarrow> portex \<Rightarrow> portex c_result" where
  "store_file env (name, buf) st =
     (case sysfs_store env name buf st of
        None \<Rightarrow> Inr st
      | Some r \<Rightarrow> sbind r (\<lambda>(_, st). Inr st))"

section \<open>The module\<close>

definition portex_sysfs_init :: "portex \<Rightarrow> int \<times> portex" where
  "portex_sysfs_init st = (0, k_say ClassRegister st)"

definition portex_sysfs_free :: "portex \<Rightarrow> portex" where
  "portex_sysfs_free st = k_say ClassUnregister st"

definition pe_mod_init :: "spi_env \<Rightarrow> portex \<Rightarrow> int \<times> portex" where
  "pe_mod_init env st =
     (case portex_spi_init env st of
        (ret, st1) \<Rightarrow>
          if ret \<noteq> 0 then (ret, st1)
          else case portex_sysfs_init st1 of
                 (ret, st2) \<Rightarrow> if ret \<noteq> 0 then (ret, st2) else (0, st2))"

definition pe_mod_exit :: "spi_env \<Rightarrow> portex \<Rightarrow> portex c_result" where
  "pe_mod_exit env st = portex_spi_free env (portex_sysfs_free st)"

section \<open>The pins\<close>

definition port_of :: "nat \<Rightarrow> MCP23S_REGS" where
  "port_of n = (if n > 7 then MCP23S17_REG_GPIO else MCP23S08_REG_GPIO)"

definition pin_levels :: "portex \<Rightarrow> nat \<Rightarrow> bool" where
  "pin_levels st n \<longleftrightarrow> n < 16 \<and> bit (cache_mcp23s17 st ! reg_num (port_of n)) (n mod 8)"

text \<open>What a write to a file means for the pins: the number in the text, cut to eight bits.\<close>

definition abs_store :: "string \<Rightarrow> string \<Rightarrow> (nat \<Rightarrow> bool) \<Rightarrow> (nat \<Rightarrow> bool)" where
  "abs_store name buf l =
     (case sscanf_d buf of
        None \<Rightarrow> l
      | Some v \<Rightarrow>
          let on = (ucast v :: u8) \<noteq> 0
          in case map_of portex_class_attrs name of
               Some Gpio_ops \<Rightarrow>
                 (case get_gpio name of Inr g \<Rightarrow> l(unat g := on) | Inl _ \<Rightarrow> l)
             | Some Gpio_all_ops \<Rightarrow> (\<lambda>n. n < 16 \<and> on)
             | _ \<Rightarrow> l)"

lemma get_gpio_pin: "n < 2 ^ 32 \<Longrightarrow> get_gpio (''gpio'' @ show_nat n) = Inr (of_nat n)"
  using subject_show_nat [of "[]" n] by (simp add: get_gpio_def digits_value_show_nat)

lemma gpio_attr_names:
  "list_all (\<lambda>(name, ops). ops = Gpio_ops \<longrightarrow> name \<in> (\<lambda>n. ''gpio'' @ show_nat n) ` {..<16}) portex_class_attrs"
  by (auto simp: portex_class_attrs_def GPIO_attrs_def list_all_iff)

lemma gpio_attr_pin:
  assumes "map_of portex_class_attrs name = Some Gpio_ops"
  shows "\<exists>n < 16. name = ''gpio'' @ show_nat n \<and> get_gpio name = Inr (of_nat n)"
proof -
  from assms have "(name, Gpio_ops) \<in> set portex_class_attrs" by (rule map_of_SomeD)
  with gpio_attr_names obtain n where "n < 16" "name = ''gpio'' @ show_nat n"
    by (auto simp: list_all_iff)
  then show ?thesis using get_gpio_pin [of n] by auto
qed

lemma attr_of_pin: "n < 16 \<Longrightarrow> map_of portex_class_attrs (''gpio'' @ show_nat n) = Some Gpio_ops"
proof -
  have "list_all (\<lambda>n. map_of portex_class_attrs (''gpio'' @ show_nat n) = Some Gpio_ops) [0..<16]"
    by code_simp
  then show "n < 16 \<Longrightarrow> ?thesis" by (simp add: list_all_iff)
qed

lemma pin_mask_bit: "k < 8 \<Longrightarrow> m < 8 \<Longrightarrow> bit (ucast (push_bit k 1 :: u32) :: u8) m \<longleftrightarrow> m = k"
  by (auto simp: bit_ucast_iff bit_mask_single simp del: push_bit_of_1)

lemma all_mask_bit: "m < 8 \<Longrightarrow> bit (0xFF :: u8) m"
proof -
  have "(0xFF :: u8) = mask 8" by (simp add: mask_eq_exp_minus_1)
  then show "m < 8 \<Longrightarrow> ?thesis" by (simp only: bit_mask_iff) simp
qed

lemma pin_number_unique:
  fixes i n :: nat
  assumes "i < 16" "n < 16" "i > 7 \<longleftrightarrow> n > 7" "i mod 8 = n mod 8"
  shows "i = n"
proof (cases "7 < n")
  case True
  with assms have "i mod 8 = i - 8" "n mod 8 = n - 8" by (simp_all add: le_mod_geq)
  with True assms show ?thesis by linarith
next
  case False
  with assms show ?thesis by simp
qed

text \<open>A write to a port changes the levels of the masked pins of this port.\<close>

lemma write_cached_levels:
  assumes "cache_ok st" "reg = port_of b" "b < 16"
  shows "\<exists>st'. portex_write_cached env reg m v st = Inr st' \<and> cache_ok st' \<and>
           pin_levels st' =
             (\<lambda>n. if n < 16 \<and> port_of n = reg \<and> bit m (n mod 8) then v \<noteq> 0 else pin_levels st n)"
proof -
  have len: "reg_num r < length (cache_mcp23s17 st)" for r
    using assms(1) reg_num_less [of r] by (simp add: cache_ok_def)
  obtain st' where st': "portex_write_cached env reg m v st = Inr st'" "cache_ok st'"
      "cache_mcp23s17 st' = (cache_mcp23s17 st)
         [reg_num reg := (if v = 0 then cache_mcp23s17 st ! reg_num reg AND NOT m
                          else cache_mcp23s17 st ! reg_num reg OR m)]"
    using write_cached_effect [OF assms(1), of env reg m v] by blast
  have "pin_levels st' n =
      (if n < 16 \<and> port_of n = reg \<and> bit m (n mod 8) then v \<noteq> 0 else pin_levels st n)" for n
    using len by (auto simp: pin_levels_def st'(3) nth_list_update reg_num_inj and_not_clears bit_or_iff)
  with st' show ?thesis by blast
qed

lemma gpio_set_levels:
  assumes "cache_ok st" "n < 16" "get_gpio name = Inr (of_nat n)" "sscanf_d buf = Some v"
  shows "\<exists>st'. gpio_set env name buf st = Inr (length buf, st') \<and> cache_ok st' \<and>
           pin_levels st' = (pin_levels st)(n := (ucast v :: u8) \<noteq> 0)"
proof -
  let ?k = "n mod 8"
  let ?m = "ucast (push_bit ?k 0x1 :: u32) :: u8"
  have eq: "gpio_set env name buf st =
      sbind (portex_write_cached env (port_of n) ?m (ucast v) st) (\<lambda>st. Inr (length buf, st))"
  proof (cases "n > 7")
    case True
    then have "unat ((of_nat n :: u32) - 8) = n mod 8" "(of_nat n :: u32) > 7"
      using assms(2) by (auto simp: unat_sub word_le_nat_alt word_less_nat_alt unat_of_nat le_mod_geq)
    with True assms show ?thesis by (simp add: gpio_set_def port_of_def)
  next
    case False
    then have "unat (of_nat n :: u32) = n mod 8" "\<not> (of_nat n :: u32) > 7"
      by (auto simp: word_less_nat_alt unat_of_nat)
    with False assms show ?thesis by (simp add: gpio_set_def port_of_def)
  qed
  obtain st' where st': "portex_write_cached env (port_of n) ?m (ucast v) st = Inr st'" "cache_ok st'"
      "pin_levels st' = (\<lambda>i. if i < 16 \<and> port_of i = port_of n \<and> bit ?m (i mod 8)
                             then (ucast v :: u8) \<noteq> 0 else pin_levels st i)"
    using write_cached_levels [OF assms(1) refl assms(2)] by blast
  have same: "i < 16 \<and> port_of i = port_of n \<and> bit ?m (i mod 8) \<longleftrightarrow> i = n" for i
  proof -
    have "port_of i = port_of n \<longleftrightarrow> (i > 7 \<longleftrightarrow> n > 7)" by (simp add: port_of_def)
    moreover have "bit ?m (i mod 8) \<longleftrightarrow> i mod 8 = n mod 8" by (rule pin_mask_bit) simp_all
    moreover have "i < 16 \<and> (i > 7 \<longleftrightarrow> n > 7) \<and> i mod 8 = n mod 8 \<longleftrightarrow> i = n"
      using assms(2) pin_number_unique [of i n] by blast
    ultimately show ?thesis by blast
  qed
  have "pin_levels st' = (pin_levels st)(n := (ucast v :: u8) \<noteq> 0)"
    unfolding st'(3) same fun_upd_def by (rule refl)
  with st' eq show ?thesis by simp
qed

lemma gpio_all_set_levels:
  assumes "cache_ok st" "sscanf_d buf = Some v"
  shows "\<exists>st'. gpio_all_set env buf st = Inr (length buf, st') \<and> cache_ok st' \<and>
           pin_levels st' = (\<lambda>n. n < 16 \<and> (ucast v :: u8) \<noteq> 0)"
proof -
  have full: "bit (0xFF :: u8) (n mod 8) \<longleftrightarrow> True" for n
    using all_mask_bit [of "n mod 8"] by simp
  obtain s1 where s1: "portex_write_cached env MCP23S08_REG_GPIO 0xFF (ucast v) st = Inr s1" "cache_ok s1"
      "pin_levels s1 = (\<lambda>n. if n < 16 \<and> port_of n = MCP23S08_REG_GPIO \<and> bit (0xFF :: u8) (n mod 8)
                            then (ucast v :: u8) \<noteq> 0 else pin_levels st n)"
    using write_cached_levels [OF assms(1), of MCP23S08_REG_GPIO 0 env "0xFF" "ucast v"]
    by (auto simp: port_of_def)
  obtain s2 where s2: "portex_write_cached env MCP23S17_REG_GPIO 0xFF (ucast v) s1 = Inr s2" "cache_ok s2"
      "pin_levels s2 = (\<lambda>n. if n < 16 \<and> port_of n = MCP23S17_REG_GPIO \<and> bit (0xFF :: u8) (n mod 8)
                            then (ucast v :: u8) \<noteq> 0 else pin_levels s1 n)"
    using write_cached_levels [OF s1(2), of MCP23S17_REG_GPIO 8 env "0xFF" "ucast v"]
    by (auto simp: port_of_def)
  have "pin_levels s2 = (\<lambda>n. n < 16 \<and> (ucast v :: u8) \<noteq> 0)"
    unfolding s2(3) s1(3) full by (auto simp: fun_eq_iff port_of_def pin_levels_def)
  with s1 s2 assms show ?thesis by (simp add: gpio_all_set_def)
qed

lemma store_file_levels:
  assumes "cache_ok st"
  shows "\<exists>st'. store_file env (name, buf) st = Inr st' \<and> cache_ok st' \<and>
           pin_levels st' = abs_store name buf (pin_levels st)"
proof (cases "sscanf_d buf")
  case None
  with assms show ?thesis
    using gpio_attr_pin [of name]
    by (auto simp: sysfs_store_def abs_store_def gpio_set_def gpio_all_set_def gpio_dir_set_def
        split: option.split attr_ops.split)
next
  case (Some v)
  show ?thesis
  proof (cases "map_of portex_class_attrs name")
    case None
    with assms Some show ?thesis by (simp add: sysfs_store_def abs_store_def)
  next
    case (Some ops)
    show ?thesis
    proof (cases ops)
      case Gpio_ops
      then obtain n where n: "n < 16" "get_gpio name = Inr (of_nat n)"
        using Some gpio_attr_pin [of name] by auto
      then have "unat (of_nat n :: u32) = n" by (simp add: unat_of_nat)
      with gpio_set_levels [OF assms n \<open>sscanf_d buf = Some v\<close>, of env] n Some Gpio_ops \<open>sscanf_d buf = Some v\<close>
      show ?thesis by (auto simp: sysfs_store_def abs_store_def)
    next
      case Gpio_dir_ops
      with assms Some \<open>sscanf_d buf = Some v\<close> show ?thesis
        by (simp add: sysfs_store_def abs_store_def gpio_dir_set_def)
    next
      case Gpio_all_ops
      with gpio_all_set_levels [OF assms \<open>sscanf_d buf = Some v\<close>, of env] Some \<open>sscanf_d buf = Some v\<close>
      show ?thesis by (auto simp: sysfs_store_def abs_store_def)
    qed
  qed
qed

lemma show_pin_levels:
  assumes "cache_ok st" "n < 16"
  shows "sysfs_show (''gpio'' @ show_nat n) st =
           Some (Inr (show_nat (if pin_levels st n then 1 else 0) @ [NL]))"
proof -
  have g: "get_gpio (''gpio'' @ show_nat n) = Inr (of_nat n)" using assms(2) by (intro get_gpio_pin) simp
  have d: "show_d (if b then 1 else 0) = show_nat (if b then 1 else 0)" for b
    by (simp add: show_d_def)
  show ?thesis
  proof (cases "n > 7")
    case True
    then have "unat (ucast ((of_nat n :: u32) - 8) :: u8) = n mod 8" "(of_nat n :: u32) > 7"
      using assms(2)
      by (auto simp: unat_sub word_le_nat_alt word_less_nat_alt unat_of_nat le_mod_geq unsigned_ucast_eq take_bit_eq_mod)
    with True g d assms show ?thesis
      by (simp add: sysfs_show_def attr_of_pin gpio_get_def read_cached_effect pin_levels_def port_of_def
          del: append.simps)
  next
    case False
    then have "unat (ucast (of_nat n :: u32) :: u8) = n mod 8" "\<not> (of_nat n :: u32) > 7"
      by (auto simp: word_less_nat_alt unat_of_nat unsigned_ucast_eq take_bit_eq_mod)
    with False g d assms show ?thesis
      by (simp add: sysfs_show_def attr_of_pin gpio_get_def read_cached_effect pin_levels_def port_of_def
          del: append.simps)
  qed
qed

lemma store_file_ok:
  assumes "cache_ok st" "coherent st"
  shows "\<exists>st'. store_file env (name, buf) st = Inr st' \<and> cache_ok st' \<and> coherent st' \<and>
           pin_levels st' = abs_store name buf (pin_levels st)"
proof -
  obtain st' where st': "store_file env (name, buf) st = Inr st'" "cache_ok st'"
      "pin_levels st' = abs_store name buf (pin_levels st)"
    using store_file_levels [OF assms(1)] by blast
  moreover have "coherent st'"
    using st'(1) assms
    by (auto simp: sysfs_store_def gpio_set_def gpio_all_set_def gpio_dir_set_def sbind_Inr_iff
        split: option.splits attr_ops.splits if_splits dest: write_cached_coherent)
  ultimately show ?thesis by blast
qed

lemma run_files_ok:
  assumes "cache_ok st" "coherent st"
  shows "\<exists>st'. sfoldM (store_file env) ops st = Inr st' \<and> cache_ok st' \<and> coherent st' \<and>
           pin_levels st' = fold (\<lambda>(name, buf). abs_store name buf) ops (pin_levels st)"
  using assms
proof (induction ops arbitrary: st)
  case Nil
  then show ?case by simp
next
  case (Cons x ops)
  obtain name buf where x: "x = (name, buf)" by fastforce
  obtain s1 where "store_file env (name, buf) st = Inr s1" "cache_ok s1" "coherent s1"
      "pin_levels s1 = abs_store name buf (pin_levels st)"
    using store_file_ok [OF Cons.prems, of env name buf] by blast
  with Cons.IH [of s1] show ?case by (simp add: x)
qed

lemma pe_mod_init_ok:
  assumes "pe_mod_init env portex_static = (0, st)"
  shows "cache_ok st \<and> coherent st \<and> pin_levels st = (\<lambda>_. False)"
proof -
  from assms obtain s1 where s1: "portex_spi_init env portex_static = (0, s1)" "st = k_say ClassRegister s1"
    by (auto simp: pe_mod_init_def portex_sysfs_init_def split: prod.splits if_splits)
  have "cache_mcp23s17 s1 = replicate REG_MAX 0"
    using s1(1) by (auto simp: portex_spi_init_def portex_static_def spidevices_delete_def k_say_def Let_def
        split: if_splits)
  then have "pin_levels s1 = (\<lambda>_. False)"
    by (auto simp: pin_levels_def fun_eq_iff reg_num_less)
  then show ?thesis
    using s1 init_cache_ok [OF s1(1)] coherent_initially [OF s1(1)]
    by (auto simp: cache_ok_def coherent_def pin_levels_def k_say_def wire_append fun_eq_iff)
qed

lemma sscanf_d_show_u: "sscanf_d (show_u (v :: u32) @ [NL]) = Some v"
proof -
  have "\<not> c_isdigit NL" by (simp add: c_isdigit_def)
  then show ?thesis
    by (simp add: sscanf_d_def show_u_def subject_show_nat digits_value_show_nat)
qed

text \<open>The two bytes of a read make \<open>0xFFFF\<close> exactly if both are \<open>0xFF\<close>.\<close>

lemma all_ones_iff: "(w :: 'w::len word) = mask n \<longleftrightarrow> (\<forall>k < LENGTH('w). bit w k \<longleftrightarrow> k < n)"
  by (auto simp: bit_eq_iff bit_mask_iff)

lemma read_all_ones:
  fixes x0 x1 :: u8
  shows "(of_int (uint ((ucast x1 :: u32) OR push_bit 8 (ucast x0))) :: u16) = 0xFFFF \<longleftrightarrow> x0 = 0xFF \<and> x1 = 0xFF"
proof -
  let ?w = "(ucast x1 :: u32) OR push_bit 8 (ucast x0)"
  have m: "(0xFFFF :: u16) = mask 16" "(0xFF :: u8) = mask 8" by (simp_all add: mask_eq_exp_minus_1)
  have low: "bit ?w k \<longleftrightarrow> bit x1 k" if "k < 8" for k using that by (simp add: bit_simps)
  have high: "bit ?w (k + 8) \<longleftrightarrow> bit x0 k" if "k < 8" for k
    using that by (auto simp: bit_simps dest: bit_imp_le_length)
  have "(of_int (uint ?w) :: u16) = 0xFFFF \<longleftrightarrow> (\<forall>k < 16. bit ?w k)"
    unfolding ucast_eq [symmetric] m by (simp add: all_ones_iff bit_ucast_iff)
  also have "\<dots> \<longleftrightarrow> (\<forall>k < 8. bit ?w k) \<and> (\<forall>k < 8. bit ?w (k + 8))"
  proof (intro iffI conjI allI impI)
    fix k :: nat
    assume a: "(\<forall>k < 8. bit ?w k) \<and> (\<forall>k < 8. bit ?w (k + 8))" and k: "k < 16"
    show "bit ?w k"
    proof (cases "k < 8")
      case False
      with k have "k = (k - 8) + 8" "k - 8 < 8" by simp_all
      with a show ?thesis by metis
    qed (use a in blast)
  qed simp_all
  also have "\<dots> \<longleftrightarrow> (\<forall>k < 8. bit x1 k) \<and> (\<forall>k < 8. bit x0 k)" using low high by simp
  also have "\<dots> \<longleftrightarrow> x0 = 0xFF \<and> x1 = 0xFF" unfolding m by (auto simp: all_ones_iff)
  finally show ?thesis .
qed

section \<open>Properties\<close>



text \<open>
  C36: A number written to the file of a pin is read back from it as 1 or 0, by whether its low
  eight bits are set or all clear; the files of the other pins read as before.
\<close>

theorem pin_file_roundtrip:
  assumes "cache_ok st" "n < 16" "m < 16"
    and "store_file env (''gpio'' @ show_nat n, show_u (v :: u32) @ [NL]) st = Inr st'"
  shows "sysfs_show (''gpio'' @ show_nat m) st' =
           (if m = n then Some (Inr (show_nat (if unat v mod 256 = 0 then 0 else 1) @ [NL]))
            else sysfs_show (''gpio'' @ show_nat m) st)"
proof -
  have u: "(ucast v :: u8) \<noteq> 0 \<longleftrightarrow> unat v mod 256 \<noteq> 0"
    by (simp add: unat_eq_zero [symmetric] unsigned_ucast_eq take_bit_eq_mod del: unat_eq_zero)
  have g: "get_gpio (''gpio'' @ show_nat n) = Inr (of_nat n)" using assms(2) by (intro get_gpio_pin) simp
  have "unat (of_nat n :: u32) = n" using assms(2) by (simp add: unat_of_nat)
  then have lev: "cache_ok st'" "pin_levels st' = (pin_levels st)(n := unat v mod 256 \<noteq> 0)"
    using store_file_levels [OF assms(1), of env "''gpio'' @ show_nat n" "show_u v @ [NL]"] assms(4) g u
    by (auto simp: abs_store_def attr_of_pin [OF assms(2)] sscanf_d_show_u simp del: append.simps)
  show ?thesis
    by (simp add: show_pin_levels [OF lev(1) assms(3)] show_pin_levels [OF assms(1,3)] lev(2) del: append.simps)
qed

theorem pin_file_roundtrip_witness:
  "\<exists>st'. sysfs_show (''gpio'' @ show_nat 11) st' = Some (Inr (show_nat 1 @ [NL]))"
proof -
  let ?env = "\<lparr>spi_write_ret = (\<lambda>_. 0), spi_read_ret = (\<lambda>_. (0, 255, 255)),
        spi_master = True, cs_taken = True, new_device = True, register_ret = 0\<rparr>"
  let ?st = "portex_static\<lparr>spi_mcp23s17 := True\<rparr>"
  have ok: "cache_ok ?st" by (simp add: cache_ok_def portex_static_def)
  obtain st' where st': "store_file ?env (''gpio'' @ show_nat 11, show_u (5 :: u32) @ [NL]) ?st = Inr st'"
    using store_file_levels [OF ok] by blast
  show ?thesis using pin_file_roundtrip [OF ok _ _ st', of 11] by auto
qed

text \<open>
  The value is cut to eight bits on its way to the register, so a number other than zero can
  switch a pin off: writing 256 to the file of a pin that is on makes it read 0.
\<close>

theorem pin_off_by_256:
  assumes "cache_ok st" "n < 16"
  shows "\<exists>st'. store_file env (''gpio'' @ show_nat n, ''256'') st = Inr st' \<and> \<not> pin_levels st' n"
proof -
  have g: "get_gpio (''gpio'' @ show_nat n) = Inr (of_nat n)" using assms(2) by (intro get_gpio_pin) simp
  have "sscanf_d ''256'' = Some 256" by code_simp
  moreover have "(ucast (256 :: u32) :: u8) = 0" by simp
  moreover have "unat (of_nat n :: u32) = n" using assms(2) by (simp add: unat_of_nat)
  ultimately show ?thesis
    using store_file_levels [OF assms(1), of env "''gpio'' @ show_nat n" "''256''"] g
    by (auto simp: abs_store_def attr_of_pin [OF assms(2)] simp del: append.simps)
qed

theorem pin_off_by_256_witness:
  "\<exists>st'. store_file \<lparr>spi_write_ret = (\<lambda>_. 0), spi_read_ret = (\<lambda>_. (0, 255, 255)),
        spi_master = True, cs_taken = True, new_device = True, register_ret = 0\<rparr>
      (''gpio'' @ show_nat 3, ''256'') (portex_static\<lparr>spi_mcp23s17 := True, cache_mcp23s17 := replicate REG_MAX 0xFF\<rparr>)
      = Inr st' \<and> \<not> pin_levels st' 3"
  by (rule pin_off_by_256) (simp_all add: cache_ok_def)

text \<open>
  C37: \<open>mcp23s17_probe\<close> on a device always ends with 0 or with \<open>-ENODEV\<close>; with 0 exactly if both
  direction registers read as \<open>0xFFFF\<close> after the conversion to 16 bits, and then both were told
  to be outputs.  The result -1 of a failed transfer passes for \<open>0xFFFF\<close>.
\<close>

theorem probe_outcome:
  assumes "spi_mcp23s17 st"
    and "spi_read_ret env [0x41, 0x00] = (ra, a0, a1)" "spi_read_ret env [0x41, 0x10] = (rb, b0, b1)"
  shows "\<exists>r st'. mcp23s17_probe env st = Inr (r, st') \<and>
           (if (if ra < 0 then (of_int ra :: u16) = 0xFFFF else a0 = 0xFF \<and> a1 = 0xFF) \<and>
               (if rb < 0 then (of_int rb :: u16) = 0xFFFF else b0 = 0xFF \<and> b1 = 0xFF)
            then r = 0 \<and> wire (k_log st') 0x00 = Some 0 \<and> wire (k_log st') 0x10 = Some 0
            else r = - ENODEV)"
proof -
  show ?thesis
    using assms read_all_ones
    by (auto simp: mcp23s17_probe_def mcp23s17_read_def mcp23s17_write_def k_say_def wire_def Let_def)
qed

lemma probe_outcome_witness:
  "\<exists>r st'. mcp23s17_probe \<lparr>spi_write_ret = (\<lambda>_. 0),
        spi_read_ret = (\<lambda>tx. if tx = [0x41, 0x00] then (0, 255, 255) else (-1, 0, 0)),
        spi_master = True, cs_taken = True, new_device = True, register_ret = 0\<rparr>
      (portex_static\<lparr>spi_mcp23s17 := True\<rparr>) = Inr (r, st') \<and> r = 0 \<and> wire (k_log st') 0x10 = Some 0"
  using probe_outcome [of "portex_static\<lparr>spi_mcp23s17 := True\<rparr>"
      "\<lparr>spi_write_ret = (\<lambda>_. 0), spi_read_ret = (\<lambda>tx. if tx = [0x41, 0x00] then (0, 255, 255) else (-1, 0, 0)),
        spi_master = True, cs_taken = True, new_device = True, register_ret = 0\<rparr>" 0 255 255 "-1" 0 0]
  by auto

text \<open>
  Unloading the module tells the chip to clear both ports and to make every pin an input
  again, takes the class away first and the device away last.
\<close>

theorem exit_restores_chip:
  assumes "cache_ok st"
  shows "\<exists>st'. pe_mod_exit env st = Inr st' \<and>
           wire (k_log st') 0x09 = Some 0 \<and> wire (k_log st') 0x19 = Some 0 \<and>
           wire (k_log st') 0x00 = Some 0xFF \<and> wire (k_log st') 0x10 = Some 0xFF \<and>
           (\<exists>ts. k_log st' = k_log st @ [ClassUnregister] @ ts @ [UnregisterDriver, DeviceDel, Kfree] \<and>
                 (\<forall>t \<in> set ts. \<exists>tx. t = SpiWrite tx))"
  using assms
  by (auto simp: pe_mod_exit_def portex_spi_free_def portex_sysfs_free_def mcp23s17_write_def k_say_def
      cache_ok_def wire_def Let_def)

theorem exit_restores_chip_witness:
  "\<exists>st'. pe_mod_exit \<lparr>spi_write_ret = (\<lambda>_. 0), spi_read_ret = (\<lambda>_. (0, 255, 255)),
        spi_master = True, cs_taken = True, new_device = True, register_ret = 0\<rparr>
      (portex_static\<lparr>spi_mcp23s17 := True\<rparr>) = Inr st' \<and> wire (k_log st') 0x10 = Some 0xFF"
proof -
  have "cache_ok (portex_static\<lparr>spi_mcp23s17 := True\<rparr>)" by (simp add: cache_ok_def portex_static_def)
  from exit_restores_chip [OF this, of "\<lparr>spi_write_ret = (\<lambda>_. 0), spi_read_ret = (\<lambda>_. (0, 255, 255)),
        spi_master = True, cs_taken = True, new_device = True, register_ret = 0\<rparr>"]
  show ?thesis by blast
qed

end
