(* ===== verification/Sniffer.thy ===== *)
theory Sniffer
  imports CLib
begin

unbundle bit_operations_syntax

text \<open>
  The network LED daemon (\<open>netled/sniffer.c\<close>): packet classification, the blink counters that the
  capture loop fills and the blinker thread drains, the capture filter string, and the set-up of
  the capture.

  \<^item> Data: the table \<open>p2f\<close>, a packet as the bytes that were captured, and the output of the
    program as a list of messages (those of the debug build only if \<open>nl_debug\<close> is set).
  \<^item> The capture loop and the blinker are interleaved by the relation \<open>net_step\<close>; a step is one
    critical section of the source, under the mutex of one table entry.

  The packet capture library is the environment \<open>pcap_env\<close>.
\<close>

section \<open>The table\<close>

datatype p2f_cb = P2f_icmp | P2f_udp | P2f_arp | P2f_nonip

record pcap_to_file =
  bpf_str :: string
  dest_file :: string
  cb :: p2f_cb
  blink_count :: nat

definition PF :: "string \<Rightarrow> string \<Rightarrow> p2f_cb \<Rightarrow> pcap_to_file" where
  "PF bpf file f = \<lparr>bpf_str = bpf, dest_file = file, cb = f, blink_count = 0\<rparr>"

definition p2f_static :: "pcap_to_file list" where
  "p2f_static =
     [PF ''icmp'' ''/tmp/netled.icmp'' P2f_icmp,
      PF ''udp'' ''/tmp/netled.udp'' P2f_udp,
      PF ''arp'' ''/tmp/netled.arp'' P2f_arp,
      PF ''(!ip)'' ''/tmp/netled.susp'' P2f_nonip]"

datatype message =
    Led_high string
  | Led_low string
  | Icmp_seen
  | Udp_seen
  | Arp_seen
  | Suspicious
  | Unprocessed
  | Pcap_error string
  | Stats nat nat

record netled =
  p2f :: "pcap_to_file list"
  nl_debug :: bool
  out :: "message list"

definition netled_static :: "bool \<Rightarrow> netled" where
  "netled_static debug = \<lparr>p2f = p2f_static, nl_debug = debug, out = []\<rparr>"

section \<open>Packets\<close>

record packet =
  caplen :: u32
  bytes :: "u8 list"

definition linkhdrlen :: nat where
  "linkhdrlen = 14"

definition bytes_at :: "packet \<Rightarrow> nat \<Rightarrow> nat \<Rightarrow> u8 list c_result" where
  "bytes_at pkt off n =
     (if off + n \<le> length (bytes pkt) then Inr (take n (drop off (bytes pkt))) else Inl OutOfBounds)"

text \<open>The fields of the IP header behind the link header, in the order in which they are read.\<close>

definition ip_proto :: "packet \<Rightarrow> u8 c_result" where
  "ip_proto pkt =
     sbind (bytes_at pkt (linkhdrlen + 12) 4) (\<lambda>ip_src.
     sbind (bytes_at pkt (linkhdrlen + 16) 4) (\<lambda>ip_dst.
     sbind (aget (bytes pkt) linkhdrlen) (\<lambda>ip_hl.
     aget (bytes pkt) (linkhdrlen + 9))))"

definition ether_type :: "packet \<Rightarrow> nat c_result" where
  "ether_type pkt =
     sbind (aget (bytes pkt) 12) (\<lambda>h. sbind (aget (bytes pkt) 13) (\<lambda>l. Inr (256 * unat h + unat l)))"

abbreviation (input) ETHERTYPE_IP :: nat where "ETHERTYPE_IP \<equiv> 0x0800"
abbreviation (input) ETHERTYPE_ARP :: nat where "ETHERTYPE_ARP \<equiv> 0x0806"
abbreviation (input) ETHERTYPE_IPV6 :: nat where "ETHERTYPE_IPV6 \<equiv> 0x86DD"

section \<open>Classification\<close>

text \<open>Each callback: its result, and the message it prints.\<close>

definition p2f_icmp :: "bool \<Rightarrow> packet \<Rightarrow> (bool \<times> message list) c_result" where
  "p2f_icmp debug pkt =
     sbind (ip_proto pkt)
       (\<lambda>p. Inr (if p = 1 then (True, if debug then [Icmp_seen] else []) else (False, [])))"

definition p2f_udp :: "bool \<Rightarrow> packet \<Rightarrow> (bool \<times> message list) c_result" where
  "p2f_udp debug pkt =
     sbind (ip_proto pkt)
       (\<lambda>p. Inr (if p = 17 then (True, if debug then [Udp_seen] else []) else (False, [])))"

definition p2f_arp :: "bool \<Rightarrow> packet \<Rightarrow> (bool \<times> message list) c_result" where
  "p2f_arp debug pkt =
     (if caplen pkt \<ge> 14 then
        sbind (ether_type pkt)
          (\<lambda>t. Inr (if t = ETHERTYPE_ARP then (True, if debug then [Arp_seen] else []) else (False, [])))
      else Inr (False, []))"

definition p2f_nonip :: "packet \<Rightarrow> (bool \<times> message list) c_result" where
  "p2f_nonip pkt =
     (if caplen pkt \<ge> 14 then
        sbind (ether_type pkt)
          (\<lambda>t. Inr (if t = ETHERTYPE_ARP \<or> t = ETHERTYPE_IP \<or> t = ETHERTYPE_IPV6 then (False, [])
                    else (True, [Suspicious])))
      else Inr (False, []))"

fun run_cb :: "p2f_cb \<Rightarrow> bool \<Rightarrow> packet \<Rightarrow> (bool \<times> message list) c_result" where
  "run_cb P2f_icmp debug pkt = p2f_icmp debug pkt"
| "run_cb P2f_udp debug pkt = p2f_udp debug pkt"
| "run_cb P2f_arp debug pkt = p2f_arp debug pkt"
| "run_cb P2f_nonip debug pkt = p2f_nonip pkt"

text \<open>The critical section of \<open>p2f_callbacks\<close>.\<close>

definition bump :: "pcap_to_file \<Rightarrow> pcap_to_file" where
  "bump e = (if blink_count e < 4 then e\<lparr>blink_count := blink_count e + 2\<rparr> else e)"

fun callbacks :: "bool \<Rightarrow> packet \<Rightarrow> pcap_to_file list \<Rightarrow> (bool \<times> pcap_to_file list \<times> message list) c_result" where
  "callbacks debug pkt [] = Inr (False, [], [])"
| "callbacks debug pkt (e # es) =
     sbind (run_cb (cb e) debug pkt) (\<lambda>(r, ms).
       if r then Inr (True, bump e # es, ms)
       else sbind (callbacks debug pkt es) (\<lambda>(r, es', ms'). Inr (r, e # es', ms @ ms')))"

definition p2f_callbacks :: "packet \<Rightarrow> netled \<Rightarrow> (bool \<times> netled) c_result" where
  "p2f_callbacks pkt st =
     sbind (callbacks (nl_debug st) pkt (p2f st))
       (\<lambda>(r, es, ms). Inr (r, st\<lparr>p2f := es, out := out st @ ms\<rparr>))"

definition parse_packet :: "packet \<Rightarrow> netled \<Rightarrow> netled c_result" where
  "parse_packet pkt st =
     sbind (p2f_callbacks pkt st)
       (\<lambda>(r, st). Inr (if r then st else st\<lparr>out := out st @ [Unprocessed]\<rparr>))"

section \<open>The blinker\<close>

text \<open>The body of the blinker's inner loop, for one table entry.\<close>

definition blink :: "bool \<Rightarrow> pcap_to_file \<Rightarrow> pcap_to_file \<times> message list" where
  "blink debug e =
     (if blink_count e \<noteq> 0 then
        (e\<lparr>blink_count := blink_count e - 1\<rparr>,
         if debug then
           (if blink_count e mod 2 = 0 then [Led_high (dest_file e)] else [Led_low (dest_file e)])
         else [])
      else (e, []))"

definition blink_entry :: "nat \<Rightarrow> netled \<Rightarrow> netled" where
  "blink_entry i st =
     (case blink (nl_debug st) (p2f st ! i) of
        (e, ms) \<Rightarrow> st\<lparr>p2f := (p2f st)[i := e], out := out st @ ms\<rparr>)"

definition blinker_pass :: "netled \<Rightarrow> netled" where
  "blinker_pass st = fold blink_entry [0..<length (p2f st)] st"

section \<open>The filter string\<close>

text \<open>\<open>snprintf (buf + pos, n, "%s", s)\<close> on an array.\<close>

definition snprintf_at :: "string \<Rightarrow> nat \<Rightarrow> nat \<Rightarrow> string \<Rightarrow> string" where
  "snprintf_at buf pos n s =
     (if n = 0 then buf
      else let w = take (n - 1) s @ [NUL] in take pos buf @ w @ drop (pos + length w) buf)"

definition link_str :: string where
  "link_str = '' or ''"

text \<open>The loop of \<open>build_bpf_str\<close>: the array and the sum of the lengths.\<close>

fun bpf_loop :: "nat \<Rightarrow> pcap_to_file list \<Rightarrow> nat \<Rightarrow> string \<Rightarrow> nat \<times> string" where
  "bpf_loop bufsiz [] siz buf = (siz, buf)"
| "bpf_loop bufsiz (e # es) siz buf =
     (if siz > bufsiz then (siz, buf)
      else let s = bpf_str e @ link_str
           in bpf_loop bufsiz es (siz + length s) (snprintf_at buf siz (bufsiz - siz) s))"

definition build_bpf_str :: "pcap_to_file list \<Rightarrow> string \<Rightarrow> nat \<Rightarrow> string c_result" where
  "build_bpf_str es buf bufsiz =
     (case bpf_loop bufsiz es 0 buf of
        (siz, buf) \<Rightarrow>
          sbind (if siz > length link_str + 1 then aset buf (siz - 4) NUL else Inr buf)
            (\<lambda>buf. if bufsiz = 0 then (if siz = 0 then Inl OutOfBounds else aset buf (siz - 1) NUL)
                   else aset buf siz NUL))"

section \<open>Capturing\<close>

record pcap_env =
  pcap_lookupdev :: "string option"
  pcap_open_live :: "string \<Rightarrow> bool"
  pcap_lookupnet :: "string \<Rightarrow> int"
  pcap_compile :: "string \<Rightarrow> int"
  pcap_setfilter :: int
  pcap_datalink :: int
  pcap_stats :: "(nat \<times> nat) option"
  pcap_packets :: "packet list"  \<comment> \<open>what \<open>pcap_loop\<close> hands to the handler\<close>
  pcap_loop_ret :: int

definition open_pcap_socket :: "pcap_env \<Rightarrow> string \<Rightarrow> string \<Rightarrow> message + string" where
  "open_pcap_socket env device bpfstr =
     (case (if device = [] then pcap_lookupdev env else Some device) of
        None \<Rightarrow> Inl (Pcap_error ''pcap_lookupdev'')
      | Some dev \<Rightarrow>
          if \<not> pcap_open_live env dev then Inl (Pcap_error ''pcap_open_live'')
          else if pcap_lookupnet env dev < 0 then Inl (Pcap_error ''pcap_lookupnet'')
          else if pcap_compile env bpfstr \<noteq> 0 then Inl (Pcap_error ''pcap_compile'')
          else if pcap_setfilter env < 0 then Inl (Pcap_error ''pcap_setfilter'')
          else Inr dev)"

abbreviation (input) DLT_EN10MB :: int where "DLT_EN10MB \<equiv> 1"

definition say :: "message \<Rightarrow> netled \<Rightarrow> netled" where
  "say m st = st\<lparr>out := out st @ [m]\<rparr>"

definition capture_loop :: "pcap_env \<Rightarrow> netled \<Rightarrow> netled c_result" where
  "capture_loop env st =
     (if pcap_datalink env < 0 then Inr (say (Pcap_error ''pcap_datalink'') st)
      else if pcap_datalink env \<noteq> DLT_EN10MB then Inr (say (Pcap_error ''Unsupported datalink'') st)
      else sbind (sfoldM parse_packet (pcap_packets env) st)
             (\<lambda>st. Inr (if pcap_loop_ret env < 0 then say (Pcap_error ''pcap_loop'') st else st)))"

definition bailout :: "pcap_env \<Rightarrow> bool \<Rightarrow> netled \<Rightarrow> netled" where
  "bailout env opened st =
     (if opened then
        case pcap_stats env of None \<Rightarrow> st | Some (recv, drp) \<Rightarrow> say (Stats recv drp) st
      else st)"

text \<open>
  The option loop of \<open>main\<close>: \<open>None\<close> is the exit after the help text; \<open>strcpy\<close> into the 32 bytes of
  \<open>interface\<close> is not bounded.
\<close>

fun netled_options :: "(char \<times> string) list \<Rightarrow> string \<Rightarrow> string option c_result" where
  "netled_options [] ifc = Inr (Some ifc)"
| "netled_options ((c, a) # os) ifc =
     (if c = CHR ''h'' then Inr None
      else if c = CHR ''i'' then
        (if length a < 32 then netled_options os a else Inl OutOfBounds)
      else netled_options os ifc)"

text \<open>\<open>main\<close> without the blinker thread; the result is the state at the exit.\<close>

definition netled_main :: "pcap_env \<Rightarrow> string list \<Rightarrow> netled \<Rightarrow> netled c_result" where
  "netled_main env args st =
     sbind (netled_options (getopt ''hi:n:'' args) [])
       (\<lambda>i. case i of
              None \<Rightarrow> Inr st
            | Some ifc \<Rightarrow>
                sbind (build_bpf_str (p2f st) (replicate 256 NUL) 256) (\<lambda>bpf.
                case open_pcap_socket env ifc (cstr bpf) of
                  Inl m \<Rightarrow> Inr (say m st)
                | Inr dev \<Rightarrow> sbind (capture_loop env st) (\<lambda>st. Inr (bailout env True st))))"

section \<open>Interleaving\<close>

text \<open>
  The capture loop handles a packet, or the blinker thread moves one entry on.  The handlers read
  nothing that the blinker writes, so that the packet's only access to shared data is its
  critical section.
\<close>

record net_sys =
  nl :: netled
  pos :: nat

inductive net_step :: "net_sys \<Rightarrow> net_sys \<Rightarrow> bool" where
  packet: "parse_packet pkt (nl s) = Inr st' \<Longrightarrow> net_step s (s\<lparr>nl := st'\<rparr>)"
| blinker: "pos s < length (p2f (nl s)) \<Longrightarrow>
     net_step s (s\<lparr>nl := blink_entry (pos s) (nl s), pos := pos s + 1\<rparr>)"
| around: "pos s = length (p2f (nl s)) \<Longrightarrow> net_step s (s\<lparr>pos := 0\<rparr>)"

inductive net_reachable :: "bool \<Rightarrow> net_sys \<Rightarrow> bool" for debug where
  start: "net_reachable debug \<lparr>nl = netled_static debug, pos = 0\<rparr>"
| step: "net_reachable debug s \<Longrightarrow> net_step s t \<Longrightarrow> net_reachable debug t"

inductive_cases net_stepE: "net_step s t"

section \<open>Facts on the counters\<close>

text \<open>The last thing the debug output said of an LED.\<close>

fun led_step :: "string \<Rightarrow> bool \<Rightarrow> message \<Rightarrow> bool" where
  "led_step f on (Led_high g) = (if g = f then True else on)"
| "led_step f on (Led_low g) = (if g = f then False else on)"
| "led_step f on m = on"

definition led_on :: "message list \<Rightarrow> string \<Rightarrow> bool" where
  "led_on ms f = foldl (led_step f) False ms"

text \<open>
  The invariant: the table keeps its files, no counter exceeds five, and in the debug build an LED
  is on exactly if its counter is odd.
\<close>

definition files :: "pcap_to_file list \<Rightarrow> string list" where
  "files es = map dest_file es"

definition blink_inv :: "netled \<Rightarrow> bool" where
  "blink_inv st \<longleftrightarrow>
     distinct (files (p2f st)) \<and>
     (\<forall>e \<in> set (p2f st). blink_count e \<le> 5 \<and>
        (nl_debug st \<longrightarrow> (led_on (out st) (dest_file e) \<longleftrightarrow> odd (blink_count e))))"

lemma led_on_append: "led_on (ms @ ms') f = foldl (led_step f) (led_on ms f) ms'"
  by (simp add: led_on_def)

definition no_led :: "message list \<Rightarrow> bool" where
  "no_led ms \<longleftrightarrow> (\<forall>m \<in> set ms. \<forall>f. m \<noteq> Led_high f \<and> m \<noteq> Led_low f)"

lemma no_led_foldl: "no_led ms \<Longrightarrow> foldl (led_step f) on ms = on"
proof (induction ms arbitrary: on)
  case (Cons m ms)
  then show ?case by (cases m) (auto simp: no_led_def)
qed simp

lemma run_cb_no_led: "run_cb c debug pkt = Inr (r, ms) \<Longrightarrow> no_led ms"
  by (cases c)
    (auto simp: p2f_icmp_def p2f_udp_def p2f_arp_def p2f_nonip_def no_led_def sbind_Inr_iff split: if_splits)

lemma bump_file [simp]: "dest_file (bump e) = dest_file e"
  by (simp add: bump_def)

lemma bump_count: "blink_count e \<le> 5 \<Longrightarrow> blink_count (bump e) \<le> 5"
  by (simp add: bump_def)

lemma bump_parity: "odd (blink_count (bump e)) \<longleftrightarrow> odd (blink_count e)"
  by (simp add: bump_def)

lemma callbacks_facts:
  assumes "callbacks debug pkt es = Inr (r, es', ms)"
  shows "no_led ms \<and> files es' = files es \<and>
         (\<forall>e' \<in> set es'. \<exists>e \<in> set es. e' = e \<or> e' = bump e)"
  using assms
proof (induction es arbitrary: r es' ms)
  case Nil
  then show ?case by (simp add: no_led_def files_def)
next
  case (Cons e es)
  then obtain r1 ms1 where cb: "run_cb (cb e) debug pkt = Inr (r1, ms1)"
    by (auto simp: sbind_Inr_iff)
  show ?case
  proof (cases r1)
    case True
    with Cons.prems cb show ?thesis by (auto simp: files_def dest: run_cb_no_led)
  next
    case False
    with Cons.prems cb obtain es1 ms2 where "callbacks debug pkt es = Inr (r, es1, ms2)"
        "es' = e # es1" "ms = ms1 @ ms2"
      by (auto simp: sbind_Inr_iff)
    with Cons.IH [of r es1 ms2] run_cb_no_led [OF cb] show ?thesis
      by (auto simp: files_def no_led_def)
  qed
qed

lemma parse_packet_inv:
  assumes "blink_inv st" "parse_packet pkt st = Inr st'"
  shows "blink_inv st' \<and> nl_debug st' = nl_debug st \<and> files (p2f st') = files (p2f st)"
proof -
  obtain r es ms where cbs: "callbacks (nl_debug st) pkt (p2f st) = Inr (r, es, ms)"
    using assms(2) by (auto simp: parse_packet_def p2f_callbacks_def sbind_Inr_iff)
  have eq: "st' = st\<lparr>p2f := es, out := out st @ ms @ (if r then [] else [Unprocessed])\<rparr>"
    using assms(2) cbs by (simp add: parse_packet_def p2f_callbacks_def split: if_splits)
  have quiet: "no_led (if r then [] else [Unprocessed])" by (simp add: no_led_def)
  from callbacks_facts [OF cbs] have f: "no_led ms" "files es = files (p2f st)"
      "\<forall>e' \<in> set es. \<exists>e \<in> set (p2f st). e' = e \<or> e' = bump e"
    by auto
  have led: "led_on (out st') f = led_on (out st) f" for f
    by (simp add: eq led_on_append no_led_foldl [OF f(1)] no_led_foldl [OF quiet] del: if_split)
  have "blink_count e' \<le> 5 \<and> (nl_debug st \<longrightarrow> (led_on (out st) (dest_file e') \<longleftrightarrow> odd (blink_count e')))"
    if e': "e' \<in> set es" for e'
  proof -
    from f(3) e' obtain e where "e \<in> set (p2f st)" "e' = e \<or> e' = bump e" by blast
    moreover from this(1) assms(1) have "blink_count e \<le> 5 \<and>
        (nl_debug st \<longrightarrow> (led_on (out st) (dest_file e) \<longleftrightarrow> odd (blink_count e)))"
      by (simp add: blink_inv_def)
    ultimately show ?thesis
      using bump_count [of e] bump_parity [of e] by auto
  qed
  moreover have "p2f st' = es" "nl_debug st' = nl_debug st" by (simp_all add: eq)
  ultimately show ?thesis using assms(1) f(2) by (simp add: blink_inv_def led)
qed

lemma blink_entry_inv:
  assumes "blink_inv st" "i < length (p2f st)"
  shows "blink_inv (blink_entry i st) \<and> nl_debug (blink_entry i st) = nl_debug st \<and>
         files (p2f (blink_entry i st)) = files (p2f st)"
proof -
  let ?e = "p2f st ! i"
  obtain e' ms where b: "blink (nl_debug st) ?e = (e', ms)" by fastforce
  have e': "dest_file e' = dest_file ?e" "blink_count e' = blink_count ?e - 1"
    using b by (auto simp: blink_def split: if_splits)
  have files: "files ((p2f st)[i := e']) = files (p2f st)"
    using assms(2) e'(1) by (auto simp: files_def list_eq_iff_nth_eq nth_list_update)
  have other: "dest_file e \<noteq> dest_file ?e" if "e = p2f st ! j" "j < length (p2f st)" "j \<noteq> i" for e j
    using that assms by (auto simp: blink_inv_def files_def distinct_conv_nth)
  have same: "led_on (out st @ ms) f = led_on (out st) f" if "f \<noteq> dest_file ?e" for f
    using b that by (auto simp: led_on_append blink_def split: if_splits)
  have mine: "led_on (out st @ ms) (dest_file ?e) \<longleftrightarrow> odd (blink_count e')" if "nl_debug st"
  proof -
    have "?e \<in> set (p2f st)" using assms(2) by simp
    with assms(1) that have "led_on (out st) (dest_file ?e) \<longleftrightarrow> odd (blink_count ?e)"
      by (auto simp: blink_inv_def)
    with b that show ?thesis
      by (auto simp: blink_def led_on_append even_iff_mod_2_eq_zero [symmetric] split: if_splits)
  qed
  have "blink_count e \<le> 5 \<and> (nl_debug st \<longrightarrow> (led_on (out st @ ms) (dest_file e) \<longleftrightarrow> odd (blink_count e)))"
    if mem: "e \<in> set ((p2f st)[i := e'])" for e
  proof -
    from mem obtain j where j: "j < length (p2f st)" "e = (if j = i then e' else p2f st ! j)"
      by (auto simp: in_set_conv_nth nth_list_update)
    have in_set: "p2f st ! j \<in> set (p2f st)" using j(1) by simp
    show ?thesis
    proof (cases "j = i")
      case True
      from in_set assms(1) True have "blink_count ?e \<le> 5" by (simp add: blink_inv_def)
      with True j mine e' show ?thesis by simp
    next
      case False
      with j in_set assms(1) same [OF other [OF _ j(1) False]] show ?thesis by (auto simp: blink_inv_def)
    qed
  qed
  with assms(1) files show ?thesis by (simp add: blink_entry_def b blink_inv_def)
qed

text \<open>The table's files are distinct and fixed, and every step keeps the invariant.\<close>

definition net_inv :: "net_sys \<Rightarrow> bool" where
  "net_inv s \<longleftrightarrow> blink_inv (nl s) \<and> files (p2f (nl s)) = files p2f_static \<and> pos s \<le> length (p2f (nl s))"

lemma files_length: "files es = files es' \<Longrightarrow> length es = length es'"
  by (auto simp: files_def dest: map_eq_imp_length_eq)

lemma net_step_inv:
  assumes "net_step s t" "net_inv s"
  shows "net_inv t \<and> nl_debug (nl t) = nl_debug (nl s)"
  using assms
proof (cases rule: net_step.cases)
  case (packet pkt st')
  with assms(2) parse_packet_inv [of "nl s" pkt st'] files_length [of "p2f st'" "p2f (nl s)"]
  show ?thesis by (simp add: net_inv_def)
next
  case blinker
  with assms(2) blink_entry_inv [of "nl s" "pos s"]
    files_length [of "p2f (blink_entry (pos s) (nl s))" "p2f (nl s)"]
  show ?thesis by (simp add: net_inv_def)
next
  case around
  with assms(2) show ?thesis by (simp add: net_inv_def)
qed

lemma net_reachable_inv: "net_reachable debug s \<Longrightarrow> net_inv s \<and> nl_debug (nl s) = debug"
proof (induction rule: net_reachable.induct)
  case start
  show ?case
    by (simp add: net_inv_def blink_inv_def netled_static_def p2f_static_def PF_def files_def led_on_def)
next
  case (step s t)
  with net_step_inv [of s t] show ?case by simp
qed

section \<open>A pass of the blinker\<close>

lemma blink_count_same [simp]: "blink_count e = n \<Longrightarrow> e\<lparr>blink_count := n\<rparr> = e"
  by (cases e) simp

lemma blink_entry_p2f:
  "p2f (blink_entry i st) = (p2f st)[i := (p2f st ! i)\<lparr>blink_count := blink_count (p2f st ! i) - 1\<rparr>]"
  by (cases "blink_count (p2f st ! i)") (simp_all add: blink_entry_def blink_def)

definition drain :: "nat \<Rightarrow> pcap_to_file \<Rightarrow> pcap_to_file" where
  "drain n e = e\<lparr>blink_count := blink_count e - n\<rparr>"

lemma drain_add [simp]: "drain m (drain n e) = drain (n + m) e"
  by (simp add: drain_def)

lemma drain_0 [simp]: "drain 0 e = e"
  by (simp add: drain_def)

lemma fold_blink_entry:
  "k \<le> length (p2f st) \<Longrightarrow>
   p2f (fold blink_entry [0..<k] st) = map (drain 1) (take k (p2f st)) @ drop k (p2f st)"
proof (induction k)
  case (Suc k)
  then show ?case
    by (simp add: blink_entry_p2f nth_append list_update_append take_Suc_conv_app_nth drain_def
        Cons_nth_drop_Suc [symmetric] list_update_code)
qed simp

lemma blinker_pass_p2f: "p2f (blinker_pass st) = map (drain 1) (p2f st)"
  by (simp add: blinker_pass_def fold_blink_entry)

lemma blinker_passes_p2f: "p2f ((blinker_pass ^^ n) st) = map (drain n) (p2f st)"
  by (induction n) (simp_all add: blinker_pass_p2f o_def)

section \<open>The properties\<close>

text \<open>
  The class of a packet whose headers were all captured, as the chain of callbacks computes it: the
  first table entry whose callback accepts.
\<close>

definition ip_proto_byte :: "packet \<Rightarrow> u8" where
  "ip_proto_byte pkt = bytes pkt ! 23"

definition ether_type_of :: "packet \<Rightarrow> nat" where
  "ether_type_of pkt = 256 * unat (bytes pkt ! 12) + unat (bytes pkt ! 13)"

definition entry_of :: "packet \<Rightarrow> nat option" where
  "entry_of pkt =
     (if ip_proto_byte pkt = 1 then Some 0
      else if ip_proto_byte pkt = 17 then Some 1
      else if ether_type_of pkt = ETHERTYPE_ARP then Some 2
      else if ether_type_of pkt \<noteq> ETHERTYPE_IP \<and> ether_type_of pkt \<noteq> ETHERTYPE_IPV6 then Some 3
      else None)"

text \<open>What the callback of an entry prints when it accepts.\<close>

definition said :: "bool \<Rightarrow> nat \<Rightarrow> message list" where
  "said debug i =
     (if i = 3 then [Suspicious]
      else if debug then [if i = 0 then Icmp_seen else if i = 1 then Udp_seen else Arp_seen] else [])"

definition Packet :: "u32 \<Rightarrow> u8 list \<Rightarrow> packet" where
  "Packet n bs = \<lparr>caplen = n, bytes = bs\<rparr>"

lemma p2f_same: "p2f st = es \<Longrightarrow> st\<lparr>p2f := es\<rparr> = st"
  by (cases st) simp

lemma out_same [simp]: "st\<lparr>out := out st\<rparr> = st"
  by (cases st) simp

text \<open>The headers that the callbacks read were captured.\<close>

definition captured :: "packet \<Rightarrow> bool" where
  "captured pkt \<longleftrightarrow> 34 \<le> length (bytes pkt) \<and> unat (caplen pkt) = length (bytes pkt)"

lemma ip_proto_captured: "captured pkt \<Longrightarrow> ip_proto pkt = Inr (ip_proto_byte pkt)"
  by (simp add: ip_proto_def bytes_at_def captured_def aget_def ip_proto_byte_def linkhdrlen_def)

lemma ip_proto_short: "length (bytes pkt) < 34 \<Longrightarrow> ip_proto pkt = Inl OutOfBounds"
  by (simp add: ip_proto_def bytes_at_def linkhdrlen_def)

lemma ether_type_captured: "captured pkt \<Longrightarrow> ether_type pkt = Inr (ether_type_of pkt)"
  by (simp add: ether_type_def captured_def aget_def ether_type_of_def)

lemma captured_caplen: "captured pkt \<Longrightarrow> 14 \<le> caplen pkt"
  by (simp add: captured_def word_le_nat_alt)

text \<open>The entries of a table with the program's callbacks.\<close>

definition std_table :: "pcap_to_file list \<Rightarrow> bool" where
  "std_table es \<longleftrightarrow> map cb es = [P2f_icmp, P2f_udp, P2f_arp, P2f_nonip]"

lemma std_table_static: "std_table p2f_static"
  by (simp add: std_table_def p2f_static_def PF_def)

lemma std_table_cases:
  assumes "std_table es"
  obtains a b c d where "es = [a, b, c, d]" "cb a = P2f_icmp" "cb b = P2f_udp" "cb c = P2f_arp"
    "cb d = P2f_nonip"
  using assms by (auto simp: std_table_def map_eq_Cons_conv)



text \<open>the first two callbacks take their byte of the IP header whatever the frame's type is: for an
  ARP frame it is the second byte of the sender's hardware address, so that the requests of a host
  whose address has the byte one there are counted, and shown, as ICMP and never as ARP.\<close>

theorem arp_counted_as_icmp:
  assumes "captured pkt" "ether_type_of pkt = ETHERTYPE_ARP" "bytes pkt ! 23 = 1" "std_table (p2f st)"
  shows "p2f_callbacks pkt st =
    Inr (True, st\<lparr>p2f := (p2f st)[0 := bump (p2f st ! 0)], out := out st @ said (nl_debug st) 0\<rparr>) \<and>
    length (drop 22 (take 28 (bytes pkt))) = 6"
proof -
  obtain a b c d where es: "p2f st = [a, b, c, d]" "cb a = P2f_icmp" "cb b = P2f_udp" "cb c = P2f_arp"
      "cb d = P2f_nonip"
    using assms(4) by (rule std_table_cases)
  show ?thesis
    using assms(1,3)
    by (simp add: p2f_callbacks_def es p2f_icmp_def ip_proto_captured ip_proto_byte_def said_def captured_def)
qed

lemma arp_counted_as_icmp_witness:
  "\<exists>pkt. captured pkt \<and> ether_type_of pkt = ETHERTYPE_ARP \<and>
     p2f_callbacks pkt (netled_static False) =
       Inr (True, netled_static False\<lparr>p2f := p2f_static[0 := (p2f_static ! 0)\<lparr>blink_count := 2\<rparr>]\<rparr>)"
proof -
  let ?pkt = "Packet 42 (replicate 12 0 @ [8, 6] @ replicate 9 0 @ [1] @ replicate 18 0)"
  have c: "captured ?pkt" by (simp add: captured_def Packet_def)
  have t: "ether_type_of ?pkt = ETHERTYPE_ARP" by (simp add: ether_type_of_def Packet_def nth_append)
  have o: "bytes ?pkt ! 23 = 1" by (simp add: Packet_def nth_append)
  have "std_table (p2f (netled_static False))" by (simp add: netled_static_def std_table_static)
  from arp_counted_as_icmp [OF c t o this] c t show ?thesis
    by (intro exI [of _ ?pkt]) (simp add: netled_static_def p2f_static_def PF_def bump_def said_def)
qed

text \<open>a frame of fewer than 34 captured bytes makes the first callback read behind the packet's
  buffer, whatever the rest of the program's state: \<open>caplen\<close> guards only the link header, and only in
  the last two callbacks.\<close>

theorem short_frame_overreads:
  assumes "length (bytes pkt) < 34" "std_table (p2f st)"
  shows "p2f_callbacks pkt st = Inl OutOfBounds"
proof -
  obtain a b c d where es: "p2f st = [a, b, c, d]" "cb a = P2f_icmp" "cb b = P2f_udp" "cb c = P2f_arp"
      "cb d = P2f_nonip"
    using assms(2) by (rule std_table_cases)
  show ?thesis by (simp add: p2f_callbacks_def es p2f_icmp_def ip_proto_short [OF assms(1)])
qed

lemma short_frame_overreads_witness:
  "p2f_callbacks (Packet 20 (replicate 20 0)) (netled_static True) = Inl OutOfBounds"
  by (rule short_frame_overreads) (simp_all add: Packet_def netled_static_def std_table_static)



text \<open>C40: without further packets, five passes of the blinker after any reachable state have every
  counter at zero, and each pass has decremented the counters by at most one.\<close>

theorem blinker_drains:
  assumes "net_reachable debug s"
  shows "(\<forall>e \<in> set (p2f ((blinker_pass ^^ 5) (nl s))). blink_count e = 0) \<and>
    map blink_count (p2f (blinker_pass (nl s))) = map (\<lambda>e. blink_count e - 1) (p2f (nl s))"
  using net_reachable_inv [OF assms]
  by (auto simp: blinker_passes_p2f blinker_pass_p2f drain_def net_inv_def blink_inv_def)

lemma blinker_drains_witness:
  "list_all (\<lambda>e. blink_count e = 0) (p2f ((blinker_pass ^^ 5) (netled_static True)))"
  using blinker_drains [OF net_reachable.start [of True]] by (simp add: list_all_iff)

text \<open>the filter string of the table is the disjunction of the four filters, in the whole of the
  256 bytes that \<open>main\<close> provides.\<close>

theorem build_bpf_str_static:
  "\<exists>buf. build_bpf_str p2f_static (replicate 256 NUL) 256 = Inr buf \<and> length buf = 256 \<and>
     cstr buf = ''icmp or udp or arp or (!ip)''"
proof -
  let ?s = "''icmp or udp or arp or (!ip) or ''"
  have "bpf_loop 256 p2f_static 0 (replicate 256 NUL) = (31, ?s @ NUL # replicate 224 NUL)"
    by (simp add: p2f_static_def PF_def link_str_def snprintf_at_def Let_def replicate_append_same)
  then show ?thesis
    by (simp add: build_bpf_str_def link_str_def aset_def cstr_def)
qed

text \<open>The name of the interface is copied without a bound.\<close>

lemma netled_interface_overflow:
  "32 \<le> length a \<Longrightarrow> netled_options ((CHR ''i'', a) # os) ifc = Inl OutOfBounds"
  by simp

end
