(* ===== verification/Iralarmd.thy ===== *)
theory Iralarmd
  imports Irshmem Irthread Irpio
begin

unbundle bit_operations_syntax

text \<open>
  The alarm daemon while it runs (\<open>iralarm/iralarmd.c\<close>): the interrupt handler that counts
  flanks, the main loop with the alarm's state machine, the callbacks of the two threads, and the
  signal handler.

  \<^item> State: the static variables of the source under their names, and the components it uses: the
    thread table, the shared segment, the pins, the semaphore's value.  What the daemon tells the
    outside (emergency log, messages, the camera) is the list \<open>d_out\<close>.
  \<^item> An iteration of the main loop is \<open>loop_body\<close>; the signals are blocked during it, so that signals,
    interrupts and threads come between iterations.  \<open>d_step\<close> is one such input; a run is a fold.
  \<^item> Facts: what each operation does, and the invariant \<open>daemon_ok\<close>, under which none goes wrong.

  The build is the one of \<open>config.h\<close>: \<open>NO_DEBUG\<close> and \<open>ENABLE_RASPICAM\<close> are defined; whether \<open>DO_XMPP\<close>
  is defined is the field \<open>do_xmpp\<close>.
\<close>

section \<open>Data\<close>

datatype alrm_state = ALRM_NONE | ALRM_PREACTIVE | ALRM_ACTIVE

fun alrm_num :: "alrm_state \<Rightarrow> nat" where
  "alrm_num ALRM_NONE = 0"
| "alrm_num ALRM_PREACTIVE = 1"
| "alrm_num ALRM_ACTIVE = 2"

definition alrm_code :: "alrm_state \<Rightarrow> u32" where
  "alrm_code a = of_nat (alrm_num a)"

lemma alrm_num_inj: "alrm_num a = alrm_num b \<Longrightarrow> a = b"
  by (cases a; cases b; simp)

instantiation alrm_state :: linorder
begin

definition less_eq_alrm_state :: "alrm_state \<Rightarrow> alrm_state \<Rightarrow> bool" where
  "less_eq_alrm_state a b \<longleftrightarrow> alrm_num a \<le> alrm_num b"

definition less_alrm_state :: "alrm_state \<Rightarrow> alrm_state \<Rightarrow> bool" where
  "less_alrm_state a b \<longleftrightarrow> alrm_num a < alrm_num b"

instance
  by standard (auto simp: less_eq_alrm_state_def less_alrm_state_def dest: alrm_num_inj)

end

datatype thread_cb = Status_led | Alarm_thread

datatype signum = SIGKILL | SIGSEGV | SIGALRM | SIGTERM | SIGINT | SIGHUP

datatype d_event =
    Emerg_alarm int u32 u32 u32 u32 \<comment> \<open>start; received, wanted, cycles with and without enough\<close>
  | Emerg_stopped int int u32 u32 u32 u32 \<comment> \<open>stop, duration; received, wanted, cycles\<close>
  | Xmpp_alarm int u32 u32 u32 u32
  | Spawn_raspivid
  | Main_sleep u32
  | Got_signal signum
  | Shm_removed int
  | Sem_removed int
  | Xmpp_stopped

record iralarmd =
  ir_recvd :: u32
  ir_recvd_cycls :: u32
  ir_alrm_cycls :: u32
  astate :: alrm_state
  ir_alrm_start :: int
  ir_minrecvd :: u32
  ir_minalarm :: u32
  ir_rstalarm :: u32
  s_aactive :: u8
  s_speaker :: u8
  s_astate :: "nat option"
  s_xmpp :: u8
  s_video :: u8
  s_mainloop :: u32
  s_statusled_on :: u32
  s_statusled_off :: u32
  thrd_alarm :: int
  thrd_status :: int
  sem_id :: int
  do_xmpp :: bool
  thrds :: "thread_cb thrds"
  shm :: irshmem
  seg :: seg
  pio :: irpio
  semval :: nat
  d_out :: "d_event list"
  exited :: "int option"

abbreviation (input) MIN_IRCVD :: u32 where "MIN_IRCVD \<equiv> 8"
abbreviation (input) MIN_ALRMS :: u32 where "MIN_ALRMS \<equiv> 2"
abbreviation (input) MIN_ALRST :: u32 where "MIN_ALRST \<equiv> 15"
abbreviation (input) MAINLOOP_SLEEP_DEFAULT :: u32 where "MAINLOOP_SLEEP_DEFAULT \<equiv> 100000"

text \<open>The static initialisation, in a segment of one page.\<close>

definition iralarmd_static :: "bool \<Rightarrow> iralarmd" where
  "iralarmd_static xmpp =
     \<lparr>ir_recvd = 0, ir_recvd_cycls = 0, ir_alrm_cycls = 0, astate = ALRM_NONE, ir_alrm_start = 0,
      ir_minrecvd = MIN_IRCVD, ir_minalarm = MIN_ALRMS, ir_rstalarm = MIN_ALRST,
      s_aactive = 1, s_speaker = 0, s_astate = None, s_xmpp = (if xmpp then 1 else -1), s_video = 0,
      s_mainloop = MAINLOOP_SLEEP_DEFAULT, s_statusled_on = 50000, s_statusled_off = 1000000,
      thrd_alarm = 0, thrd_status = 0, sem_id = 0, do_xmpp = xmpp, thrds = thrds_static,
      shm = irshmem_static, seg = replicate 4096 0, pio = irpio_static, semval = 0, d_out = [],
      exited = None\<rparr>"

definition emit :: "d_event \<Rightarrow> iralarmd \<Rightarrow> iralarmd" where
  "emit e st = st\<lparr>d_out := d_out st @ [e]\<rparr>"

section \<open>The semaphore and the interrupt handler\<close>

text \<open>
  The two elements of \<open>sops\<close>.  Every holder of the semaphore gives it back within its own atomic
  operation here, so that waiting at zero is waiting forever.
\<close>

definition sem_wait :: "iralarmd \<Rightarrow> iralarmd c_result" where
  "sem_wait st = (if semval st = 0 then Inl Hangs else Inr (st\<lparr>semval := semval st - 1\<rparr>))"

definition sem_post :: "iralarmd \<Rightarrow> iralarmd" where
  "sem_post st = st\<lparr>semval := semval st + 1\<rparr>"

definition ir_flank :: "iralarmd \<Rightarrow> iralarmd c_result" where
  "ir_flank st = sbind (sem_wait st) (\<lambda>st. Inr (sem_post (st\<lparr>ir_recvd := ir_recvd st + 1\<rparr>)))"

section \<open>The main loop\<close>

text \<open>The times that an iteration reads: at the test or the start of an alarm, and at its end.\<close>

record tick =
  t_now :: int
  t_stop :: int

definition diffTimeWithNow :: "int \<Rightarrow> int \<Rightarrow> int \<Rightarrow> int" where
  "diffTimeWithNow now start difft = (if now - start > difft then 1 else 0)"

definition doAlarmAction :: "iralarmd \<Rightarrow> iralarmd" where
  "doAlarmAction st =
     (let st1 = emit (Emerg_alarm (ir_alrm_start st) (ir_recvd st) (ir_minrecvd st)
                        (ir_recvd_cycls st) (ir_alrm_cycls st)) st;
          st2 = (if do_xmpp st1 \<and> 0 <s s_xmpp st1
                 then emit (Xmpp_alarm (ir_alrm_start st1) (ir_recvd st1) (ir_minrecvd st1)
                              (ir_recvd_cycls st1) (ir_alrm_cycls st1)) st1 else st1)
      in if s_video st2 > 0 then emit Spawn_raspivid st2 else st2)"

definition undoAlarmAction :: "int \<Rightarrow> iralarmd \<Rightarrow> iralarmd" where
  "undoAlarmAction stop st =
     emit (Emerg_stopped stop (stop - ir_alrm_start st) (ir_recvd st) (ir_rstalarm st)
             (ir_recvd_cycls st) (ir_alrm_cycls st)) st"

definition count_cycle :: "iralarmd \<Rightarrow> iralarmd" where
  "count_cycle st =
     (if ir_recvd st < ir_minrecvd st then st\<lparr>ir_alrm_cycls := ir_alrm_cycls st + 1\<rparr>
      else
        let st1 = st\<lparr>ir_recvd_cycls := ir_recvd_cycls st + 1\<rparr>
        in if ir_alrm_cycls st1 > 0 then st1\<lparr>ir_alrm_cycls := ir_alrm_cycls st1 - 1\<rparr> else st1)"

text \<open>\<open>*s_astate = astate\<close>\<close>

definition publish_state :: "iralarmd \<Rightarrow> iralarmd c_result" where
  "publish_state st =
     (case s_astate st of
        None \<Rightarrow> Inl NullDeref
      | Some p \<Rightarrow>
          sbind (store (shmro (shm st)) 1 p (alrm_num (astate st)) (seg st))
            (\<lambda>s. Inr (st\<lparr>seg := s\<rparr>)))"

text \<open>The two calls of \<open>irthread_setdata\<close>, and the resuming of the alarm's thread.\<close>

definition set_thread_data :: "iralarmd \<Rightarrow> iralarmd c_result" where
  "set_thread_data st =
     sbind (sbind (irthread_setdata (thrd_alarm st) (alrm_code (astate st)) (thrds st))
              (irthread_setdata (thrd_status st) (alrm_code (astate st))))
       (\<lambda>ts. Inr (st\<lparr>thrds := ts\<rparr>))"

definition resume_alarm :: "pthread_env \<Rightarrow> iralarmd \<Rightarrow> iralarmd c_result" where
  "resume_alarm pe st =
     sbind (irthread_resume pe (thrd_alarm st) (thrds st)) (\<lambda>(_, ts). Inr (st\<lparr>thrds := ts\<rparr>))"

definition enter_none :: "tick \<Rightarrow> iralarmd \<Rightarrow> iralarmd c_result" where
  "enter_none tk st =
     sbind (set_thread_data (st\<lparr>astate := ALRM_NONE\<rparr>))
       (\<lambda>st. Inr ((undoAlarmAction (t_stop tk) st)\<lparr>ir_alrm_cycls := 0\<rparr>))"

fun alarm_switch :: "pthread_env \<Rightarrow> tick \<Rightarrow> alrm_state \<Rightarrow> iralarmd \<Rightarrow> iralarmd c_result" where
  "alarm_switch pe tk ALRM_NONE st =
     (if ir_alrm_cycls st > ir_minalarm st then
        let st1 = doAlarmAction (st\<lparr>ir_alrm_start := t_now tk\<rparr>);
            st2 = st1\<lparr>ir_recvd_cycls := 0, astate := ALRM_PREACTIVE\<rparr>
        in sbind (set_thread_data st2) (resume_alarm pe)
      else Inr st)"
| "alarm_switch pe tk ALRM_PREACTIVE st =
     (if diffTimeWithNow (t_now tk) (ir_alrm_start st) 10 = 1 then
        set_thread_data (st\<lparr>ir_recvd_cycls := 0, astate := ALRM_ACTIVE\<rparr>)
      else if ir_recvd_cycls st > ir_rstalarm st then enter_none tk st
      else Inr st)"
| "alarm_switch pe tk ALRM_ACTIVE st =
     (if ir_recvd_cycls st > ir_rstalarm st then enter_none tk st else Inr st)"

definition loop_body :: "pthread_env \<Rightarrow> tick \<Rightarrow> iralarmd \<Rightarrow> iralarmd c_result" where
  "loop_body pe tk st =
     sbind (sem_wait (emit (Main_sleep (s_mainloop st)) st)) (\<lambda>st.
     sbind (publish_state (count_cycle st)) (\<lambda>st.
     sbind (alarm_switch pe tk (astate st) st) (\<lambda>st.
     Inr (sem_post (st\<lparr>ir_recvd := 0\<rparr>)))))"

section \<open>The threads' callbacks\<close>

definition write_sleep :: "pinout \<Rightarrow> u32 \<Rightarrow> u32 \<Rightarrow> irpio \<Rightarrow> irpio c_result" where
  "write_sleep p v us io = sbind (irpio_digitalWrite (irpio_getpin p) v io) (usleep us)"

definition status_pins :: "u32 \<Rightarrow> u32 \<Rightarrow> u32 \<Rightarrow> irpio \<Rightarrow> irpio c_result" where
  "status_pins dat on off io =
     (if dat = alrm_code ALRM_NONE then
        sbind (write_sleep STATS 1 on io) (write_sleep STATS 0 off)
      else if dat = alrm_code ALRM_PREACTIVE then
        sbind (write_sleep STATS 1 on io) (\<lambda>io.
        sbind (write_sleep STATS 0 on io) (\<lambda>io.
        sbind (write_sleep STATS 1 on io) (write_sleep STATS 0 (off div 2))))
      else if dat = alrm_code ALRM_ACTIVE then
        sbind (write_sleep STATS 1 on io) (write_sleep STATS 0 (on * 2))
      else Inr io)"

definition status_led :: "u32 \<Rightarrow> iralarmd \<Rightarrow> iralarmd c_result" where
  "status_led dat st =
     sbind (status_pins dat (s_statusled_on st) (s_statusled_off st) (pio st)) (\<lambda>io. Inr (st\<lparr>pio := io\<rparr>))"

definition alarm_pins :: "u32 \<Rightarrow> u8 \<Rightarrow> irpio \<Rightarrow> irpio c_result" where
  "alarm_pins dat speaker io =
     (if dat = alrm_code ALRM_ACTIVE then
        sbind (if speaker > 0 then irpio_digitalWrite (irpio_getpin SPEKR) 1 io else Inr io) (\<lambda>io.
        sbind (write_sleep ALARM 0 250000 io) (\<lambda>io.
        sbind (irpio_digitalWrite (irpio_getpin SPEKR) 0 io) (write_sleep ALARM 1 250000)))
      else if dat = alrm_code ALRM_PREACTIVE then
        sbind (write_sleep ALARM 1 100000 io) (write_sleep ALARM 0 100000)
      else if dat = alrm_code ALRM_NONE then
        sbind (irpio_digitalWrite (irpio_getpin ALARM) 0 io) (write_sleep SPEKR 0 100000)
      else Inr io)"

definition alarm_thread :: "u32 \<Rightarrow> iralarmd \<Rightarrow> iralarmd c_result" where
  "alarm_thread dat st =
     sbind (alarm_pins dat (s_speaker st) (pio st)) (\<lambda>io.
     if dat = alrm_code ALRM_NONE then
       sbind (irthread_suspend (thrd_alarm st) (thrds st)) (\<lambda>ts. Inr (st\<lparr>pio := io, thrds := ts\<rparr>))
     else Inr (st\<lparr>pio := io\<rparr>))"

fun run_cb :: "thread_cb \<Rightarrow> u32 \<Rightarrow> iralarmd \<Rightarrow> iralarmd c_result" where
  "run_cb Status_led = status_led"
| "run_cb Alarm_thread = alarm_thread"

text \<open>A round of the main loop of thread \<open>i\<close>: nothing happens if it is suspended or not active.\<close>

definition run_thread :: "int \<Rightarrow> iralarmd \<Rightarrow> iralarmd c_result" where
  "run_thread i st =
     sbind (thrd (thrds st) i)
       (\<lambda>t. if it_actv t \<and> \<not> it_susp t then run_cb (it_tcb t) (it_data t) st else Inr st)"

section \<open>Signals\<close>

text \<open>The reloading of \<open>SIGHUP\<close>: the variables of a byte, then those of a word.\<close>

definition reload_bytes :: "iralarmd \<Rightarrow> iralarmd c_result" where
  "reload_bytes st =
     sbind (GETPTR_SAFE (shm st) (seg st) SHM_ACTIVE (s_aactive st)) (\<lambda>a.
     sbind (GETPTR_SAFE (shm st) (seg st) SHM_SPKR (s_speaker st)) (\<lambda>s.
     sbind (if do_xmpp st then GETPTR_SAFE (shm st) (seg st) SHM_XMPP (s_xmpp st) else Inr (s_xmpp st)) (\<lambda>x.
     sbind (GETPTR_SAFE (shm st) (seg st) SHM_VIDEO (s_video st)) (\<lambda>v.
     Inr (st\<lparr>s_aactive := a, s_speaker := s, s_xmpp := x, s_video := v\<rparr>)))))"

definition reload_words :: "iralarmd \<Rightarrow> iralarmd c_result" where
  "reload_words st =
     sbind (GETPTR_SAFE (shm st) (seg st) SHM_MLOOP (s_mainloop st)) (\<lambda>m.
     sbind (GETPTR_SAFE (shm st) (seg st) SHM_STLEDON (s_statusled_on st)) (\<lambda>on.
     sbind (GETPTR_SAFE (shm st) (seg st) SHM_STLEDOFF (s_statusled_off st)) (\<lambda>off.
     sbind (GETPTR_SAFE (shm st) (seg st) SHM_MINRECVD (ir_minrecvd st)) (\<lambda>r.
     sbind (GETPTR_SAFE (shm st) (seg st) SHM_MINALRMS (ir_minalarm st)) (\<lambda>a.
     sbind (GETPTR_SAFE (shm st) (seg st) SHM_RSTALRMS (ir_rstalarm st)) (\<lambda>rs.
     Inr (st\<lparr>s_mainloop := m, s_statusled_on := on, s_statusled_off := off, ir_minrecvd := r,
             ir_minalarm := a, ir_rstalarm := rs\<rparr>)))))))"

definition stop_thread :: "pthread_env \<Rightarrow> int \<Rightarrow> iralarmd \<Rightarrow> iralarmd c_result" where
  "stop_thread pe i st = sbind (irthread_stop pe i (thrds st)) (\<lambda>(_, ts). Inr (st\<lparr>thrds := ts\<rparr>))"

definition shutdown :: "pthread_env \<Rightarrow> iralarmd \<Rightarrow> iralarmd c_result" where
  "shutdown pe st =
     (let st0 = (if do_xmpp st then emit Xmpp_stopped st else st)
      in sbind (stop_thread pe (thrd_alarm st0) st0) (\<lambda>st.
         sbind (stop_thread pe (thrd_status st) st) (\<lambda>st.
         sbind (irpio_lowall (pio st)) (\<lambda>io.
         case irmem_free 1 (shm st) of (rm, sh) \<Rightarrow>
           let st1 = st\<lparr>pio := io, shm := sh, d_out := d_out st @ map Shm_removed rm\<rparr>
           in Inr ((emit (Sem_removed (sem_id st1)) st1)\<lparr>exited := Some 0\<rparr>)))))"

definition sighandler :: "pthread_env \<Rightarrow> signum \<Rightarrow> iralarmd \<Rightarrow> iralarmd c_result" where
  "sighandler pe sg st =
     (let st1 = emit (Got_signal sg) st
      in case sg of
           SIGTERM \<Rightarrow> shutdown pe st1
         | SIGHUP \<Rightarrow> sbind (reload_bytes st1) reload_words
         | _ \<Rightarrow> Inr st1)"

section \<open>Runs\<close>

text \<open>
  What can happen between two iterations and as one: an interrupt, a signal, a round of a thread,
  a write of another process to an object of the segment, which happens under the semaphore.
\<close>

datatype d_input =
    Flank
  | Tick tick
  | Signal signum
  | Run_alarm
  | Run_status
  | Ctl_write nat nat \<comment> \<open>object and value\<close>

definition ctl_write :: "nat \<Rightarrow> nat \<Rightarrow> iralarmd \<Rightarrow> iralarmd c_result" where
  "ctl_write i v st =
     (if i < length initial then
        sbind (cell_wr i v (shm st, seg st)) (\<lambda>(_, s). Inr (st\<lparr>seg := s\<rparr>))
      else Inr st)"

fun d_input_step :: "pthread_env \<Rightarrow> d_input \<Rightarrow> iralarmd \<Rightarrow> iralarmd c_result" where
  "d_input_step pe Flank st = ir_flank st"
| "d_input_step pe (Tick tk) st = loop_body pe tk st"
| "d_input_step pe (Signal sg) st = sighandler pe sg st"
| "d_input_step pe Run_alarm st = run_thread (thrd_alarm st) st"
| "d_input_step pe Run_status st = run_thread (thrd_status st) st"
| "d_input_step pe (Ctl_write i v) st = ctl_write i v st"

definition d_step :: "pthread_env \<Rightarrow> d_input \<Rightarrow> iralarmd \<Rightarrow> iralarmd c_result" where
  "d_step pe i st = (if exited st = None then d_input_step pe i st else Inr st)"

definition d_run :: "pthread_env \<Rightarrow> d_input list \<Rightarrow> iralarmd \<Rightarrow> iralarmd c_result" where
  "d_run pe = sfoldM (d_step pe)"

section \<open>The invariant\<close>

text \<open>The two threads are in the table, each in its own slot.\<close>

definition threads_ok :: "iralarmd \<Rightarrow> bool" where
  "threads_ok st \<longleftrightarrow> thrds_ok (thrds st) \<and> thrd_alarm st \<in> in_use (thrds st) \<and>
     thrd_status st \<in> in_use (thrds st) \<and> thrd_alarm st \<noteq> thrd_status st"

text \<open>Both threads were handed the current state, and the alarm's thread is awake in an alarm.\<close>

definition synced :: "iralarmd \<Rightarrow> bool" where
  "synced st \<longleftrightarrow> thrd_data (thrds st) (thrd_alarm st) = alrm_code (astate st) \<and>
     thrd_data (thrds st) (thrd_status st) = alrm_code (astate st) \<and>
     (astate st \<noteq> ALRM_NONE \<longrightarrow> \<not> thrd_susp (thrds st) (thrd_alarm st))"

definition parts_ok :: "iralarmd \<Rightarrow> bool" where
  "parts_ok st \<longleftrightarrow> shm_ok (shm st, seg st) \<and> s_astate st = Some (cell_ptr SHM_ALARM) \<and>
     io_ready (pio st) \<and> semval st = 1"

definition daemon_ok :: "iralarmd \<Rightarrow> bool" where
  "daemon_ok st \<longleftrightarrow> exited st = None \<and> threads_ok st \<and> synced st \<and> parts_ok st"

lemma alrm_code_inj [simp]: "alrm_code a = alrm_code b \<longleftrightarrow> a = b"
  by (cases a; cases b; simp add: alrm_code_def)

lemma set_thread_data_ok:
  assumes "threads_ok st"
  shows "\<exists>ts. set_thread_data st = Inr (st\<lparr>thrds := ts\<rparr>) \<and> thrds_ok ts \<and> in_use ts = in_use (thrds st) \<and>
           thrd_data ts (thrd_alarm st) = alrm_code (astate st) \<and>
           thrd_data ts (thrd_status st) = alrm_code (astate st) \<and>
           thrd_susp ts (thrd_alarm st) = thrd_susp (thrds st) (thrd_alarm st)"
proof -
  from assms have t: "thrds_ok (thrds st)" "thrd_alarm st \<in> in_use (thrds st)" "thrd_status st \<in> in_use (thrds st)"
    by (simp_all add: threads_ok_def)
  from irt.publish_ok [OF t, of "alrm_code (astate st)"] t(2) show ?thesis
    by (auto simp: set_thread_data_def)
qed

lemma resume_alarm_ok:
  assumes "threads_ok st"
  shows "\<exists>ts. resume_alarm pe st = Inr (st\<lparr>thrds := ts\<rparr>) \<and> thrds_ok ts \<and> in_use ts = in_use (thrds st) \<and>
           (\<forall>j \<in> in_use ts. thrd_data ts j = thrd_data (thrds st) j) \<and>
           \<not> thrd_susp ts (thrd_alarm st)"
proof -
  from assms have t: "thrds_ok (thrds st)" "thrd_alarm st \<in> in_use (thrds st)"
    by (simp_all add: threads_ok_def)
  from irt.resume_ok [OF t, of pe] show ?thesis
    by (auto simp: resume_alarm_def)
qed

section \<open>The alarm's state machine on its own\<close>

text \<open>
  The specification of an iteration: a state, the two counters and the start of the alarm; a cycle
  is bad if too few flanks were received in it.
\<close>

record alarm =
  a_state :: alrm_state
  a_good :: u32
  a_bad :: u32
  a_start :: int

definition alarm_of :: "iralarmd \<Rightarrow> alarm" where
  "alarm_of st = \<lparr>a_state = astate st, a_good = ir_recvd_cycls st, a_bad = ir_alrm_cycls st,
     a_start = ir_alrm_start st\<rparr>"

definition alarm_count :: "bool \<Rightarrow> alarm \<Rightarrow> alarm" where
  "alarm_count bad a =
     (if bad then a\<lparr>a_bad := a_bad a + 1\<rparr>
      else a\<lparr>a_good := a_good a + 1, a_bad := (if a_bad a > 0 then a_bad a - 1 else 0)\<rparr>)"

definition alarm_move :: "u32 \<Rightarrow> u32 \<Rightarrow> int \<Rightarrow> alarm \<Rightarrow> alarm" where
  "alarm_move minalarm rstalarm now a =
     (case a_state a of
        ALRM_NONE \<Rightarrow>
          if a_bad a > minalarm then a\<lparr>a_state := ALRM_PREACTIVE, a_good := 0, a_start := now\<rparr> else a
      | ALRM_PREACTIVE \<Rightarrow>
          if now - a_start a > 10 then a\<lparr>a_state := ALRM_ACTIVE, a_good := 0\<rparr>
          else if a_good a > rstalarm then a\<lparr>a_state := ALRM_NONE, a_bad := 0\<rparr> else a
      | ALRM_ACTIVE \<Rightarrow>
          if a_good a > rstalarm then a\<lparr>a_state := ALRM_NONE, a_bad := 0\<rparr> else a)"

definition alarm_next :: "u32 \<Rightarrow> u32 \<Rightarrow> bool \<Rightarrow> int \<Rightarrow> alarm \<Rightarrow> alarm" where
  "alarm_next minalarm rstalarm bad now a = alarm_move minalarm rstalarm now (alarm_count bad a)"

definition alarm_put :: "alarm \<Rightarrow> iralarmd \<Rightarrow> iralarmd" where
  "alarm_put a st = st\<lparr>astate := a_state a, ir_recvd_cycls := a_good a, ir_alrm_cycls := a_bad a,
     ir_alrm_start := a_start a\<rparr>"

lemma alarm_put_simps [simp]:
  "alarm_of (alarm_put a st) = a"
  "thrds (alarm_put a st) = thrds st" "thrd_alarm (alarm_put a st) = thrd_alarm st"
  "thrd_status (alarm_put a st) = thrd_status st" "shm (alarm_put a st) = shm st"
  "seg (alarm_put a st) = seg st" "s_astate (alarm_put a st) = s_astate st"
  "pio (alarm_put a st) = pio st" "semval (alarm_put a st) = semval st"
  "exited (alarm_put a st) = exited st" "astate (alarm_put a st) = a_state a"
  "d_out (alarm_put a st) = d_out st" "ir_minalarm (alarm_put a st) = ir_minalarm st"
  "ir_rstalarm (alarm_put a st) = ir_rstalarm st"
  by (simp_all add: alarm_put_def alarm_of_def)

lemma alarm_put_same: "alarm_put (alarm_of st) st = st"
  by (cases st) (simp add: alarm_put_def alarm_of_def)

text \<open>What the daemon tells the outside when its state changes from one to another.\<close>

definition alarm_news :: "tick \<Rightarrow> iralarmd \<Rightarrow> alrm_state \<Rightarrow> d_event list" where
  "alarm_news tk st new =
     (if astate st = ALRM_NONE \<and> new = ALRM_PREACTIVE then
        Emerg_alarm (t_now tk) (ir_recvd st) (ir_minrecvd st) (ir_recvd_cycls st) (ir_alrm_cycls st) #
        (if do_xmpp st \<and> 0 <s s_xmpp st
         then [Xmpp_alarm (t_now tk) (ir_recvd st) (ir_minrecvd st) (ir_recvd_cycls st) (ir_alrm_cycls st)]
         else []) @
        (if s_video st > 0 then [Spawn_raspivid] else [])
      else if astate st \<noteq> ALRM_NONE \<and> new = ALRM_NONE then
        [Emerg_stopped (t_stop tk) (t_stop tk - ir_alrm_start st) (ir_recvd st) (ir_rstalarm st)
           (ir_recvd_cycls st) (ir_alrm_cycls st)]
      else [])"

lemma count_cycle_abs:
  "alarm_of (count_cycle st) = alarm_count (ir_recvd st < ir_minrecvd st) (alarm_of st)"
  by (simp add: count_cycle_def alarm_of_def alarm_count_def Let_def word_gt_0)

lemma count_cycle_eq:
  "count_cycle st = st\<lparr>ir_recvd_cycls := ir_recvd_cycls (count_cycle st), ir_alrm_cycls := ir_alrm_cycls (count_cycle st)\<rparr>"
  by (cases st) (simp add: count_cycle_def Let_def)

lemma doAlarmAction_eq:
  "astate st = ALRM_NONE \<Longrightarrow> ir_alrm_start st = t_now tk \<Longrightarrow>
   doAlarmAction st = st\<lparr>d_out := d_out st @ alarm_news tk st ALRM_PREACTIVE\<rparr>"
  by (simp add: doAlarmAction_def emit_def alarm_news_def Let_def)

text \<open>The state machine of the main loop follows the specification, and keeps the threads informed.\<close>

lemma threads_ok_upd:
  assumes "threads_ok st" "thrds_ok ts" "in_use ts = in_use (thrds st)"
    and "thrds st' = ts" "thrd_alarm st' = thrd_alarm st" "thrd_status st' = thrd_status st"
  shows "threads_ok st'"
  using assms by (simp add: threads_ok_def)

lemma enter_none_ok:
  assumes "threads_ok st"
  shows "\<exists>ts. enter_none tk st =
           Inr (st\<lparr>astate := ALRM_NONE, thrds := ts,
             d_out := d_out st @ [Emerg_stopped (t_stop tk) (t_stop tk - ir_alrm_start st) (ir_recvd st)
               (ir_rstalarm st) (ir_recvd_cycls st) (ir_alrm_cycls st)], ir_alrm_cycls := 0\<rparr>) \<and>
           thrds_ok ts \<and> in_use ts = in_use (thrds st) \<and>
           thrd_data ts (thrd_alarm st) = alrm_code ALRM_NONE \<and>
           thrd_data ts (thrd_status st) = alrm_code ALRM_NONE"
proof -
  have "threads_ok (st\<lparr>astate := ALRM_NONE\<rparr>)" using assms by (simp add: threads_ok_def)
  from set_thread_data_ok [OF this] obtain ts where
      "set_thread_data (st\<lparr>astate := ALRM_NONE\<rparr>) = Inr (st\<lparr>astate := ALRM_NONE, thrds := ts\<rparr>)"
      "thrds_ok ts" "in_use ts = in_use (thrds st)"
      "thrd_data ts (thrd_alarm st) = alrm_code ALRM_NONE" "thrd_data ts (thrd_status st) = alrm_code ALRM_NONE"
    by auto
  then show ?thesis
    by (intro exI [of _ ts]) (simp add: enter_none_def undoAlarmAction_def emit_def)
qed

text \<open>The result of a switch: the specification's, the threads informed, and the news.\<close>

definition switched :: "tick \<Rightarrow> alarm \<Rightarrow> iralarmd \<Rightarrow> iralarmd \<Rightarrow> bool" where
  "switched tk a st st' \<longleftrightarrow>
     (\<exists>ts. st' = (alarm_put a st)\<lparr>thrds := ts, d_out := d_out st @ alarm_news tk st (a_state a)\<rparr> \<and>
           threads_ok st' \<and> synced st')"

lemma switched_none:
  assumes "threads_ok st" "astate st \<noteq> ALRM_NONE"
  shows "\<exists>st'. enter_none tk st = Inr st' \<and>
           switched tk ((alarm_of st)\<lparr>a_state := ALRM_NONE, a_bad := 0\<rparr>) st st'"
proof -
  let ?os = "d_out st @ [Emerg_stopped (t_stop tk) (t_stop tk - ir_alrm_start st) (ir_recvd st)
               (ir_rstalarm st) (ir_recvd_cycls st) (ir_alrm_cycls st)]"
  obtain ts where ts: "enter_none tk st =
         Inr (st\<lparr>astate := ALRM_NONE, thrds := ts, d_out := ?os, ir_alrm_cycls := 0\<rparr>)"
      "thrds_ok ts" "in_use ts = in_use (thrds st)"
      "thrd_data ts (thrd_alarm st) = alrm_code ALRM_NONE" "thrd_data ts (thrd_status st) = alrm_code ALRM_NONE"
    using enter_none_ok [OF assms(1), of tk] by blast
  let ?st' = "st\<lparr>astate := ALRM_NONE, thrds := ts, d_out := ?os, ir_alrm_cycls := 0\<rparr>"
  have "?st' = (alarm_put ((alarm_of st)\<lparr>a_state := ALRM_NONE, a_bad := 0\<rparr>) st)\<lparr>thrds := ts, d_out := ?os\<rparr>"
    by (simp add: alarm_put_def alarm_of_def)
  moreover have "threads_ok ?st'"
    by (rule threads_ok_upd [OF assms(1) ts(2,3)]) simp_all
  moreover have "synced ?st'" using ts by (simp add: synced_def)
  ultimately show ?thesis
    using ts(1) assms(2) by (auto simp: switched_def alarm_news_def intro!: exI [of _ ts])
qed

lemma switched_active:
  assumes "threads_ok st" "synced st" "astate st = ALRM_PREACTIVE"
  shows "\<exists>st'. set_thread_data (st\<lparr>ir_recvd_cycls := 0, astate := ALRM_ACTIVE\<rparr>) = Inr st' \<and>
           switched tk ((alarm_of st)\<lparr>a_state := ALRM_ACTIVE, a_good := 0\<rparr>) st st'"
proof -
  let ?st = "st\<lparr>ir_recvd_cycls := 0, astate := ALRM_ACTIVE\<rparr>"
  have "threads_ok ?st" using assms(1) by (simp add: threads_ok_def)
  then obtain ts where ts: "set_thread_data ?st = Inr (?st\<lparr>thrds := ts\<rparr>)"
      "thrds_ok ts" "in_use ts = in_use (thrds st)"
      "thrd_data ts (thrd_alarm st) = alrm_code ALRM_ACTIVE" "thrd_data ts (thrd_status st) = alrm_code ALRM_ACTIVE"
      "thrd_susp ts (thrd_alarm st) = thrd_susp (thrds st) (thrd_alarm st)"
    using set_thread_data_ok [of ?st] by auto
  have "?st\<lparr>thrds := ts\<rparr> =
      (alarm_put ((alarm_of st)\<lparr>a_state := ALRM_ACTIVE, a_good := 0\<rparr>) st)\<lparr>thrds := ts, d_out := d_out st\<rparr>"
    by (simp add: alarm_put_def alarm_of_def)
  moreover have "threads_ok (?st\<lparr>thrds := ts\<rparr>)"
    by (rule threads_ok_upd [OF assms(1) ts(2,3)]) simp_all
  moreover have "synced (?st\<lparr>thrds := ts\<rparr>)" using ts assms(2,3) by (simp add: synced_def)
  ultimately show ?thesis
    using ts(1) assms(3) by (auto simp: switched_def alarm_news_def intro!: exI [of _ ts])
qed

lemma switched_preactive:
  assumes "threads_ok st" "astate st = ALRM_NONE" "ir_alrm_cycls st > ir_minalarm st"
  shows "\<exists>st'. alarm_switch pe tk ALRM_NONE st = Inr st' \<and>
           switched tk ((alarm_of st)\<lparr>a_state := ALRM_PREACTIVE, a_good := 0, a_start := t_now tk\<rparr>) st st'"
proof -
  let ?os = "d_out st @ alarm_news tk st ALRM_PREACTIVE"
  let ?s = "st\<lparr>ir_alrm_start := t_now tk, d_out := ?os, ir_recvd_cycls := 0, astate := ALRM_PREACTIVE\<rparr>"
  have act: "doAlarmAction (st\<lparr>ir_alrm_start := t_now tk\<rparr>) = st\<lparr>ir_alrm_start := t_now tk, d_out := ?os\<rparr>"
    using doAlarmAction_eq [of "st\<lparr>ir_alrm_start := t_now tk\<rparr>" tk] assms(2) by (simp add: alarm_news_def)
  have "threads_ok ?s" using assms(1) by (simp add: threads_ok_def)
  then obtain t1 where t1: "set_thread_data ?s = Inr (?s\<lparr>thrds := t1\<rparr>)"
      "thrds_ok t1" "in_use t1 = in_use (thrds st)"
      "thrd_data t1 (thrd_alarm st) = alrm_code ALRM_PREACTIVE" "thrd_data t1 (thrd_status st) = alrm_code ALRM_PREACTIVE"
    using set_thread_data_ok [of ?s] by auto
  have "threads_ok (?s\<lparr>thrds := t1\<rparr>)"
    by (rule threads_ok_upd [OF assms(1) t1(2,3)]) simp_all
  then obtain t2 where t2: "resume_alarm pe (?s\<lparr>thrds := t1\<rparr>) = Inr (?s\<lparr>thrds := t2\<rparr>)"
      "thrds_ok t2" "in_use t2 = in_use (thrds st)" "\<forall>j \<in> in_use t2. thrd_data t2 j = thrd_data t1 j"
      "\<not> thrd_susp t2 (thrd_alarm st)"
    using resume_alarm_ok [of "?s\<lparr>thrds := t1\<rparr>" pe] t1(3) by auto
  have "?s\<lparr>thrds := t2\<rparr> =
      (alarm_put ((alarm_of st)\<lparr>a_state := ALRM_PREACTIVE, a_good := 0, a_start := t_now tk\<rparr>) st)
        \<lparr>thrds := t2, d_out := ?os\<rparr>"
    by (simp add: alarm_put_def alarm_of_def)
  moreover have "threads_ok (?s\<lparr>thrds := t2\<rparr>)"
    by (rule threads_ok_upd [OF assms(1) t2(2,3)]) simp_all
  moreover have "synced (?s\<lparr>thrds := t2\<rparr>)"
    using t1(4,5) t2(3,4,5) assms(1) by (simp add: synced_def threads_ok_def)
  ultimately show ?thesis
    using t1(1) t2(1) assms(3) act by (auto simp: switched_def Let_def intro!: exI [of _ t2])
qed

lemma switched_same:
  assumes "threads_ok st" "synced st"
  shows "switched tk (alarm_of st) st st"
proof -
  have "st = (alarm_put (alarm_of st) st)\<lparr>thrds := thrds st, d_out := d_out st @ alarm_news tk st (a_state (alarm_of st))\<rparr>"
    by (cases st) (simp add: alarm_put_def alarm_of_def alarm_news_def)
  with assms show ?thesis unfolding switched_def by blast
qed

lemma alarm_switch_ok:
  assumes "threads_ok st" "synced st"
  shows "\<exists>st'. alarm_switch pe tk (astate st) st = Inr st' \<and>
           switched tk (alarm_move (ir_minalarm st) (ir_rstalarm st) (t_now tk) (alarm_of st)) st st'"
proof (cases "astate st")
  case ALRM_NONE
  have none: "a_state (alarm_of st) = ALRM_NONE" "a_bad (alarm_of st) = ir_alrm_cycls st"
    using ALRM_NONE by (simp_all add: alarm_of_def)
  show ?thesis
  proof (cases "ir_alrm_cycls st > ir_minalarm st")
    case True
    with switched_preactive [OF assms(1) ALRM_NONE, of pe tk] show ?thesis
      by (simp add: ALRM_NONE alarm_move_def none)
  next
    case False
    with switched_same [OF assms, of tk] show ?thesis
      by (simp add: ALRM_NONE alarm_move_def none)
  qed
next
  case ALRM_PREACTIVE
  have pre: "a_state (alarm_of st) = ALRM_PREACTIVE" "a_good (alarm_of st) = ir_recvd_cycls st"
      "a_start (alarm_of st) = ir_alrm_start st"
    using ALRM_PREACTIVE by (simp_all add: alarm_of_def)
  show ?thesis
    using switched_active [OF assms ALRM_PREACTIVE, of tk] switched_none [OF assms(1), of tk]
      switched_same [OF assms, of tk]
    by (simp add: ALRM_PREACTIVE alarm_move_def pre diffTimeWithNow_def)
next
  case ALRM_ACTIVE
  have act: "a_state (alarm_of st) = ALRM_ACTIVE" "a_good (alarm_of st) = ir_recvd_cycls st"
    using ALRM_ACTIVE by (simp_all add: alarm_of_def)
  show ?thesis
    using switched_none [OF assms(1), of tk] switched_same [OF assms, of tk]
    by (simp add: ALRM_ACTIVE alarm_move_def act)
qed

text \<open>The state's byte in the segment.\<close>

lemma publish_state_ok:
  assumes "parts_ok st"
  shows "\<exists>s. publish_state st = Inr (st\<lparr>seg := s\<rparr>) \<and> shm_ok (shm st, s) \<and>
           cell_val s SHM_ALARM = alrm_num (astate st) \<and>
           (\<forall>j < length initial. j \<noteq> SHM_ALARM \<longrightarrow> cell_val s j = cell_val (seg st) j)"
proof -
  have ok: "shm_ok (shm st, seg st)" using assms by (simp add: parts_ok_def)
  have ten: "SHM_ALARM < length initial" "cell_width SHM_ALARM = 1"
    by (simp_all add: cell_width_def initial_def)
  have "alrm_num (astate st) < 256" by (cases "astate st") simp_all
  then have num: "unat (of_nat (alrm_num (astate st)) :: u8) = alrm_num (astate st)"
    by (simp add: unat_of_nat)
  obtain s where s: "SETPTR_SAFE (shm st) SHM_ALARM (of_nat (alrm_num (astate st)) :: u8) (seg st) = Inr s"
      "shm_ok (shm st, s)" "cell_val s SHM_ALARM = alrm_num (astate st)"
      "\<forall>j < length initial. j \<noteq> SHM_ALARM \<longrightarrow> cell_val s j = cell_val (seg st) j"
    using SETPTR_cell [OF ok ten(1), where v = "of_nat (alrm_num (astate st)) :: u8"] ten(2) num by auto
  have "store (shmro (shm st)) 1 (cell_ptr SHM_ALARM) (alrm_num (astate st)) (seg st) = Inr s"
    using s(1) ok ten(1) num by (simp add: SETPTR_SAFE_def)
  then show ?thesis using s assms by (auto simp: publish_state_def parts_ok_def)
qed

lemma count_cycle_frame [simp]:
  "thrds (count_cycle st) = thrds st" "thrd_alarm (count_cycle st) = thrd_alarm st"
  "thrd_status (count_cycle st) = thrd_status st" "astate (count_cycle st) = astate st"
  "shm (count_cycle st) = shm st" "seg (count_cycle st) = seg st"
  "s_astate (count_cycle st) = s_astate st" "pio (count_cycle st) = pio st"
  "semval (count_cycle st) = semval st" "exited (count_cycle st) = exited st"
  "ir_minalarm (count_cycle st) = ir_minalarm st" "ir_rstalarm (count_cycle st) = ir_rstalarm st"
  "d_out (count_cycle st) = d_out st" "ir_minrecvd (count_cycle st) = ir_minrecvd st"
  "ir_recvd (count_cycle st) = ir_recvd st" "do_xmpp (count_cycle st) = do_xmpp st"
  by (simp_all add: count_cycle_def Let_def)

text \<open>An iteration of the main loop implements the specification.\<close>

lemma loop_body_ok:
  assumes "daemon_ok st"
  shows "\<exists>st'. loop_body pe tk st = Inr st' \<and> daemon_ok st' \<and>
           alarm_of st' = alarm_next (ir_minalarm st) (ir_rstalarm st) (ir_recvd st < ir_minrecvd st)
                            (t_now tk) (alarm_of st) \<and>
           ir_recvd st' = 0 \<and> cell_val (seg st') SHM_ALARM = alrm_num (astate st) \<and>
           (\<forall>j < length initial. j \<noteq> SHM_ALARM \<longrightarrow> cell_val (seg st') j = cell_val (seg st) j) \<and>
           ir_minrecvd st' = ir_minrecvd st \<and> ir_minalarm st' = ir_minalarm st \<and>
           ir_rstalarm st' = ir_rstalarm st \<and>
           d_out st' = d_out st @ [Main_sleep (s_mainloop st)] @ alarm_news tk (count_cycle st) (astate st')"
proof -
  have d: "exited st = None" "threads_ok st" "synced st" "parts_ok st"
    using assms by (simp_all add: daemon_ok_def)
  let ?s1 = "(emit (Main_sleep (s_mainloop st)) st)\<lparr>semval := 0\<rparr>"
  let ?s2 = "count_cycle ?s1"
  have w: "sem_wait (emit (Main_sleep (s_mainloop st)) st) = Inr ?s1"
    using d(4) by (simp add: sem_wait_def emit_def parts_ok_def)
  have p2: "parts_ok (?s2\<lparr>semval := 1\<rparr>)"
    using d(4) by (simp add: parts_ok_def emit_def)
  obtain s where s: "publish_state (?s2\<lparr>semval := 1\<rparr>) = Inr (?s2\<lparr>semval := 1, seg := s\<rparr>)" "shm_ok (shm st, s)"
      "cell_val s SHM_ALARM = alrm_num (astate st)"
      "\<forall>j < length initial. j \<noteq> SHM_ALARM \<longrightarrow> cell_val s j = cell_val (seg st) j"
    using publish_state_ok [OF p2] by (auto simp: emit_def)
  have pub: "publish_state ?s2 = Inr (?s2\<lparr>seg := s\<rparr>)"
    using s(1) by (auto simp: publish_state_def sbind_Inr_iff split: option.splits dest: arg_cong [where f = seg])
  let ?s3 = "?s2\<lparr>seg := s\<rparr>"
  have t3: "threads_ok ?s3" "synced ?s3"
    using d(2,3) by (simp_all add: threads_ok_def synced_def emit_def)
  have abs3: "alarm_of ?s3 = alarm_count (ir_recvd st < ir_minrecvd st) (alarm_of st)"
    using count_cycle_abs [of ?s1] by (simp add: alarm_of_def emit_def)
  obtain st' where st': "alarm_switch pe tk (astate ?s3) ?s3 = Inr st'"
      "switched tk (alarm_move (ir_minalarm ?s3) (ir_rstalarm ?s3) (t_now tk) (alarm_of ?s3)) ?s3 st'"
    using alarm_switch_ok [OF t3] by blast
  let ?a = "alarm_next (ir_minalarm st) (ir_rstalarm st) (ir_recvd st < ir_minrecvd st) (t_now tk) (alarm_of st)"
  have a: "alarm_move (ir_minalarm ?s3) (ir_rstalarm ?s3) (t_now tk) (alarm_of ?s3) = ?a"
    unfolding abs3 alarm_next_def by (simp add: emit_def)
  obtain ts where ts: "st' = (alarm_put ?a ?s3)\<lparr>thrds := ts, d_out := d_out ?s3 @ alarm_news tk ?s3 (a_state ?a)\<rparr>"
      "threads_ok st'" "synced st'"
    using st'(2) unfolding a switched_def by blast
  have res: "loop_body pe tk st = Inr (sem_post (st'\<lparr>ir_recvd := 0\<rparr>))"
    by (simp only: loop_body_def w pub st'(1) sbind.simps)
  have news: "alarm_news tk ?s3 x = alarm_news tk (count_cycle st) x" for x
    by (simp add: alarm_news_def emit_def count_cycle_def Let_def)
  let ?r = "sem_post (st'\<lparr>ir_recvd := 0\<rparr>)"
  have parts: "semval st' = 0" "seg st' = s" "shm st' = shm st" "pio st' = pio st" "exited st' = None"
      "s_astate st' = s_astate st"
    using d(1) by (simp_all add: ts(1) emit_def)
  have "daemon_ok ?r"
    using ts(2,3) parts d(4) s(2)
    by (simp add: daemon_ok_def threads_ok_def synced_def parts_ok_def sem_post_def)
  moreover have "alarm_of ?r = ?a"
    by (simp add: ts(1) sem_post_def alarm_of_def alarm_put_def)
  moreover have "ir_minrecvd ?r = ir_minrecvd st" "ir_minalarm ?r = ir_minalarm st" "ir_rstalarm ?r = ir_rstalarm st"
    by (simp_all add: ts(1) sem_post_def emit_def alarm_put_def)
  moreover have "d_out ?r = d_out st @ [Main_sleep (s_mainloop st)] @ alarm_news tk (count_cycle st) (astate ?r)"
  proof -
    have "d_out st' = d_out ?s3 @ alarm_news tk ?s3 (a_state ?a)" by (simp add: ts(1))
    moreover have "astate st' = a_state ?a" by (simp add: ts(1))
    moreover have "d_out ?s3 = d_out st @ [Main_sleep (s_mainloop st)]" by (simp add: emit_def)
    moreover have "d_out ?r = d_out st'" "astate ?r = astate st'" by (simp_all add: sem_post_def)
    ultimately show ?thesis by (simp only: news append_assoc)
  qed
  moreover have "seg ?r = s" "ir_recvd ?r = 0" by (simp_all add: sem_post_def parts)
  ultimately show ?thesis using res s(3,4) by blast
qed

section \<open>The other inputs keep the invariant\<close>

lemma flank_ok:
  assumes "daemon_ok st"
  shows "ir_flank st = Inr (st\<lparr>ir_recvd := ir_recvd st + 1\<rparr>) \<and> daemon_ok (st\<lparr>ir_recvd := ir_recvd st + 1\<rparr>)"
proof -
  have "semval st = 1" using assms by (simp add: daemon_ok_def parts_ok_def)
  then have "ir_flank st = Inr (st\<lparr>ir_recvd := ir_recvd st + 1\<rparr>)"
    by (cases st) (simp add: ir_flank_def sem_wait_def sem_post_def)
  moreover have "daemon_ok (st\<lparr>ir_recvd := ir_recvd st + 1\<rparr>)"
    using assms by (simp add: daemon_ok_def threads_ok_def synced_def parts_ok_def)
  ultimately show ?thesis by simp
qed

lemma write_sleep_ready: "total_on io_ready (write_sleep p v us)"
  unfolding write_sleep_def by (intro total_on_bind irpio_digitalWrite_ready usleep_ready)

lemma alarm_pins_ready: "total_on io_ready (alarm_pins dat spk)"
proof -
  have a: "total_on io_ready (\<lambda>io. sbind (if spk > 0 then irpio_digitalWrite (irpio_getpin SPEKR) 1 io else Inr io) (\<lambda>io.
        sbind (write_sleep ALARM 0 250000 io) (\<lambda>io.
        sbind (irpio_digitalWrite (irpio_getpin SPEKR) 0 io) (write_sleep ALARM 1 250000))))"
    by (intro total_on_bind write_sleep_ready irpio_digitalWrite_ready)
      (cases "spk > 0"; simp add: irpio_digitalWrite_ready total_on_Inr)
  have b: "total_on io_ready (\<lambda>io. sbind (write_sleep ALARM 1 100000 io) (write_sleep ALARM 0 100000))"
    by (intro total_on_bind write_sleep_ready)
  have c: "total_on io_ready (\<lambda>io. sbind (irpio_digitalWrite (irpio_getpin ALARM) 0 io) (write_sleep SPEKR 0 100000))"
    by (intro total_on_bind write_sleep_ready irpio_digitalWrite_ready)
  show ?thesis
    using a b c by (simp add: alarm_pins_def total_on_def)
qed

lemma status_pins_ready: "total_on io_ready (status_pins dat on off)"
proof -
  have a: "total_on io_ready (\<lambda>io. sbind (write_sleep STATS 1 on io) (write_sleep STATS 0 t))" for t
    by (intro total_on_bind write_sleep_ready)
  have b: "total_on io_ready (\<lambda>io. sbind (write_sleep STATS 1 on io) (\<lambda>io.
       sbind (write_sleep STATS 0 on io) (\<lambda>io.
       sbind (write_sleep STATS 1 on io) (write_sleep STATS 0 t))))" for t
    by (intro total_on_bind write_sleep_ready)
  show ?thesis
    using a [of off] a [of "on * 2"] b [of "off div 2"] by (simp add: status_pins_def total_on_def)
qed

lemma status_led_ready:
  assumes "io_ready (pio st)"
  shows "\<exists>io. status_led dat st = Inr (st\<lparr>pio := io\<rparr>) \<and> io_ready io"
  using total_onE [OF status_pins_ready assms, of dat "s_statusled_on st" "s_statusled_off st"]
  by (metis status_led_def sbind.simps(2))

lemma alarm_thread_ok:
  assumes "daemon_ok st" "dat = alrm_code (astate st)"
  shows "\<exists>st'. alarm_thread dat st = Inr st' \<and> daemon_ok st' \<and> alarm_of st' = alarm_of st"
proof -
  have d: "exited st = None" "threads_ok st" "synced st" "parts_ok st"
    using assms(1) by (simp_all add: daemon_ok_def)
  obtain io where io: "alarm_pins dat (s_speaker st) (pio st) = Inr io" "io_ready io"
    using total_onE [OF alarm_pins_ready] d(4) unfolding parts_ok_def by blast
  show ?thesis
  proof (cases "astate st = ALRM_NONE")
    case True
    obtain ts where ts: "irthread_suspend (thrd_alarm st) (thrds st) = Inr ts" "thrds_ok ts"
        "in_use ts = in_use (thrds st)" "\<forall>j \<in> in_use ts. thrd_data ts j = thrd_data (thrds st) j"
      using irt.suspend_ok [of "thrds st" "thrd_alarm st"] d(2) by (auto simp: threads_ok_def)
    have "daemon_ok (st\<lparr>pio := io, thrds := ts\<rparr>)"
      using d io ts True by (simp add: daemon_ok_def threads_ok_def synced_def parts_ok_def)
    with io ts True assms(2) show ?thesis by (simp add: alarm_thread_def alarm_of_def)
  next
    case False
    have "daemon_ok (st\<lparr>pio := io\<rparr>)"
      using d io by (simp add: daemon_ok_def threads_ok_def synced_def parts_ok_def)
    with io False assms(2) show ?thesis by (simp add: alarm_thread_def alarm_of_def)
  qed
qed

lemma run_thread_ok:
  assumes "daemon_ok st" "i = thrd_alarm st \<or> i = thrd_status st"
  shows "\<exists>st'. run_thread i st = Inr st' \<and> daemon_ok st' \<and> alarm_of st' = alarm_of st"
proof -
  have d: "exited st = None" "threads_ok st" "synced st" "parts_ok st"
    using assms(1) by (simp_all add: daemon_ok_def)
  obtain t where t: "thrd (thrds st) i = Inr t"
    using d(2) assms(2) thrd_in_use [of i "thrds st"] by (auto simp: threads_ok_def)
  have dat: "it_data t = alrm_code (astate st)"
    using d(3) t assms(2) by (auto simp: synced_def thrd_data_def)
  obtain io where io: "status_led (it_data t) st = Inr (st\<lparr>pio := io\<rparr>)" "io_ready io"
    using status_led_ready d(4) unfolding parts_ok_def by blast
  then have s: "daemon_ok (st\<lparr>pio := io\<rparr>)"
    using d by (simp add: daemon_ok_def threads_ok_def synced_def parts_ok_def)
  show ?thesis
    using t io s alarm_thread_ok [OF assms(1) dat] assms(1)
    by (cases "it_tcb t") (auto simp: run_thread_def alarm_of_def)
qed

lemma ctl_write_ok:
  assumes "daemon_ok st"
  shows "\<exists>s. ctl_write i v st = Inr (st\<lparr>seg := s\<rparr>) \<and> daemon_ok (st\<lparr>seg := s\<rparr>) \<and>
           (\<forall>j < length initial. cell_val s j = (if j = i then v mod 256 ^ cell_width i else cell_val (seg st) j))"
proof (cases "i < length initial")
  case True
  have ok: "shm_ok (shm st, seg st)" using assms by (simp add: daemon_ok_def parts_ok_def)
  have i: "i \<in> {..<length initial}" using True by simp
  obtain m where m: "cell_wr i v (shm st, seg st) = Inr m" "shm_ok m"
    using shm.wr_ok [OF ok i, of v] by blast
  obtain s where s: "m = (shm st, s)"
    using m(1) by (auto simp: sbind_Inr_iff split: option.splits)
  have "cell_val s j = (if j = i then v mod 256 ^ cell_width i else cell_val (seg st) j)"
    if "j < length initial" for j
    using shm.rd_wr_same [OF ok i m(1)] shm.rd_wr_other [OF ok i _ _ m(1), of j] that
      cell_rd_val [of "shm st" s j] cell_rd_val [OF ok, of j] m(2) s
    by (auto simp del: cell_rd.simps cell_wr.simps)
  with m s True assms show ?thesis
    by (auto simp: ctl_write_def daemon_ok_def threads_ok_def synced_def parts_ok_def
        simp del: cell_wr.simps intro!: exI [of _ s])
next
  case False
  then have "ctl_write i v st = Inr (st\<lparr>seg := seg st\<rparr>)" by (simp add: ctl_write_def)
  with False assms show ?thesis
    by (intro exI [of _ "seg st"]) (auto simp: daemon_ok_def threads_ok_def synced_def parts_ok_def)
qed

lemma object_widths:
  "cell_width SHM_MLOOP = 4" "cell_width SHM_ACTIVE = 1" "cell_width SHM_SPKR = 1" "cell_width SHM_XMPP = 1"
  "cell_width SHM_VIDEO = 1" "cell_width SHM_STLEDON = 4" "cell_width SHM_STLEDOFF = 4"
  "cell_width SHM_MINRECVD = 4" "cell_width SHM_MINALRMS = 4" "cell_width SHM_RSTALRMS = 4"
  "cell_width SHM_ALARM = 1"
  by (simp_all add: cell_width_def initial_def)

lemma length_initial [simp]: "length initial = 11"
  by (simp add: initial_def)

text \<open>What a reload makes of the variables.\<close>

definition reloaded :: "iralarmd \<Rightarrow> iralarmd" where
  "reloaded st =
     st\<lparr>s_aactive := of_nat (cell_val (seg st) SHM_ACTIVE),
        s_speaker := of_nat (cell_val (seg st) SHM_SPKR),
        s_xmpp := (if do_xmpp st then of_nat (cell_val (seg st) SHM_XMPP) else s_xmpp st),
        s_video := of_nat (cell_val (seg st) SHM_VIDEO),
        s_mainloop := of_nat (cell_val (seg st) SHM_MLOOP),
        s_statusled_on := of_nat (cell_val (seg st) SHM_STLEDON),
        s_statusled_off := of_nat (cell_val (seg st) SHM_STLEDOFF),
        ir_minrecvd := of_nat (cell_val (seg st) SHM_MINRECVD),
        ir_minalarm := of_nat (cell_val (seg st) SHM_MINALRMS),
        ir_rstalarm := of_nat (cell_val (seg st) SHM_RSTALRMS)\<rparr>"

lemma sighup_ok:
  assumes "daemon_ok st"
  shows "sighandler pe SIGHUP st = Inr (emit (Got_signal SIGHUP) (reloaded st)) \<and>
         daemon_ok (emit (Got_signal SIGHUP) (reloaded st))"
proof -
  have ok: "shm_ok (shm st, seg st)" using assms by (simp add: daemon_ok_def parts_ok_def)
  let ?e = "emit (Got_signal SIGHUP) st"
  have e: "shm ?e = shm st" "seg ?e = seg st" "do_xmpp ?e = do_xmpp st" "s_xmpp ?e = s_xmpp st"
    by (simp_all add: emit_def)
  have byte: "GETPTR_SAFE (shm st) (seg st) i (d :: u8) = Inr (of_nat (cell_val (seg st) i))"
    if "i < 11" "cell_width i = 1" for i d
    using that by (intro GETPTR_cell [OF ok]) simp_all
  have word: "GETPTR_SAFE (shm st) (seg st) i (d :: u32) = Inr (of_nat (cell_val (seg st) i))"
    if "i < 11" "cell_width i = 4" for i d
    using that by (intro GETPTR_cell [OF ok]) simp_all
  have "reload_bytes ?e = Inr (?e\<lparr>s_aactive := of_nat (cell_val (seg st) SHM_ACTIVE),
      s_speaker := of_nat (cell_val (seg st) SHM_SPKR),
      s_xmpp := (if do_xmpp st then of_nat (cell_val (seg st) SHM_XMPP) else s_xmpp st),
      s_video := of_nat (cell_val (seg st) SHM_VIDEO)\<rparr>)"
    by (cases "do_xmpp st") (simp_all add: reload_bytes_def e byte object_widths del: One_nat_def)
  then have "sighandler pe SIGHUP st = Inr (emit (Got_signal SIGHUP) (reloaded st))"
    by (simp add: sighandler_def Let_def reload_words_def e word object_widths reloaded_def)
      (simp add: emit_def)
  moreover have "daemon_ok (emit (Got_signal SIGHUP) (reloaded st))"
    using assms by (simp add: daemon_ok_def threads_ok_def synced_def parts_ok_def emit_def reloaded_def)
  ultimately show ?thesis by simp
qed

text \<open>What the daemon leaves behind when it is terminated.\<close>

definition shut_down :: "iralarmd \<Rightarrow> iralarmd \<Rightarrow> bool" where
  "shut_down st st' \<longleftrightarrow>
     exited st' = Some 0 \<and>
     in_use (thrds st') = in_use (thrds st) - {thrd_alarm st, thrd_status st} \<and>
     (\<forall>l. levels l (io_log (pio st')) = (levels l (io_log (pio st)))(2 := False, 0 := False, 4 := False)) \<and>
     shmem (shm st') = None \<and>
     d_out st' = d_out st @ [Got_signal SIGTERM] @ (if do_xmpp st then [Xmpp_stopped] else []) @
                 [Shm_removed (shmkey (shm st)), Sem_removed (sem_id st)]"

lemma stop_thread_ok:
  assumes "thrds_ok (thrds st)" "i \<in> in_use (thrds st)"
  shows "\<exists>ts. stop_thread pe i st = Inr (st\<lparr>thrds := ts\<rparr>) \<and> thrds_ok ts \<and> in_use ts = in_use (thrds st) - {i}"
proof -
  obtain r ts where "irthread_stop pe i (thrds st) = Inr (r, ts)" "thrds_ok ts" "in_use ts = in_use (thrds st) - {i}"
    using stop_ok [of "thrds st" i pe] assms by auto
  then show ?thesis by (auto simp: stop_thread_def)
qed

lemma sigterm_ok:
  assumes "daemon_ok st"
  shows "\<exists>st'. sighandler pe SIGTERM st = Inr st' \<and> shut_down st st'"
proof -
  have d: "threads_ok st" "io_ready (pio st)"
    using assms by (simp_all add: daemon_ok_def parts_ok_def)
  let ?e = "emit (Got_signal SIGTERM) st"
  let ?s0 = "if do_xmpp ?e then emit Xmpp_stopped ?e else ?e"
  have s0: "thrds ?s0 = thrds st" "thrd_alarm ?s0 = thrd_alarm st" "thrd_status ?s0 = thrd_status st"
      "pio ?s0 = pio st" "shm ?s0 = shm st" "sem_id ?s0 = sem_id st"
      "d_out ?s0 = d_out st @ [Got_signal SIGTERM] @ (if do_xmpp st then [Xmpp_stopped] else [])"
    by (simp_all add: emit_def)
  obtain s1 where s1: "?s0 = s1" by simp
  note s0 = s0 [unfolded s1]
  obtain t1 where t1: "stop_thread pe (thrd_alarm s1) s1 = Inr (s1\<lparr>thrds := t1\<rparr>)" "thrds_ok t1"
      "in_use t1 = in_use (thrds st) - {thrd_alarm st}"
    using stop_thread_ok [of s1 "thrd_alarm s1" pe] d(1) by (auto simp: threads_ok_def s0)
  obtain t2 where t2: "stop_thread pe (thrd_status st) (s1\<lparr>thrds := t1\<rparr>) = Inr (s1\<lparr>thrds := t2\<rparr>)" "thrds_ok t2"
      "in_use t2 = in_use t1 - {thrd_status st}"
    using stop_thread_ok [of "s1\<lparr>thrds := t1\<rparr>" "thrd_status st" pe] d(1) t1 by (auto simp: threads_ok_def)
  obtain io where io: "irpio_lowall (pio st) = Inr io"
    using irpio_lowall_levels [OF d(2)] by blast
  have status: "thrd_status (s1\<lparr>thrds := t1\<rparr>) = thrd_status st" by (simp add: s0)
  have lev: "levels l (io_log io) = (levels l (io_log (pio st)))(2 := False, 0 := False, 4 := False)" for l
    using irpio_lowall_levels [OF d(2), of l] io by auto
  have "sighandler pe SIGTERM st = shutdown pe ?e"
    by (simp add: sighandler_def Let_def)
  also have "\<dots> = Inr ((emit (Sem_removed (sem_id st))
      (s1\<lparr>thrds := t2, pio := io, shm := snd (irmem_free 1 (shm st)),
          d_out := d_out s1 @ [Shm_removed (shmkey (shm st))]\<rparr>))\<lparr>exited := Some 0\<rparr>)"
    by (simp only: shutdown_def Let_def s1 t1(1) sbind.simps status t2(1))
      (simp add: io s0 irmem_free_def emit_def)
  finally show ?thesis
    using t1(3) t2(3) lev by (auto simp: shut_down_def emit_def irmem_free_def s0)
qed

lemma other_signal_ok:
  assumes "daemon_ok st" "sg \<noteq> SIGTERM" "sg \<noteq> SIGHUP"
  shows "sighandler pe sg st = Inr (emit (Got_signal sg) st) \<and> daemon_ok (emit (Got_signal sg) st)"
  using assms
  by (cases sg) (simp_all add: sighandler_def daemon_ok_def threads_ok_def synced_def parts_ok_def emit_def)

section \<open>Runs go well\<close>

lemma d_step_ok:
  assumes "daemon_ok st \<or> exited st = Some 0"
  shows "\<exists>st'. d_step pe i st = Inr st' \<and> (daemon_ok st' \<or> exited st' = Some 0)"
proof (cases "exited st = None")
  case True
  with assms have d: "daemon_ok st" by simp
  have "\<exists>st'. d_input_step pe i st = Inr st' \<and> (daemon_ok st' \<or> exited st' = Some 0)"
  proof (cases i)
    case Flank
    then show ?thesis using flank_ok [OF d] by simp
  next
    case (Tick tk)
    then show ?thesis using loop_body_ok [OF d, of pe tk] by auto
  next
    case (Signal sg)
    then show ?thesis
      using sighup_ok [OF d, of pe] sigterm_ok [OF d, of pe] other_signal_ok [OF d, of sg pe]
      by (cases "sg = SIGTERM"; cases "sg = SIGHUP") (auto simp: shut_down_def)
  next
    case Run_alarm
    then show ?thesis using run_thread_ok [OF d, of "thrd_alarm st"] by auto
  next
    case Run_status
    then show ?thesis using run_thread_ok [OF d, of "thrd_status st"] by auto
  next
    case (Ctl_write j v)
    then show ?thesis using ctl_write_ok [OF d, of j v] by auto
  qed
  with True show ?thesis by (simp add: d_step_def)
next
  case False
  with assms show ?thesis by (auto simp: d_step_def daemon_ok_def)
qed

end
