(* ===== verification/Iralarmd_Bursts.thy ===== *)
theory Iralarmd_Bursts
  imports Iralarmd
begin

text \<open>
  When the daemon raises an alarm: the counter of the main loop goes up in a cycle with too few
  flanks and down, not below zero, in the others; \<open>walk\<close> is that counter without the machine.  The
  daemon raises an alarm exactly if some stretch of consecutive cycles had more bad cycles than
  good ones by more than \<open>ir_minalarm\<close>.
\<close>

section \<open>A walk that is reflected at zero\<close>

definition walk_step :: "nat \<Rightarrow> bool \<Rightarrow> nat" where
  "walk_step n bad = (if bad then n + 1 else n - 1)"

definition walk :: "bool list \<Rightarrow> nat" where
  "walk bs = foldl walk_step 0 bs"

definition excess :: "nat \<Rightarrow> bool list \<Rightarrow> bool" where
  "excess m bs \<longleftrightarrow> m + count_list bs False < count_list bs True"

lemma walk_simps [simp]: "walk [] = 0" "walk (bs @ [b]) = walk_step (walk bs) b"
  by (simp_all add: walk_def)

lemma walk_le_length: "walk bs \<le> length bs"
  by (induction bs rule: rev_induct) (auto simp: walk_step_def)

lemma excess_snoc:
  "excess m (bs @ [True]) \<longleftrightarrow> (case m of 0 \<Rightarrow> count_list bs False \<le> count_list bs True | Suc k \<Rightarrow> excess k bs)"
  "excess m (bs @ [False]) \<longleftrightarrow> excess (Suc m) bs"
  by (auto simp: excess_def split: nat.splits)

lemma walk_gt_iff: "m < walk bs \<longleftrightarrow> (\<exists>xs. suffix xs bs \<and> excess m xs)"
proof (induction bs arbitrary: m rule: rev_induct)
  case Nil
  show ?case by (simp add: excess_def)
next
  case (snoc b bs)
  have no: "\<not> excess m []" by (simp add: excess_def)
  then have suf: "(\<exists>xs. suffix xs (bs @ [b]) \<and> excess m xs) \<longleftrightarrow> (\<exists>xs. suffix xs bs \<and> excess m (xs @ [b]))"
    by (auto simp: suffix_snoc)
  show ?case
  proof (cases b)
    case True
    show ?thesis
    proof (cases m)
      case 0
      have "suffix [] bs \<and> excess m ([] @ [b])" using True 0 by (simp add: excess_def)
      then have "\<exists>xs. suffix xs bs \<and> excess m (xs @ [b])" by blast
      with True 0 suf show ?thesis by (simp add: walk_step_def)
    next
      case (Suc k)
      with True snoc.IH [of k] show ?thesis unfolding suf by (simp add: walk_step_def excess_snoc)
    qed
  next
    case False
    with snoc.IH [of "Suc m"] show ?thesis unfolding suf by (auto simp: walk_step_def excess_snoc)
  qed
qed

lemma walk_exceeds_iff:
  "(\<exists>k \<le> length bs. m < walk (take k bs)) \<longleftrightarrow> (\<exists>ps xs ss. bs = ps @ xs @ ss \<and> excess m xs)"
proof
  assume "\<exists>k \<le> length bs. m < walk (take k bs)"
  then obtain k xs where "suffix xs (take k bs)" "excess m xs" by (auto simp: walk_gt_iff)
  then obtain ps where "take k bs = ps @ xs" by (auto simp: suffix_def)
  then have "bs = ps @ xs @ drop k bs" by (metis append_assoc append_take_drop_id)
  with \<open>excess m xs\<close> show "\<exists>ps xs ss. bs = ps @ xs @ ss \<and> excess m xs" by blast
next
  assume "\<exists>ps xs ss. bs = ps @ xs @ ss \<and> excess m xs"
  then obtain ps xs ss where b: "bs = ps @ xs @ ss" "excess m xs" by blast
  then have "suffix xs (take (length (ps @ xs)) bs)" by (auto simp: suffix_def)
  with b(2) have "m < walk (take (length (ps @ xs)) bs)" unfolding walk_gt_iff by blast
  with b(1) show "\<exists>k \<le> length bs. m < walk (take k bs)"
    by (intro exI [of _ "length (ps @ xs)"]) simp
qed

section \<open>The specification's counter\<close>

definition alarm_run :: "u32 \<Rightarrow> u32 \<Rightarrow> (bool \<times> int) list \<Rightarrow> alarm \<Rightarrow> alarm" where
  "alarm_run minalarm rstalarm cs a = foldl (\<lambda>a (bad, now). alarm_next minalarm rstalarm bad now a) a cs"

lemma alarm_run_snoc:
  "alarm_run ma rs (cs @ [(b, now)]) a = alarm_next ma rs b now (alarm_run ma rs cs a)"
  by (simp add: alarm_run_def)

lemma alarm_next_none:
  assumes "a_state a = ALRM_NONE" "unat (a_bad a) = n" "Suc n < 2 ^ 32"
  shows "if unat ma < walk_step n b then a_state (alarm_next ma rs b now a) = ALRM_PREACTIVE
         else a_state (alarm_next ma rs b now a) = ALRM_NONE \<and>
              unat (a_bad (alarm_next ma rs b now a)) = walk_step n b"
proof -
  have up: "unat (a_bad a + 1) = n + 1"
    using assms(2,3) by (simp add: unat_word_ariths)
  have down: "unat (a_bad a - 1) = n - 1" if "a_bad a > 0"
  proof -
    from that have "1 \<le> a_bad a" by (simp add: word_le_nat_alt word_less_nat_alt)
    then show ?thesis using assms(2) by (simp add: unat_sub)
  qed
  have zero: "\<not> a_bad a > 0 \<Longrightarrow> n = 0" using assms(2) by (simp add: word_gt_0)
  show ?thesis
    using assms(1) up down zero
    by (auto simp: alarm_next_def alarm_count_def alarm_move_def walk_step_def word_less_nat_alt)
qed

lemma alarm_run_quiet:
  assumes "a_state a = ALRM_NONE" "a_bad a = 0" "length cs < 2 ^ 32"
    and "\<forall>k \<le> length cs. walk (take k (map fst cs)) \<le> unat ma"
  shows "a_state (alarm_run ma rs cs a) = ALRM_NONE \<and>
         unat (a_bad (alarm_run ma rs cs a)) = walk (map fst cs)"
  using assms(3,4)
proof (induction cs rule: rev_induct)
  case Nil
  with assms show ?case by (simp add: alarm_run_def)
next
  case (snoc c cs)
  obtain b now where c: "c = (b, now)" by fastforce
  have le: "walk (take k (map fst cs)) \<le> unat ma" if "k \<le> length cs" for k
    using snoc.prems(2) [rule_format, of k] that by simp
  then have IH: "a_state (alarm_run ma rs cs a) = ALRM_NONE"
      "unat (a_bad (alarm_run ma rs cs a)) = walk (map fst cs)"
    using snoc by auto
  have "Suc (walk (map fst cs)) < 2 ^ 32"
    using walk_le_length [of "map fst cs"] snoc.prems(1) by simp
  moreover have "walk_step (walk (map fst cs)) b \<le> unat ma"
    using snoc.prems(2) [rule_format, of "length (cs @ [c])"] by (simp add: c)
  ultimately show ?case
    using alarm_next_none [OF IH, of ma b rs now] by (simp add: c alarm_run_snoc)
qed

lemma alarm_run_raised_iff:
  assumes "a_state a = ALRM_NONE" "a_bad a = 0" "length cs < 2 ^ 32"
  shows "(\<exists>k \<le> length cs. a_state (alarm_run ma rs (take k cs) a) \<noteq> ALRM_NONE) \<longleftrightarrow>
         (\<exists>k \<le> length cs. unat ma < walk (take k (map fst cs)))"
proof
  assume "\<exists>k \<le> length cs. a_state (alarm_run ma rs (take k cs) a) \<noteq> ALRM_NONE"
  then obtain k where k: "k \<le> length cs" "a_state (alarm_run ma rs (take k cs) a) \<noteq> ALRM_NONE" by blast
  show "\<exists>k \<le> length cs. unat ma < walk (take k (map fst cs))"
  proof (rule ccontr)
    assume "\<not> ?thesis"
    then have "\<forall>j \<le> length (take k cs). walk (take j (map fst (take k cs))) \<le> unat ma"
      using k(1) by (auto simp: take_map [symmetric] not_less min_def)
    with alarm_run_quiet [OF assms(1,2), of "take k cs" ma rs] assms(3) k show False by simp
  qed
next
  assume "\<exists>k \<le> length cs. unat ma < walk (take k (map fst cs))"
  then obtain k where k: "k \<le> length cs \<and> unat ma < walk (take k (map fst cs))"
      "\<And>j. j < k \<Longrightarrow> \<not> (j \<le> length cs \<and> unat ma < walk (take j (map fst cs)))"
    using exists_least_iff [of "\<lambda>k. k \<le> length cs \<and> unat ma < walk (take k (map fst cs))"] by blast
  then obtain j where j: "k = Suc j" by (cases k) auto
  obtain b now where c: "cs ! j = (b, now)" by fastforce
  have tk: "take k cs = take j cs @ [(b, now)]"
    using k(1) by (simp add: j take_Suc_conv_app_nth c)
  have "\<forall>i \<le> length (take j cs). walk (take i (map fst (take j cs))) \<le> unat ma"
    using k by (auto simp: j take_map [symmetric] not_less min_def)
  then have quiet: "a_state (alarm_run ma rs (take j cs) a) = ALRM_NONE"
      "unat (a_bad (alarm_run ma rs (take j cs) a)) = walk (map fst (take j cs))"
    using alarm_run_quiet [OF assms(1,2), of "take j cs" ma rs] assms(3) by auto
  have "Suc (walk (map fst (take j cs))) < 2 ^ 32"
    using walk_le_length [of "map fst (take j cs)"] k(1) assms(3) by (simp add: j)
  moreover have "unat ma < walk_step (walk (map fst (take j cs))) b"
  proof -
    have "take k (map fst cs) = map fst (take j cs) @ [b]"
      using tk by (simp add: take_map)
    with k(1) show ?thesis by (simp only: walk_simps)
  qed
  ultimately have "a_state (alarm_run ma rs (take k cs) a) = ALRM_PREACTIVE"
    using alarm_next_none [OF quiet, of ma b rs now] by (simp add: tk alarm_run_snoc)
  with k(1) show "\<exists>k \<le> length cs. a_state (alarm_run ma rs (take k cs) a) \<noteq> ALRM_NONE" by auto
qed

section \<open>The end of an alarm\<close>

definition good_cycles :: "bool list \<Rightarrow> nat" where
  "good_cycles bs = count_list bs False"

lemma good_cycles_snoc: "good_cycles (bs @ [b]) = good_cycles bs + (if b then 0 else 1)"
  by (simp add: good_cycles_def)

lemma good_cycles_le: "good_cycles bs \<le> length bs"
  by (simp add: good_cycles_def count_le_length)

lemma alarm_next_active:
  assumes "a_state a = ALRM_ACTIVE" "unat (a_good a) = n" "Suc n < 2 ^ 32" "n \<le> unat rs"
  shows "if unat rs < n + (if b then 0 else 1) then a_state (alarm_next ma rs b now a) = ALRM_NONE
         else a_state (alarm_next ma rs b now a) = ALRM_ACTIVE \<and>
              unat (a_good (alarm_next ma rs b now a)) = n + (if b then 0 else 1)"
proof -
  have "unat (a_good a + 1) = n + 1"
    using assms(2,3) by (simp add: unat_word_ariths)
  then show ?thesis
    using assms(1,2,4)
    by (auto simp: alarm_next_def alarm_count_def alarm_move_def word_less_nat_alt)
qed

lemma alarm_run_active:
  assumes "a_state a = ALRM_ACTIVE" "a_good a = 0" "length cs < 2 ^ 32" "good_cycles (map fst cs) \<le> unat rs"
  shows "a_state (alarm_run ma rs cs a) = ALRM_ACTIVE \<and>
         unat (a_good (alarm_run ma rs cs a)) = good_cycles (map fst cs)"
  using assms(3,4)
proof (induction cs rule: rev_induct)
  case Nil
  with assms show ?case by (simp add: alarm_run_def good_cycles_def)
next
  case (snoc c cs)
  obtain b now where c: "c = (b, now)" by fastforce
  have le: "good_cycles (map fst cs) \<le> unat rs"
    using snoc.prems(2) by (simp add: c good_cycles_snoc split: if_splits)
  with snoc have IH: "a_state (alarm_run ma rs cs a) = ALRM_ACTIVE"
      "unat (a_good (alarm_run ma rs cs a)) = good_cycles (map fst cs)"
    by auto
  have "Suc (good_cycles (map fst cs)) < 2 ^ 32"
    using good_cycles_le [of "map fst cs"] snoc.prems(1) by simp
  with alarm_next_active [OF IH, of rs b ma now] le snoc.prems(2) show ?case
    by (simp add: c alarm_run_snoc good_cycles_snoc split: if_splits)
qed

lemma alarm_run_ends_iff:
  assumes "a_state a = ALRM_ACTIVE" "a_good a = 0" "length cs < 2 ^ 32"
  shows "(\<exists>k \<le> length cs. a_state (alarm_run ma rs (take k cs) a) \<noteq> ALRM_ACTIVE) \<longleftrightarrow>
         unat rs < good_cycles (map fst cs)"
proof
  assume "\<exists>k \<le> length cs. a_state (alarm_run ma rs (take k cs) a) \<noteq> ALRM_ACTIVE"
  then obtain k where k: "k \<le> length cs" "a_state (alarm_run ma rs (take k cs) a) \<noteq> ALRM_ACTIVE" by blast
  then have "unat rs < good_cycles (map fst (take k cs))"
    using alarm_run_active [OF assms(1,2), of "take k cs" rs ma] assms(3) by fastforce
  also have "\<dots> \<le> good_cycles (map fst cs)"
  proof -
    have "map fst cs = map fst (take k cs) @ map fst (drop k cs)"
      by (simp flip: map_append)
    then show ?thesis by (simp add: good_cycles_def)
  qed
  finally show "unat rs < good_cycles (map fst cs)" .
next
  assume "unat rs < good_cycles (map fst cs)"
  then show "\<exists>k \<le> length cs. a_state (alarm_run ma rs (take k cs) a) \<noteq> ALRM_ACTIVE"
    using assms(3)
  proof (induction cs rule: rev_induct)
    case Nil
    then show ?case by (simp add: good_cycles_def)
  next
    case (snoc c cs)
    show ?case
    proof (cases "unat rs < good_cycles (map fst cs)")
      case True
      with snoc obtain k where "k \<le> length cs" "a_state (alarm_run ma rs (take k cs) a) \<noteq> ALRM_ACTIVE" by auto
      then show ?thesis by (intro exI [of _ k]) simp
    next
      case False
      obtain b now where c: "c = (b, now)" by fastforce
      have q: "a_state (alarm_run ma rs cs a) = ALRM_ACTIVE"
          "unat (a_good (alarm_run ma rs cs a)) = good_cycles (map fst cs)"
        using alarm_run_active [OF assms(1,2), of cs rs ma] snoc.prems(2) False by auto
      have "Suc (good_cycles (map fst cs)) < 2 ^ 32"
        using good_cycles_le [of "map fst cs"] snoc.prems(2) by simp
      with alarm_next_active [OF q, of rs b ma now] snoc.prems(1) False
      have "a_state (alarm_run ma rs (cs @ [c]) a) = ALRM_NONE"
        by (simp add: c alarm_run_snoc good_cycles_snoc split: if_splits)
      then show ?thesis by (intro exI [of _ "length (cs @ [c])"]) simp
    qed
  qed
qed

section \<open>Cycles of the daemon\<close>

text \<open>A cycle: a number of flanks, and the iteration that counts them.\<close>

definition cycle_inputs :: "(nat \<times> tick) list \<Rightarrow> d_input list" where
  "cycle_inputs cs = concat (map (\<lambda>(n, tk). replicate n Flank @ [Tick tk]) cs)"

definition cycle_bad :: "u32 \<Rightarrow> nat \<times> tick \<Rightarrow> bool" where
  "cycle_bad minrecvd c \<longleftrightarrow> fst c < unat minrecvd"

lemma d_run_append: "d_run pe (is @ js) st = sbind (d_run pe is st) (d_run pe js)"
  by (simp add: d_run_def sfoldM_append)

lemma d_run_flanks:
  "daemon_ok st \<Longrightarrow>
   d_run pe (replicate n Flank) st = Inr (st\<lparr>ir_recvd := ir_recvd st + of_nat n\<rparr>) \<and>
   daemon_ok (st\<lparr>ir_recvd := ir_recvd st + of_nat n\<rparr>)"
proof (induction n arbitrary: st)
  case 0
  then show ?case by (simp add: d_run_def)
next
  case (Suc n)
  have e: "exited st = None" using Suc.prems by (simp add: daemon_ok_def)
  note f = flank_ok [OF Suc.prems]
  from Suc.IH [OF conjunct2 [OF f]] f e show ?case
    by (simp add: d_run_def d_step_def add.assoc)
qed

lemma d_run_cycles:
  assumes "daemon_ok st" "ir_recvd st = 0" "\<forall>c \<in> set cs. fst c < 2 ^ 32"
  shows "\<exists>st'. d_run pe (cycle_inputs cs) st = Inr st' \<and> daemon_ok st' \<and> ir_recvd st' = 0 \<and>
           alarm_of st' = alarm_run (ir_minalarm st) (ir_rstalarm st)
             (map (\<lambda>c. (cycle_bad (ir_minrecvd st) c, t_now (snd c))) cs) (alarm_of st)"
  using assms
proof (induction cs arbitrary: st)
  case Nil
  then show ?case by (simp add: cycle_inputs_def d_run_def alarm_run_def)
next
  case (Cons c cs)
  obtain n tk where c: "c = (n, tk)" by fastforce
  let ?s1 = "st\<lparr>ir_recvd := ir_recvd st + of_nat n\<rparr>"
  have f: "d_run pe (replicate n Flank) st = Inr ?s1" "daemon_ok ?s1"
    using d_run_flanks [OF Cons.prems(1)] by auto
  obtain s2 where s2: "loop_body pe tk ?s1 = Inr s2" "daemon_ok s2" "ir_recvd s2 = 0"
      "alarm_of s2 = alarm_next (ir_minalarm st) (ir_rstalarm st) (ir_recvd ?s1 < ir_minrecvd st) (t_now tk) (alarm_of ?s1)"
      "ir_minrecvd s2 = ir_minrecvd st" "ir_minalarm s2 = ir_minalarm st" "ir_rstalarm s2 = ir_rstalarm st"
    using loop_body_ok [OF f(2), of pe tk] by auto
  have tick: "d_run pe [Tick tk] ?s1 = Inr s2"
    using s2(1) f(2) by (simp add: d_run_def d_step_def daemon_ok_def)
  have bad: "ir_recvd ?s1 < ir_minrecvd st \<longleftrightarrow> cycle_bad (ir_minrecvd st) c"
    using Cons.prems(2,3) by (simp add: c cycle_bad_def word_less_nat_alt unat_of_nat)
  have abs: "alarm_of ?s1 = alarm_of st" by (simp add: alarm_of_def)
  obtain st' where st': "d_run pe (cycle_inputs cs) s2 = Inr st'" "daemon_ok st'" "ir_recvd st' = 0"
      "alarm_of st' = alarm_run (ir_minalarm s2) (ir_rstalarm s2)
         (map (\<lambda>c. (cycle_bad (ir_minrecvd s2) c, t_now (snd c))) cs) (alarm_of s2)"
    using Cons.IH [OF s2(2,3)] Cons.prems(3) by auto
  have "d_run pe (cycle_inputs (c # cs)) st = Inr st'"
  proof -
    have "cycle_inputs (c # cs) = replicate n Flank @ [Tick tk] @ cycle_inputs cs"
      by (simp add: cycle_inputs_def c)
    then show ?thesis by (simp only: d_run_append f(1) tick st'(1) sbind.simps)
  qed
  moreover have "(ir_recvd st + of_nat n < ir_minrecvd st) = cycle_bad (ir_minrecvd st) (n, tk)"
    using bad by (simp add: c)
  ultimately show ?case
    using st' s2 by (simp add: alarm_run_def c abs)
qed

end
