(* ===== verification/Iralarmd_Init.thy ===== *)
theory Iralarmd_Init
  imports Iralarmd_Bursts
begin

text \<open>
  How the daemon gets to its main loop (the second half of \<open>main\<close> in \<open>iralarm/iralarmd.c\<close>): the
  shared segment is created and filled with the variables, the threads are started, the interrupt
  handler is registered, the semaphore is taken over and raised.

  Facts: the main loop starts in a state of the invariant \<open>daemon_ok\<close>, and with the segment holding
  the variables; what happens when a step fails.
\<close>

section \<open>The steps\<close>

record d_env =
  e_shm :: shm_env
  e_pio :: irpio_env
  e_status :: pthread_env
  e_alarm :: pthread_env
  e_semget :: int
  e_semval :: nat \<comment> \<open>the value that the semaphore has already\<close>

text \<open>The calls of \<open>SETPTR_SAFE\<close>, in the order of the source.\<close>

definition export_vars :: "iralarmd \<Rightarrow> seg \<Rightarrow> seg c_result" where
  "export_vars st s =
     sbind (SETPTR_SAFE (shm st) SHM_ACTIVE (s_aactive st) s) (\<lambda>s.
     sbind (SETPTR_SAFE (shm st) SHM_MLOOP (s_mainloop st) s) (\<lambda>s.
     sbind (SETPTR_SAFE (shm st) SHM_SPKR (s_speaker st) s) (\<lambda>s.
     sbind (if do_xmpp st then SETPTR_SAFE (shm st) SHM_XMPP (s_xmpp st) s else Inr s) (\<lambda>s.
     sbind (SETPTR_SAFE (shm st) SHM_VIDEO (s_video st) s) (\<lambda>s.
     sbind (SETPTR_SAFE (shm st) SHM_STLEDON (s_statusled_on st) s) (\<lambda>s.
     sbind (SETPTR_SAFE (shm st) SHM_STLEDOFF (s_statusled_off st) s) (\<lambda>s.
     sbind (SETPTR_SAFE (shm st) SHM_MINRECVD (ir_minrecvd st) s) (\<lambda>s.
     sbind (SETPTR_SAFE (shm st) SHM_MINALRMS (ir_minalarm st) s) (\<lambda>s.
     SETPTR_SAFE (shm st) SHM_RSTALRMS (ir_rstalarm st) s)))))))))"

text \<open>\<open>SETPTR_SAFE (SHM_ALARM, astate, s_astate)\<close> also sets the pointer \<open>s_astate\<close>.\<close>

definition export_state :: "iralarmd \<Rightarrow> iralarmd c_result" where
  "export_state st =
     sbind (irmem_getptr (shm st) SHM_ALARM) (\<lambda>p.
     sbind (SETPTR_SAFE (shm st) SHM_ALARM (of_nat (alrm_num (astate st)) :: u8) (seg st)) (\<lambda>s.
     Inr (st\<lparr>s_astate := p, seg := s\<rparr>)))"

definition start_threads :: "d_env \<Rightarrow> iralarmd \<Rightarrow> iralarmd c_result" where
  "start_threads env st =
     (case irthread_start (e_status env) Status_led (thrds st) of (i, ts) \<Rightarrow>
        case irthread_start (e_alarm env) Alarm_thread ts of (j, ts) \<Rightarrow>
          sbind (irthread_suspend j ts) (\<lambda>ts.
          Inr (st\<lparr>thrd_status := i, thrd_alarm := j, thrds := ts\<rparr>)))"

abbreviation (input) RPIO_PWM_CLOCK :: u32 where "RPIO_PWM_CLOCK \<equiv> 199" \<comment> \<open>199.15 as an \<open>int\<close>\<close>
abbreviation (input) RPIO_PWM_RANGE :: u32 where "RPIO_PWM_RANGE \<equiv> 1024"

definition register_isr :: "d_env \<Rightarrow> iralarmd \<Rightarrow> iralarmd c_result" where
  "register_isr env st =
     sbind (irpio_isr (e_pio env) (unat (irpio_getpin IRECV)) Ir_flank (pio st))
       (\<lambda>(_, io). Inr (st\<lparr>pio := io\<rparr>))"

definition take_semaphore :: "d_env \<Rightarrow> iralarmd \<Rightarrow> iralarmd c_result" where
  "take_semaphore env st =
     (let st1 = st\<lparr>sem_id := e_semget env\<rparr>
      in if e_semget env = -1 then sighandler (e_alarm env) SIGTERM st1
         else Inr (sem_post (st1\<lparr>semval := e_semval env\<rparr>)))"

definition daemon_setup :: "d_env \<Rightarrow> iralarmd \<Rightarrow> iralarmd c_result" where
  "daemon_setup env st =
     (case irmem_init (e_shm env) 1 (shm st) of (r, sh) \<Rightarrow>
        let st = st\<lparr>shm := sh\<rparr>
        in if r \<noteq> IRSM_OK then Inr (st\<lparr>exited := Some 1\<rparr>)
           else
             sbind (export_vars st (seg st)) (\<lambda>s.
             sbind (export_state (st\<lparr>seg := s\<rparr>)) (\<lambda>st.
             sbind (irpio_setvalue IRLED (RPIO_PWM_RANGE - 1) (pio st)) (\<lambda>io.
             sbind (start_threads env (st\<lparr>pio := io\<rparr>)) (\<lambda>st.
             sbind (register_isr env st) (take_semaphore env))))))"

section \<open>The segment holds the variables\<close>

definition exported :: "iralarmd \<Rightarrow> bool" where
  "exported st \<longleftrightarrow>
     cell_val (seg st) SHM_ACTIVE = unat (s_aactive st) \<and>
     cell_val (seg st) SHM_MLOOP = unat (s_mainloop st) \<and>
     cell_val (seg st) SHM_SPKR = unat (s_speaker st) \<and>
     (do_xmpp st \<longrightarrow> cell_val (seg st) SHM_XMPP = unat (s_xmpp st)) \<and>
     cell_val (seg st) SHM_VIDEO = unat (s_video st) \<and>
     cell_val (seg st) SHM_STLEDON = unat (s_statusled_on st) \<and>
     cell_val (seg st) SHM_STLEDOFF = unat (s_statusled_off st) \<and>
     cell_val (seg st) SHM_MINRECVD = unat (ir_minrecvd st) \<and>
     cell_val (seg st) SHM_MINALRMS = unat (ir_minalarm st) \<and>
     cell_val (seg st) SHM_RSTALRMS = unat (ir_rstalarm st)"

lemma set_byte:
  assumes "shm_ok (sh, s)" "i < 11" "cell_width i = 1"
  shows "\<exists>s'. SETPTR_SAFE sh i (v :: u8) s = Inr s' \<and> shm_ok (sh, s') \<and>
           (\<forall>j < 11. cell_val s' j = (if j = i then unat v else cell_val s j))"
  using SETPTR_cell [OF assms(1), of i v] assms(2,3) by auto

lemma set_word:
  assumes "shm_ok (sh, s)" "i < 11" "cell_width i = 4"
  shows "\<exists>s'. SETPTR_SAFE sh i (v :: u32) s = Inr s' \<and> shm_ok (sh, s') \<and>
           (\<forall>j < 11. cell_val s' j = (if j = i then unat v else cell_val s j))"
  using SETPTR_cell [OF assms(1), of i v] assms(2,3) by auto

lemma export_vars_ok:
  assumes "shm_ok (shm st, s)"
  shows "\<exists>s'. export_vars st s = Inr s' \<and> shm_ok (shm st, s') \<and> exported (st\<lparr>seg := s'\<rparr>) \<and>
           cell_val s' SHM_ALARM = cell_val s SHM_ALARM"
proof -
  note w = object_widths
  obtain s1 where s1: "SETPTR_SAFE (shm st) SHM_ACTIVE (s_aactive st) s = Inr s1" "shm_ok (shm st, s1)"
      "\<forall>j < 11. cell_val s1 j = (if j = SHM_ACTIVE then unat (s_aactive st) else cell_val s j)"
    using set_byte [OF assms _ w(2), of "s_aactive st"] by auto
  obtain s2 where s2: "SETPTR_SAFE (shm st) SHM_MLOOP (s_mainloop st) s1 = Inr s2" "shm_ok (shm st, s2)"
      "\<forall>j < 11. cell_val s2 j = (if j = SHM_MLOOP then unat (s_mainloop st) else cell_val s1 j)"
    using set_word [OF s1(2) _ w(1), of "s_mainloop st"] by auto
  obtain s3 where s3: "SETPTR_SAFE (shm st) SHM_SPKR (s_speaker st) s2 = Inr s3" "shm_ok (shm st, s3)"
      "\<forall>j < 11. cell_val s3 j = (if j = SHM_SPKR then unat (s_speaker st) else cell_val s2 j)"
    using set_byte [OF s2(2) _ w(3), of "s_speaker st"] by auto
  obtain s4 where s4: "(if do_xmpp st then SETPTR_SAFE (shm st) SHM_XMPP (s_xmpp st) s3 else Inr s3) = Inr s4"
      "shm_ok (shm st, s4)"
      "\<forall>j < 11. cell_val s4 j = (if do_xmpp st \<and> j = SHM_XMPP then unat (s_xmpp st) else cell_val s3 j)"
    using set_byte [OF s3(2) _ w(4), of "s_xmpp st"] s3(2) by (cases "do_xmpp st") auto
  obtain s5 where s5: "SETPTR_SAFE (shm st) SHM_VIDEO (s_video st) s4 = Inr s5" "shm_ok (shm st, s5)"
      "\<forall>j < 11. cell_val s5 j = (if j = SHM_VIDEO then unat (s_video st) else cell_val s4 j)"
    using set_byte [OF s4(2) _ w(5), of "s_video st"] by auto
  obtain s6 where s6: "SETPTR_SAFE (shm st) SHM_STLEDON (s_statusled_on st) s5 = Inr s6" "shm_ok (shm st, s6)"
      "\<forall>j < 11. cell_val s6 j = (if j = SHM_STLEDON then unat (s_statusled_on st) else cell_val s5 j)"
    using set_word [OF s5(2) _ w(6), of "s_statusled_on st"] by auto
  obtain s7 where s7: "SETPTR_SAFE (shm st) SHM_STLEDOFF (s_statusled_off st) s6 = Inr s7" "shm_ok (shm st, s7)"
      "\<forall>j < 11. cell_val s7 j = (if j = SHM_STLEDOFF then unat (s_statusled_off st) else cell_val s6 j)"
    using set_word [OF s6(2) _ w(7), of "s_statusled_off st"] by auto
  obtain s8 where s8: "SETPTR_SAFE (shm st) SHM_MINRECVD (ir_minrecvd st) s7 = Inr s8" "shm_ok (shm st, s8)"
      "\<forall>j < 11. cell_val s8 j = (if j = SHM_MINRECVD then unat (ir_minrecvd st) else cell_val s7 j)"
    using set_word [OF s7(2) _ w(8), of "ir_minrecvd st"] by auto
  obtain s9 where s9: "SETPTR_SAFE (shm st) SHM_MINALRMS (ir_minalarm st) s8 = Inr s9" "shm_ok (shm st, s9)"
      "\<forall>j < 11. cell_val s9 j = (if j = SHM_MINALRMS then unat (ir_minalarm st) else cell_val s8 j)"
    using set_word [OF s8(2) _ w(9), of "ir_minalarm st"] by auto
  obtain s10 where s10: "SETPTR_SAFE (shm st) SHM_RSTALRMS (ir_rstalarm st) s9 = Inr s10" "shm_ok (shm st, s10)"
      "\<forall>j < 11. cell_val s10 j = (if j = SHM_RSTALRMS then unat (ir_rstalarm st) else cell_val s9 j)"
    using set_word [OF s9(2) _ w(10), of "ir_rstalarm st"] by auto
  have "export_vars st s = Inr s10"
    by (simp only: export_vars_def s1(1) s2(1) s3(1) s4(1) s5(1) s6(1) s7(1) s8(1) s9(1) s10(1) sbind.simps)
  moreover have "exported (st\<lparr>seg := s10\<rparr>)" "cell_val s10 SHM_ALARM = cell_val s SHM_ALARM"
    by (simp_all add: exported_def s1(3) s2(3) s3(3) s4(3) s5(3) s6(3) s7(3) s8(3) s9(3) s10(3))
  ultimately show ?thesis using s10(2) by blast
qed

lemma export_state_ok:
  assumes "shm_ok (shm st, seg st)" "exported st"
  shows "\<exists>s. export_state st = Inr (st\<lparr>s_astate := Some (cell_ptr SHM_ALARM), seg := s\<rparr>) \<and>
           shm_ok (shm st, s) \<and> exported (st\<lparr>seg := s\<rparr>) \<and> cell_val s SHM_ALARM = alrm_num (astate st)"
proof -
  have "alrm_num (astate st) < 256" by (cases "astate st") simp_all
  then have num: "unat (of_nat (alrm_num (astate st)) :: u8) = alrm_num (astate st)"
    by (simp add: unat_of_nat)
  obtain s where "SETPTR_SAFE (shm st) SHM_ALARM (of_nat (alrm_num (astate st)) :: u8) (seg st) = Inr s"
      "shm_ok (shm st, s)"
      "\<forall>j < 11. cell_val s j = (if j = SHM_ALARM then alrm_num (astate st) else cell_val (seg st) j)"
    using set_byte [OF assms(1) _ object_widths(11), of "of_nat (alrm_num (astate st))"] num by auto
  then show ?thesis
    using assms by (intro exI [of _ s]) (simp add: export_state_def exported_def)
qed

section \<open>Threads, interrupt and semaphore\<close>

definition pthread_fine :: "pthread_env \<Rightarrow> bool" where
  "pthread_fine pe \<longleftrightarrow> mutex_init_ret pe = 0 \<and> cond_init_ret pe = 0 \<and> create_ret pe = 0"

lemma start_threads_ok:
  assumes "thrds st = thrds_static" "pthread_fine (e_status env)" "pthread_fine (e_alarm env)"
    and "astate st = ALRM_NONE"
  shows "\<exists>ts. start_threads env st = Inr (st\<lparr>thrd_status := 0, thrd_alarm := 1, thrds := ts\<rparr>) \<and>
           threads_ok (st\<lparr>thrd_status := 0, thrd_alarm := 1, thrds := ts\<rparr>) \<and>
           synced (st\<lparr>thrd_status := 0, thrd_alarm := 1, thrds := ts\<rparr>) \<and>
           thrd_susp ts 1"
proof -
  have c: "create_ret (e_status env) = 0" "create_ret (e_alarm env) = 0"
      "mutex_init_ret (e_status env) = 0" "mutex_init_ret (e_alarm env) = 0"
      "cond_init_ret (e_status env) = 0" "cond_init_ret (e_alarm env) = 0"
    using assms(2,3) by (simp_all add: pthread_fine_def)
  have four: "(thrds_static :: thread_cb thrds) = [None, None, None, None]"
    by (simp add: thrds_static_def MAX_THREADS_def numeral_eq_Suc)
  let ?A = "\<lparr>it_actv = True, it_used = True, it_susp = False, it_tid = new_tid (e_status env), it_id = 0,
      it_tcb = Status_led, it_data = 0\<rparr>"
  let ?B = "\<lparr>it_actv = True, it_used = True, it_susp = False, it_tid = new_tid (e_alarm env), it_id = 1,
      it_tcb = Alarm_thread, it_data = 0\<rparr>"
  let ?ts = "[Some ?A, Some (?B\<lparr>it_susp := True\<rparr>), None, None]"
  have 1: "irthread_start (e_status env) Status_led (thrds st) = (0, [Some ?A, None, None, None])"
    by (simp add: assms(1) four irthread_start_def MAX_THREADS_def c)
  have 2: "irthread_start (e_alarm env) Alarm_thread [Some ?A, None, None, None] = (1, [Some ?A, Some ?B, None, None])"
    by (simp add: irthread_start_def MAX_THREADS_def c)
  have 3: "irthread_suspend 1 [Some ?A, Some ?B, None, None] = Inr ?ts"
    by (simp add: irthread_suspend_def thrd_def thrd_put_def)
  let ?st = "st\<lparr>thrd_status := 0, thrd_alarm := 1, thrds := ?ts\<rparr>"
  have ok: "thrds_ok ?ts"
    by (auto simp: thrds_ok_def MAX_THREADS_def less_Suc_eq numeral_eq_Suc)
  have use: "0 \<in> in_use ?ts" "1 \<in> in_use ?ts" by (simp_all add: in_use_def)
  have "start_threads env st = Inr ?st"
    by (simp add: start_threads_def 1 2 3)
  moreover have "threads_ok ?st" using ok use by (simp add: threads_ok_def)
  moreover have "synced ?st" "thrd_susp ?ts 1"
    using assms(4) by (simp_all add: synced_def thrd_data_def thrd_susp_def thrd_def alrm_code_def)
  ultimately show ?thesis by blast
qed

text \<open>What \<open>__isr_init\<close> needs: its tables, and a thread if the pin's file can be opened.\<close>

definition isr_fine :: "irpio_env \<Rightarrow> irpio \<Rightarrow> bool" where
  "isr_fine env io \<longleftrightarrow> length (sysFds io) = 64 \<and> length (isrFunctions io) = 64 \<and> isr_thread env"

lemma setvalue_keeps_isr:
  assumes "irpio_setvalue p v io = Inr io'"
  shows "sysFds io' = sysFds io \<and> isrFunctions io' = isrFunctions io"
proof -
  have "sysFds io' = sysFds io \<and> isrFunctions io' = isrFunctions io" if "wr b r x io = Inr io'" for b r x
    using that by (cases b) (auto simp: wr_def log_io_def split: option.splits)
  with assms show ?thesis
    by (auto simp: irpio_setvalue_def digitalWrite_def pwmWrite_def sbind_Inr_iff split: if_splits)
qed

lemma irpio_isr_ok:
  assumes "io_ready io" "isr_fine env io" "pin < 64"
  shows "\<exists>r io'. irpio_isr env pin f io = Inr (r, io') \<and> io_ready io'"
  using assms
  by (auto simp: irpio_isr_def isr_init_def isr_fine_def interruptHandler_start_def io_ready_def io_mapped_def Let_def)

section \<open>The main loop starts well\<close>

definition setup_granted :: "d_env \<Rightarrow> iralarmd \<Rightarrow> bool" where
  "setup_granted env st \<longleftrightarrow>
     fst (irmem_init (e_shm env) 1 (shm st)) = IRSM_OK \<and> 4096 \<le> length (seg st) \<and>
     pthread_fine (e_status env) \<and> pthread_fine (e_alarm env) \<and>
     isr_fine (e_pio env) (pio st) \<and> e_semget env \<noteq> -1"

text \<open>What the program has done before: the pins are initialised, nothing else has been touched.\<close>

definition before_setup :: "iralarmd \<Rightarrow> bool" where
  "before_setup st \<longleftrightarrow> io_ready (pio st) \<and> thrds st = thrds_static \<and> astate st = ALRM_NONE \<and> exited st = None"

lemma daemon_setup_ok:
  assumes "before_setup st" "setup_granted env st"
  shows "\<exists>st'. daemon_setup env st = Inr st' \<and> exited st' = None \<and> threads_ok st' \<and> synced st' \<and>
           shm_ok (shm st', seg st') \<and> s_astate st' = Some (cell_ptr SHM_ALARM) \<and> io_ready (pio st') \<and>
           semval st' = e_semval env + 1 \<and> exported st' \<and> cell_val (seg st') SHM_ALARM = 0 \<and>
           thrd_susp (thrds st') (thrd_alarm st') \<and> alarm_of st' = alarm_of st \<and> ir_recvd st' = ir_recvd st \<and>
           ir_minalarm st' = ir_minalarm st \<and> ir_minrecvd st' = ir_minrecvd st"
proof -
  have b: "io_ready (pio st)" "thrds st = thrds_static" "astate st = ALRM_NONE" "exited st = None"
    using assms(1) by (simp_all add: before_setup_def)
  have g: "fst (irmem_init (e_shm env) 1 (shm st)) = IRSM_OK" "4096 \<le> length (seg st)"
      "pthread_fine (e_status env)" "pthread_fine (e_alarm env)" "isr_fine (e_pio env) (pio st)" "e_semget env \<noteq> -1"
    using assms(2) by (simp_all add: setup_granted_def)
  obtain sh where sh: "irmem_init (e_shm env) 1 (shm st) = (IRSM_OK, sh)"
    using g(1) by (cases "irmem_init (e_shm env) 1 (shm st)") simp
  let ?s0 = "st\<lparr>shm := sh\<rparr>"
  have ok0: "shm_ok (shm ?s0, seg ?s0)"
    using irmem_init_outcome [OF sh] g(2) by simp
  obtain s where s: "export_vars ?s0 (seg ?s0) = Inr s" "shm_ok (sh, s)" "exported (?s0\<lparr>seg := s\<rparr>)"
    using export_vars_ok [OF ok0] by auto
  let ?s1 = "?s0\<lparr>seg := s\<rparr>"
  obtain s' where s': "export_state ?s1 = Inr (?s1\<lparr>s_astate := Some (cell_ptr SHM_ALARM), seg := s'\<rparr>)"
      "shm_ok (sh, s')" "exported (?s1\<lparr>seg := s'\<rparr>)" "cell_val s' SHM_ALARM = 0"
    using export_state_ok [of ?s1] s(2,3) b(3) by auto
  let ?s2 = "?s1\<lparr>s_astate := Some (cell_ptr SHM_ALARM), seg := s'\<rparr>"
  obtain io where io: "irpio_setvalue IRLED (RPIO_PWM_RANGE - 1) (pio st) = Inr io" "io_ready io"
    using total_onE [OF irpio_setvalue_ready b(1)] by blast
  let ?s3 = "?s2\<lparr>pio := io\<rparr>"
  obtain ts where ts: "start_threads env ?s3 = Inr (?s3\<lparr>thrd_status := 0, thrd_alarm := 1, thrds := ts\<rparr>)"
      "threads_ok (?s3\<lparr>thrd_status := 0, thrd_alarm := 1, thrds := ts\<rparr>)"
      "synced (?s3\<lparr>thrd_status := 0, thrd_alarm := 1, thrds := ts\<rparr>)" "thrd_susp ts 1"
    using start_threads_ok [of ?s3 env] b g by auto
  let ?s4 = "?s3\<lparr>thrd_status := 0, thrd_alarm := 1, thrds := ts\<rparr>"
  have "isr_fine (e_pio env) io"
    using setvalue_keeps_isr [OF io(1)] g(5) by (simp add: isr_fine_def)
  then obtain r io' where io': "irpio_isr (e_pio env) (unat (irpio_getpin IRECV)) Ir_flank io = Inr (r, io')" "io_ready io'"
    using irpio_isr_ok [OF io(2), of "e_pio env" "unat (irpio_getpin IRECV)" Ir_flank]
    by (auto simp: irpio_getpin_def)
  let ?s5 = "?s4\<lparr>pio := io'\<rparr>"
  have isr: "register_isr env ?s4 = Inr ?s5" by (simp add: register_isr_def io'(1))
  let ?r = "sem_post (?s5\<lparr>sem_id := e_semget env, semval := e_semval env\<rparr>)"
  have same: "pio ?s2 = pio st" by simp
  have "daemon_setup env st = take_semaphore env ?s5"
    by (simp only: daemon_setup_def sh prod.case Let_def s(1) s'(1) sbind.simps simp_thms if_False
        same io(1) ts(1) isr)
  also have "\<dots> = Inr ?r" using g(6) by (simp add: take_semaphore_def)
  finally have "daemon_setup env st = Inr ?r" .
  moreover have "exported ?r" using s'(3) by (simp add: exported_def sem_post_def)
  moreover have "threads_ok ?r" "synced ?r"
    using ts(2,3) by (simp_all add: threads_ok_def synced_def sem_post_def)
  moreover have "alarm_of ?r = alarm_of st" by (simp add: alarm_of_def sem_post_def)
  ultimately show ?thesis
    using b(4) s'(2,4) io'(2) ts(4) by (auto simp: sem_post_def simp del: shm_ok.simps)
qed

lemma daemon_setup_daemon_ok:
  assumes "before_setup st" "setup_granted env st" "e_semval env = 0" "daemon_setup env st = Inr st'"
  shows "daemon_ok st'"
  using daemon_setup_ok [OF assms(1,2)] assms(3,4) by (auto simp: daemon_ok_def parts_ok_def)

end
