(* ===== verification/Iralarmd_Props.thy ===== *)
theory Iralarmd_Props
  imports Iralarmd_Init
begin

text \<open>
  The properties of the running daemon: it never goes wrong, its main loop implements the alarm's
  specification, an alarm is raised exactly after a burst of bad cycles and ends after enough good
  ones, configuration and termination work as meant; and where the code does not do what it
  means to do.
\<close>

section \<open>A started daemon\<close>

text \<open>The program's state before the set-up, and an environment in which everything succeeds.\<close>

definition fresh_daemon :: "bool \<Rightarrow> iralarmd" where
  "fresh_daemon xmpp =
     (iralarmd_static xmpp)\<lparr>pio := irpio_static\<lparr>r_gpio := Some (\<lambda>_. 0), r_pwm := Some (\<lambda>_. 0),
        r_clk := Some (\<lambda>_. 0), pinToGpio := Some (byte_view pinToGpioR2)\<rparr>\<rparr>"

definition calm_denv :: "nat \<Rightarrow> d_env" where
  "calm_denv v =
     \<lparr>e_shm = \<lparr>shmget = (\<lambda>k n f. 7), shmat = (\<lambda>k ro. True), shmctl_stat = (\<lambda>k. 0)\<rparr>,
      e_pio = calm_env, e_status = pthread_success, e_alarm = pthread_success,
      e_semget = 5, e_semval = v\<rparr>"

lemma fresh_before_setup: "before_setup (fresh_daemon xmpp)"
  by (simp add: before_setup_def fresh_daemon_def iralarmd_static_def io_ready_def io_mapped_def)

lemma calm_granted: "setup_granted (calm_denv v) (fresh_daemon xmpp)"
proof -
  have "fst (irmem_init (e_shm (calm_denv v)) 1 (shm (fresh_daemon xmpp))) = IRSM_OK"
    by (simp add: calm_denv_def irmem_init_def irmem_attach_def Let_def split: prod.split)
  moreover have "isr_fine (e_pio (calm_denv v)) (pio (fresh_daemon xmpp))"
    by (simp add: isr_fine_def fresh_daemon_def calm_denv_def calm_env_def irpio_static_def)
  ultimately show ?thesis
    by (simp add: setup_granted_def fresh_daemon_def iralarmd_static_def calm_denv_def pthread_fine_def
        pthread_success_def)
qed

lemma fresh_starts:
  obtains st where "daemon_setup (calm_denv 0) (fresh_daemon xmpp) = Inr st" "daemon_ok st"
    "astate st = ALRM_NONE" "ir_alrm_cycls st = 0" "ir_recvd st = 0" "ir_minalarm st = 2" "ir_minrecvd st = 8"
proof -
  obtain st where st: "daemon_setup (calm_denv 0) (fresh_daemon xmpp) = Inr st"
      "alarm_of st = alarm_of (fresh_daemon xmpp)" "ir_recvd st = ir_recvd (fresh_daemon xmpp)"
      "ir_minalarm st = ir_minalarm (fresh_daemon xmpp)" "ir_minrecvd st = ir_minrecvd (fresh_daemon xmpp)"
    using daemon_setup_ok [OF fresh_before_setup calm_granted, of 0 xmpp] by blast
  have "daemon_ok st"
    using daemon_setup_daemon_ok [OF fresh_before_setup calm_granted _ st(1)] by (simp add: calm_denv_def)
  with st that show ?thesis
    by (simp add: alarm_of_def fresh_daemon_def iralarmd_static_def)
qed

section \<open>Safety\<close>

lemma d_run_ok:
  "daemon_ok st \<or> exited st = Some 0 \<Longrightarrow>
   \<exists>st'. d_run pe is st = Inr st' \<and> (daemon_ok st' \<or> exited st' = Some 0)"
  unfolding d_run_def by (rule sfoldM_invariant) (rule d_step_ok)



section \<open>The alarm\<close>

text \<open>C3: an iteration of the main loop implements the abstract state machine: the state, the counters and
  the start of the alarm change as specified, exactly the specified news go out, the flanks are
  cleared; the segment's other objects are untouched, and its state byte is the state \<open>before\<close> the
  iteration, so that readers of the segment see every change of the alarm one iteration late.\<close>

theorem loop_refines:
  assumes "daemon_ok st"
  shows "\<exists>st'. loop_body pe tk st = Inr st' \<and> daemon_ok st' \<and>
    alarm_of st' = alarm_next (ir_minalarm st) (ir_rstalarm st) (ir_recvd st < ir_minrecvd st)
                     (t_now tk) (alarm_of st) \<and>
    d_out st' = d_out st @ [Main_sleep (s_mainloop st)] @ alarm_news tk (count_cycle st) (astate st') \<and>
    ir_recvd st' = 0 \<and> cell_val (seg st') SHM_ALARM = alrm_num (astate st) \<and>
    (\<forall>j < length initial. j \<noteq> SHM_ALARM \<longrightarrow> cell_val (seg st') j = cell_val (seg st) j)"
  using loop_body_ok [OF assms, of pe tk] by blast

lemma loop_refines_witness:
  "\<exists>st st'. loop_body pthread_success \<lparr>t_now = 100, t_stop = 100\<rparr> st = Inr st' \<and> ir_recvd st' = 0 \<and>
     a_bad (alarm_of st') = 1"
proof -
  obtain st where st: "daemon_ok st" "astate st = ALRM_NONE" "ir_alrm_cycls st = 0" "ir_recvd st = 0"
      "ir_minalarm st = 2" "ir_minrecvd st = 8"
    using fresh_starts by blast
  from loop_refines [OF st(1), of pthread_success "\<lparr>t_now = 100, t_stop = 100\<rparr>"] st show ?thesis
    by (auto simp: alarm_next_def alarm_count_def alarm_move_def alarm_of_def)
qed

text \<open>The state after the first \<open>k\<close> cycles, by the specification.\<close>

lemma cycles_astate:
  assumes "daemon_ok st" "ir_recvd st = 0" "\<forall>c \<in> set cs. fst c < 2 ^ 32"
  shows "(\<exists>st'. d_run pe (cycle_inputs (take k cs)) st = Inr st' \<and> astate st' \<noteq> x) \<longleftrightarrow>
    a_state (alarm_run (ir_minalarm st) (ir_rstalarm st)
      (take k (map (\<lambda>c. (cycle_bad (ir_minrecvd st) c, t_now (snd c))) cs)) (alarm_of st)) \<noteq> x"
proof -
  have "\<forall>c \<in> set (take k cs). fst c < 2 ^ 32" using assms(3) by (auto dest: in_set_takeD)
  moreover have "astate s = a_state (alarm_of s)" for s by (simp add: alarm_of_def)
  ultimately show ?thesis
    using d_run_cycles [OF assms(1,2), of "take k cs" pe] by (auto simp: take_map)
qed

text \<open>C1: from rest on, and however the flanks are spread over the cycles, the daemon leaves the state
  without an alarm within a sequence of cycles exactly if there is a stretch of consecutive cycles
  in which those with too few flanks outnumber the others by more than \<open>ir_minalarm\<close>: no alarm is
  raised without such a stretch, and none is missed.\<close>

theorem alarm_iff_burst:
  assumes "daemon_ok st" "astate st = ALRM_NONE" "ir_alrm_cycls st = 0" "ir_recvd st = 0"
    and "length cs < 2 ^ 32" "\<forall>c \<in> set cs. fst c < 2 ^ 32"
  shows "(\<exists>k \<le> length cs. \<exists>st'. d_run pe (cycle_inputs (take k cs)) st = Inr st' \<and> astate st' \<noteq> ALRM_NONE) \<longleftrightarrow>
    (\<exists>ps xs ss. map (cycle_bad (ir_minrecvd st)) cs = ps @ xs @ ss \<and>
       unat (ir_minalarm st) + count_list xs False < count_list xs True)"
proof -
  let ?bs = "map (\<lambda>c. (cycle_bad (ir_minrecvd st) c, t_now (snd c))) cs"
  have a: "a_state (alarm_of st) = ALRM_NONE" "a_bad (alarm_of st) = 0"
    using assms(2,3) by (simp_all add: alarm_of_def)
  have fst: "map fst ?bs = map (cycle_bad (ir_minrecvd st)) cs" by (simp add: comp_def)
  note run = cycles_astate [OF assms(1,4,6), of pe _ ALRM_NONE]
  have "length ?bs < 2 ^ 32" using assms(5) by simp
  from alarm_run_raised_iff [OF a this, of "ir_minalarm st" "ir_rstalarm st"]
    walk_exceeds_iff [of "map (cycle_bad (ir_minrecvd st)) cs" "unat (ir_minalarm st)"]
  show ?thesis
    unfolding run fst by (simp add: excess_def)
qed

lemma alarm_iff_burst_witness:
  "\<exists>st k st'. d_run pthread_success (cycle_inputs (take k [(0, \<lparr>t_now = 0, t_stop = 0\<rparr>),
        (9, \<lparr>t_now = 0, t_stop = 0\<rparr>), (0, \<lparr>t_now = 0, t_stop = 0\<rparr>), (7, \<lparr>t_now = 0, t_stop = 0\<rparr>),
        (0, \<lparr>t_now = 0, t_stop = 0\<rparr>)])) st = Inr st' \<and> astate st = ALRM_NONE \<and> astate st' \<noteq> ALRM_NONE"
proof -
  let ?tk = "\<lparr>t_now = 0, t_stop = 0\<rparr>"
  let ?cs = "[(0, ?tk), (9, ?tk), (0, ?tk), (7, ?tk), (0, ?tk)]"
  obtain st where st: "daemon_ok st" "astate st = ALRM_NONE" "ir_alrm_cycls st = 0" "ir_recvd st = 0"
      "ir_minalarm st = 2" "ir_minrecvd st = 8"
    using fresh_starts by blast
  have "map (cycle_bad (ir_minrecvd st)) ?cs = [True, False] @ [True, True, True] @ []"
    by (simp add: cycle_bad_def st(6))
  moreover have "unat (ir_minalarm st) + count_list [True, True, True] False < count_list [True, True, True] True"
    by (simp add: st(5))
  ultimately have "\<exists>ps xs ss. map (cycle_bad (ir_minrecvd st)) ?cs = ps @ xs @ ss \<and>
       unat (ir_minalarm st) + count_list xs False < count_list xs True"
    by blast
  with alarm_iff_burst [OF st(1-4), of ?cs pthread_success] st(2) show ?thesis by auto
qed

text \<open>C4: an alarm that has become active ends exactly when more than \<open>ir_rstalarm\<close> cycles have had
  enough flanks, however many cycles without them lie in between, and however long that takes.\<close>

theorem alarm_ends_iff:
  assumes "daemon_ok st" "astate st = ALRM_ACTIVE" "ir_recvd_cycls st = 0" "ir_recvd st = 0"
    and "length cs < 2 ^ 32" "\<forall>c \<in> set cs. fst c < 2 ^ 32"
  shows "(\<exists>k \<le> length cs. \<exists>st'. d_run pe (cycle_inputs (take k cs)) st = Inr st' \<and> astate st' \<noteq> ALRM_ACTIVE) \<longleftrightarrow>
    unat (ir_rstalarm st) < count_list (map (cycle_bad (ir_minrecvd st)) cs) False"
proof -
  let ?bs = "map (\<lambda>c. (cycle_bad (ir_minrecvd st) c, t_now (snd c))) cs"
  have a: "a_state (alarm_of st) = ALRM_ACTIVE" "a_good (alarm_of st) = 0"
    using assms(2,3) by (simp_all add: alarm_of_def)
  have fst: "map fst ?bs = map (cycle_bad (ir_minrecvd st)) cs" by (simp add: comp_def)
  note run = cycles_astate [OF assms(1,4,6), of pe _ ALRM_ACTIVE]
  have "length ?bs < 2 ^ 32" using assms(5) by simp
  from alarm_run_ends_iff [OF a this, of "ir_minalarm st" "ir_rstalarm st"] show ?thesis
    unfolding run fst by (simp add: good_cycles_def)
qed

text \<open>An active daemon, reached through a burst.\<close>

definition later :: "int \<Rightarrow> tick" where
  "later t = \<lparr>t_now = t, t_stop = t\<rparr>"

lemma active_starts:
  obtains st where "daemon_ok st" "astate st = ALRM_ACTIVE" "ir_recvd_cycls st = 0" "ir_recvd st = 0"
    "ir_rstalarm st = 15" "ir_minrecvd st = 8"
proof -
  obtain s0 where s0: "daemon_ok s0" "daemon_setup (calm_denv 0) (fresh_daemon True) = Inr s0"
    using fresh_starts [of True] by blast
  have t: "threads_ok s0" "exited s0 = None" "parts_ok s0" using s0(1) by (simp_all add: daemon_ok_def)
  have "threads_ok (s0\<lparr>astate := ALRM_ACTIVE\<rparr>)" using t(1) by (simp add: threads_ok_def)
  from set_thread_data_ok [OF this] obtain ts :: "thread_cb thrds" where ts: "thrds_ok ts" "in_use ts = in_use (thrds s0)"
      "thrd_data ts (thrd_alarm s0) = alrm_code ALRM_ACTIVE" "thrd_data ts (thrd_status s0) = alrm_code ALRM_ACTIVE"
    by simp blast
  have "threads_ok (s0\<lparr>thrds := ts\<rparr>)" using t(1) ts(1,2) by (simp add: threads_ok_def)
  then obtain ts' :: "thread_cb thrds" where ts': "thrds_ok ts'" "in_use ts' = in_use ts"
      "\<forall>j \<in> in_use ts'. thrd_data ts' j = thrd_data ts j" "\<not> thrd_susp ts' (thrd_alarm s0)"
    using resume_alarm_ok [of "s0\<lparr>thrds := ts\<rparr>" pthread_success] by auto
  let ?r = "s0\<lparr>astate := ALRM_ACTIVE, thrds := ts', ir_recvd_cycls := 0, ir_recvd := 0,
       ir_rstalarm := 15, ir_minrecvd := 8\<rparr>"
  have "daemon_ok ?r"
    using t ts ts' by (simp add: daemon_ok_def threads_ok_def synced_def parts_ok_def)
  then show ?thesis by (rule that) simp_all
qed

lemma alarm_ends_iff_witness:
  "\<exists>st. astate st = ALRM_ACTIVE \<and>
     \<not> (\<exists>k \<le> length [(9 :: nat, later 0), (0, later 1), (9, later 2)]. \<exists>st'. d_run pthread_success (cycle_inputs (take k [(9 :: nat, later 0), (0, later 1), (9, later 2)])) st = Inr st' \<and>
            astate st' \<noteq> ALRM_ACTIVE)"
proof -
  let ?cs = "[(9 :: nat, later 0), (0, later 1), (9, later 2)]"
  obtain st where st: "daemon_ok st" "astate st = ALRM_ACTIVE" "ir_recvd_cycls st = 0" "ir_recvd st = 0"
      "ir_rstalarm st = 15" "ir_minrecvd st = 8"
    using active_starts by blast
  have "\<not> unat (ir_rstalarm st) < count_list (map (cycle_bad (ir_minrecvd st)) ?cs) False"
    by (simp add: st(5,6) cycle_bad_def)
  moreover have "length ?cs < 2 ^ 32" by simp
  ultimately have "\<not> (\<exists>k \<le> length ?cs. \<exists>st'. d_run pthread_success (cycle_inputs (take k ?cs)) st = Inr st' \<and>
      astate st' \<noteq> ALRM_ACTIVE)"
    by (subst alarm_ends_iff [OF st(1-4)]) simp_all
  with st(2) show ?thesis by blast
qed

section \<open>Configuration and termination\<close>

lemma cell_val_less: "cell_val s i < 256 ^ cell_width i"
proof -
  have "cell_val s i < 256 ^ length (take (cell_width i) (drop (cell_ptr i) s))"
    unfolding cell_val_def by (rule value_of_less)
  also have "\<dots> \<le> 256 ^ cell_width i" by (rule power_increasing) simp_all
  finally show ?thesis .
qed

lemma byte_of_cell: "cell_width i = 1 \<Longrightarrow> unat (of_nat (cell_val s i) :: u8) = cell_val s i"
  using cell_val_less [of s i] by (simp add: unat_of_nat)

lemma word_of_cell: "cell_width i = 4 \<Longrightarrow> unat (of_nat (cell_val s i) :: u32) = cell_val s i"
  using cell_val_less [of s i] by (simp add: unat_of_nat)

lemma reload_after_write:
  assumes "daemon_ok st"
  shows "\<exists>st'. d_run pe [Ctl_write i v, Signal SIGHUP] st = Inr st' \<and> daemon_ok st' \<and> exported st' \<and>
    (\<forall>j < length initial.
       cell_val (seg st') j = (if j = i then v mod 256 ^ cell_width i else cell_val (seg st) j)) \<and>
    alarm_of st' = alarm_of st"
proof -
  obtain s where s: "ctl_write i v st = Inr (st\<lparr>seg := s\<rparr>)" "daemon_ok (st\<lparr>seg := s\<rparr>)"
      "\<forall>j < length initial. cell_val s j = (if j = i then v mod 256 ^ cell_width i else cell_val (seg st) j)"
    using ctl_write_ok [OF assms, of i v] by blast
  let ?r = "emit (Got_signal SIGHUP) (reloaded (st\<lparr>seg := s\<rparr>))"
  have up: "sighandler pe SIGHUP (st\<lparr>seg := s\<rparr>) = Inr ?r" "daemon_ok ?r"
    using sighup_ok [OF s(2), of pe] by auto
  have e: "exited st = None" "exited (st\<lparr>seg := s\<rparr>) = None" using assms by (simp_all add: daemon_ok_def)
  have "d_run pe [Ctl_write i v, Signal SIGHUP] st = Inr ?r"
    by (simp add: d_run_def d_step_def e s(1) up(1))
  moreover have "exported ?r"
    by (simp add: exported_def emit_def reloaded_def byte_of_cell word_of_cell object_widths del: One_nat_def)
  moreover have "seg ?r = s" "alarm_of ?r = alarm_of st"
    by (simp_all add: emit_def reloaded_def alarm_of_def)
  ultimately show ?thesis using up(2) s(3) by metis
qed

text \<open>a value that another process writes to an object of the segment is in force after the next
  \<open>SIGHUP\<close>: then every configuration variable of the daemon equals its object, the written one
  included, while the alarm's state, its counters and the invariant are untouched.\<close>

theorem sighup_synchronises:
  assumes "daemon_ok st"
  shows "\<exists>st'. d_run pe [Ctl_write i v, Signal SIGHUP] st = Inr st' \<and> daemon_ok st' \<and> exported st' \<and>
    (\<forall>j < length initial.
       cell_val (seg st') j = (if j = i then v mod 256 ^ cell_width i else cell_val (seg st) j)) \<and>
    alarm_of st' = alarm_of st"
  by (rule reload_after_write [OF assms])

lemma sighup_synchronises_witness:
  "\<exists>st st'. d_run pthread_success [Ctl_write SHM_MINALRMS 6, Signal SIGHUP] st = Inr st' \<and> ir_minalarm st = 2 \<and>
     ir_minalarm st' = 6"
proof -
  obtain st where st: "daemon_ok st" "ir_minalarm st = 2"
    using fresh_starts by blast
  obtain st' where st': "d_run pthread_success [Ctl_write SHM_MINALRMS 6, Signal SIGHUP] st = Inr st'" "exported st'"
      "cell_val (seg st') SHM_MINALRMS = 6 mod 256 ^ cell_width SHM_MINALRMS"
    using sighup_synchronises [OF st(1), of pthread_success SHM_MINALRMS 6] by auto
  then have "unat (ir_minalarm st') = 6"
    by (simp add: exported_def object_widths)
  then have "ir_minalarm st' = 6" by (simp add: word_unat_eq_iff)
  with st(2) st'(1) show ?thesis by blast
qed



section \<open>The speaker\<close>

fun ever :: "nat \<Rightarrow> (nat \<Rightarrow> bool) \<Rightarrow> io_event list \<Rightarrow> bool" where
  "ever g l [] \<longleftrightarrow> l g"
| "ever g l (e # es) \<longleftrightarrow> l g \<or> ever g (level_step l e) es"

lemma ever_iff: "(\<exists>k. levels l (es0 @ take k es) g) \<longleftrightarrow> ever g (levels l es0) es"
proof (induction es arbitrary: es0)
  case Nil
  show ?case by simp
next
  case (Cons e es)
  have "(\<exists>k. levels l (es0 @ take k (e # es)) g) \<longleftrightarrow>
      levels l es0 g \<or> (\<exists>k. levels l ((es0 @ [e]) @ take k es) g)"
  proof
    assume "\<exists>k. levels l (es0 @ take k (e # es)) g"
    then obtain k where "levels l (es0 @ take k (e # es)) g" by blast
    then show "levels l es0 g \<or> (\<exists>k. levels l ((es0 @ [e]) @ take k es) g)"
      by (cases k) auto
  next
    assume "levels l es0 g \<or> (\<exists>k. levels l ((es0 @ [e]) @ take k es) g)"
    then show "\<exists>k. levels l (es0 @ take k (e # es)) g"
    proof
      assume "levels l es0 g"
      then show ?thesis by (intro exI [of _ 0]) simp
    next
      assume "\<exists>k. levels l ((es0 @ [e]) @ take k es) g"
      then obtain k where "levels l ((es0 @ [e]) @ take k es) g" by blast
      then show ?thesis by (intro exI [of _ "Suc k"]) simp
    qed
  qed
  then show ?case unfolding Cons.IH by (simp add: levels_append levels_def)
qed

definition gpio_write :: "u32 \<Rightarrow> u32 \<Rightarrow> io_event" where
  "gpio_write pin v = RegWrite GPIO (if v = 0 then 10 else 7) (push_bit (unat pin) 1)"

lemma irpio_digitalWrite_log:
  assumes "io_mapped io" "unat pin < 32"
  shows "\<exists>io'. irpio_digitalWrite pin v io = Inr io' \<and> io_mapped io' \<and> io_log io' = io_log io @ [gpio_write pin v]"
proof -
  have p: "unat pin < 64" "on_board pin" using assms(2) by (simp_all add: on_board_iff)
  have len: "length gpioToGPSET = 64" "length gpioToGPCLR = 64"
    by (simp_all add: gpioToGPSET_def gpioToGPCLR_def)
  show ?thesis
    using p len assms(2) wr_ok [OF assms(1), of GPIO 10 "push_bit (unat pin) 1"]
      wr_ok [OF assms(1), of GPIO 7 "push_bit (unat pin) 1"]
    by (auto simp: irpio_digitalWrite_def digitalWrite_def gpset_nth gpclr_nth and_31 gpio_write_def)
qed

lemma usleep_log: "usleep us io = Inr (log_io (Usleep us) io)" "io_mapped (log_io e io) = io_mapped io"
  by (simp_all add: usleep_def)

lemma write_sleep_log:
  assumes "io_mapped io" "unat (irpio_getpin p) < 32"
  shows "\<exists>io'. write_sleep p v us io = Inr io' \<and> io_mapped io' \<and>
           io_log io' = io_log io @ [gpio_write (irpio_getpin p) v, Usleep us]"
proof -
  obtain io' where "irpio_digitalWrite (irpio_getpin p) v io = Inr io'" "io_mapped io'"
      "io_log io' = io_log io @ [gpio_write (irpio_getpin p) v]"
    using irpio_digitalWrite_log [OF assms, of v] by blast
  then show ?thesis
    by (intro exI [of _ "log_io (Usleep us) io'"]) (simp add: write_sleep_def usleep_log)
qed

lemma gpio_write_level:
  "unat pin < 32 \<Longrightarrow> level_step l (gpio_write pin v) = l(unat pin := v \<noteq> 0)"
proof -
  assume p: "unat pin < 32"
  have "bit (push_bit (unat pin) (1 :: u32)) (g mod 32) \<longleftrightarrow> g mod 32 = unat pin" for g
    using bit_mask_single [of "unat pin" "g mod 32", where 'w = 32] p by simp
  moreover have "g div 32 = 0 \<and> g mod 32 = unat pin \<longleftrightarrow> g = unat pin" for g :: nat
    using p by (metis div_less mod_less mult_0_right add_0 div_mult_mod_eq)
  ultimately show ?thesis by (auto simp: gpio_write_def fun_eq_iff)
qed

text \<open>What the alarm's callback does to the pins.\<close>

definition alarm_events :: "u32 \<Rightarrow> u8 \<Rightarrow> io_event list" where
  "alarm_events dat spk =
     (if dat = alrm_code ALRM_ACTIVE then
        (if spk > 0 then [gpio_write (irpio_getpin SPEKR) 1] else []) @
        [gpio_write (irpio_getpin ALARM) 0, Usleep 250000, gpio_write (irpio_getpin SPEKR) 0,
         gpio_write (irpio_getpin ALARM) 1, Usleep 250000]
      else if dat = alrm_code ALRM_PREACTIVE then
        [gpio_write (irpio_getpin ALARM) 1, Usleep 100000, gpio_write (irpio_getpin ALARM) 0, Usleep 100000]
      else if dat = alrm_code ALRM_NONE then
        [gpio_write (irpio_getpin ALARM) 0, gpio_write (irpio_getpin SPEKR) 0, Usleep 100000]
      else [])"

lemma pins_below_32: "unat (irpio_getpin p) < 32"
  by (cases p) (simp_all add: irpio_getpin_def)

lemma pio_then:
  assumes "\<exists>io'. f io = Inr io' \<and> io_mapped io' \<and> io_log io' = io_log io @ as"
    and "\<And>io'. io_mapped io' \<Longrightarrow> \<exists>io''. g io' = Inr io'' \<and> io_mapped io'' \<and> io_log io'' = io_log io' @ bs"
  shows "\<exists>io'. sbind (f io) g = Inr io' \<and> io_mapped io' \<and> io_log io' = io_log io @ as @ bs"
proof -
  obtain io' where io': "f io = Inr io'" "io_mapped io'" "io_log io' = io_log io @ as" using assms(1) by blast
  obtain io'' where "g io' = Inr io''" "io_mapped io''" "io_log io'' = io_log io' @ bs" using assms(2) [OF io'(2)] by blast
  with io' show ?thesis by simp
qed

lemma alarm_pins_log:
  assumes "io_mapped io"
  shows "\<exists>io'. alarm_pins dat spk io = Inr io' \<and> io_mapped io' \<and> io_log io' = io_log io @ alarm_events dat spk"
proof -
  note w = write_sleep_log [OF _ pins_below_32] and d = irpio_digitalWrite_log [OF _ pins_below_32]
  have first: "\<exists>io'. (if spk > 0 then irpio_digitalWrite (irpio_getpin SPEKR) 1 io else Inr io) = Inr io' \<and> io_mapped io' \<and>
      io_log io' = io_log io @ (if spk > 0 then [gpio_write (irpio_getpin SPEKR) 1] else [])"
    using d [OF assms, of SPEKR 1] assms by (cases "spk > 0") simp_all
  have a: "\<exists>io'. sbind (if spk > 0 then irpio_digitalWrite (irpio_getpin SPEKR) 1 io else Inr io) (\<lambda>io.
        sbind (write_sleep ALARM 0 250000 io) (\<lambda>io.
        sbind (irpio_digitalWrite (irpio_getpin SPEKR) 0 io) (write_sleep ALARM 1 250000))) = Inr io' \<and> io_mapped io' \<and>
      io_log io' = io_log io @ (if spk > 0 then [gpio_write (irpio_getpin SPEKR) 1] else []) @
        [gpio_write (irpio_getpin ALARM) 0, Usleep 250000] @ [gpio_write (irpio_getpin SPEKR) 0] @
        [gpio_write (irpio_getpin ALARM) 1, Usleep 250000]"
    by (intro pio_then first w d)
  have b: "\<exists>io'. sbind (write_sleep ALARM 1 100000 io) (write_sleep ALARM 0 100000) = Inr io' \<and> io_mapped io' \<and>
      io_log io' = io_log io @ [gpio_write (irpio_getpin ALARM) 1, Usleep 100000] @
        [gpio_write (irpio_getpin ALARM) 0, Usleep 100000]"
    by (intro pio_then w assms)
  have c: "\<exists>io'. sbind (irpio_digitalWrite (irpio_getpin ALARM) 0 io) (write_sleep SPEKR 0 100000) = Inr io' \<and> io_mapped io' \<and>
      io_log io' = io_log io @ [gpio_write (irpio_getpin ALARM) 0] @ [gpio_write (irpio_getpin SPEKR) 0, Usleep 100000]"
    by (intro pio_then w d assms)
  show ?thesis
    using a b c assms by (simp add: alarm_pins_def alarm_events_def)
qed

text \<open>C26: the speaker is silent between the rounds of the alarm's thread, and sounds during a round exactly
  if the alarm is active and the configuration turns it on; the pin is never left high.\<close>

theorem speaker_only_in_alarm:
  assumes "io_mapped io" "\<not> levels l (io_log io) (unat (irpio_getpin SPEKR))"
  shows "\<exists>io' es. alarm_pins dat spk io = Inr io' \<and> io_log io' = io_log io @ es \<and>
    \<not> levels l (io_log io') (unat (irpio_getpin SPEKR)) \<and>
    ((\<exists>k. levels l (io_log io @ take k es) (unat (irpio_getpin SPEKR))) \<longleftrightarrow>
       dat = alrm_code ALRM_ACTIVE \<and> spk \<noteq> 0)"
proof -
  obtain io' where io': "alarm_pins dat spk io = Inr io'" "io_log io' = io_log io @ alarm_events dat spk"
    using alarm_pins_log [OF assms(1)] by blast
  have pins: "unat (irpio_getpin SPEKR) = 2" "unat (irpio_getpin ALARM) = 0"
    by (simp_all add: irpio_getpin_def)
  note step = gpio_write_level [OF pins_below_32]
  have "\<not> levels l (io_log io') 2"
    using assms(2) by (simp add: io'(2) levels_append pins) (simp add: levels_def alarm_events_def step pins)
  moreover have "ever 2 (levels l (io_log io)) (alarm_events dat spk) \<longleftrightarrow> dat = alrm_code ALRM_ACTIVE \<and> spk \<noteq> 0"
    using assms(2) by (simp add: alarm_events_def step pins word_gt_0)
  ultimately show ?thesis
    using io' unfolding pins by (intro exI [of _ io'] exI [of _ "alarm_events dat spk"]) (simp add: ever_iff)
qed

lemma speaker_only_in_alarm_witness:
  "\<exists>io' es k. alarm_pins (alrm_code ALRM_ACTIVE) 1 (pio (fresh_daemon True)) = Inr io' \<and>
     io_log io' = io_log (pio (fresh_daemon True)) @ es \<and>
     levels (\<lambda>_. False) (io_log (pio (fresh_daemon True)) @ take k es) (unat (irpio_getpin SPEKR))"
proof -
  have "io_mapped (pio (fresh_daemon True))"
    by (simp add: fresh_daemon_def io_mapped_def)
  moreover have "\<not> levels (\<lambda>_. False) (io_log (pio (fresh_daemon True))) (unat (irpio_getpin SPEKR))"
    by (simp add: fresh_daemon_def irpio_static_def levels_def)
  ultimately obtain io' es where "alarm_pins (alrm_code ALRM_ACTIVE) 1 (pio (fresh_daemon True)) = Inr io'"
      "io_log io' = io_log (pio (fresh_daemon True)) @ es"
      "\<exists>k. levels (\<lambda>_. False) (io_log (pio (fresh_daemon True)) @ take k es) (unat (irpio_getpin SPEKR))"
    using speaker_only_in_alarm [of "pio (fresh_daemon True)" "\<lambda>_. False" "alrm_code ALRM_ACTIVE" 1] by auto
  then show ?thesis by blast
qed

section \<open>What does not work as meant\<close>

text \<open>the semaphore that is to exclude the interrupt handler from the main loop is raised by one at
  every start, whatever its value is: after a start that finds one left over by a daemon that
  was killed, two can enter at once.\<close>

theorem semaphore_excludes_iff:
  assumes "before_setup st" "setup_granted env st" "daemon_setup env st = Inr st1"
  shows "(\<exists>a b. sem_wait st1 = Inr a \<and> sem_wait a = Inr b) \<longleftrightarrow> e_semval env \<noteq> 0"
proof -
  have "semval st1 = e_semval env + 1"
    using daemon_setup_ok [OF assms(1,2)] assms(3) by auto
  then show ?thesis by (simp add: sem_wait_def)
qed

lemma semaphore_excludes_iff_witness:
  "\<exists>st1 a b. daemon_setup (calm_denv 1) (fresh_daemon True) = Inr st1 \<and> sem_wait st1 = Inr a \<and> sem_wait a = Inr b"
proof -
  obtain st1 where st1: "daemon_setup (calm_denv 1) (fresh_daemon True) = Inr st1"
    using daemon_setup_ok [OF fresh_before_setup calm_granted] by blast
  from semaphore_excludes_iff [OF fresh_before_setup calm_granted st1] st1 show ?thesis
    by (auto simp: calm_denv_def)
qed

text \<open>the configuration object \<open>ACTIVE\<close> does nothing: whatever the daemon read for it, an iteration
  raises and ends alarms, reports them and counts just the same.\<close>

theorem active_switch_ignored:
  assumes "daemon_ok st"
  shows "\<exists>a b. loop_body pe tk st = Inr a \<and> loop_body pe tk (st\<lparr>s_aactive := x\<rparr>) = Inr b \<and>
    alarm_of a = alarm_of b \<and> d_out a = d_out b \<and>
    (\<forall>j < length initial. cell_val (seg a) j = cell_val (seg b) j)"
proof -
  let ?t = "st\<lparr>s_aactive := x\<rparr>"
  have "daemon_ok ?t" using assms by (simp add: daemon_ok_def threads_ok_def synced_def parts_ok_def)
  from loop_body_ok [OF this, of pe tk] obtain b where b: "loop_body pe tk ?t = Inr b"
      "alarm_of b = alarm_next (ir_minalarm st) (ir_rstalarm st) (ir_recvd st < ir_minrecvd st) (t_now tk) (alarm_of ?t)"
      "cell_val (seg b) SHM_ALARM = alrm_num (astate st)"
      "\<forall>j < length initial. j \<noteq> SHM_ALARM \<longrightarrow> cell_val (seg b) j = cell_val (seg st) j"
      "d_out b = d_out st @ [Main_sleep (s_mainloop st)] @ alarm_news tk (count_cycle ?t) (astate b)"
    by auto
  obtain a where a: "loop_body pe tk st = Inr a"
      "alarm_of a = alarm_next (ir_minalarm st) (ir_rstalarm st) (ir_recvd st < ir_minrecvd st) (t_now tk) (alarm_of st)"
      "cell_val (seg a) SHM_ALARM = alrm_num (astate st)"
      "\<forall>j < length initial. j \<noteq> SHM_ALARM \<longrightarrow> cell_val (seg a) j = cell_val (seg st) j"
      "d_out a = d_out st @ [Main_sleep (s_mainloop st)] @ alarm_news tk (count_cycle st) (astate a)"
    using loop_body_ok [OF assms, of pe tk] by blast
  have al: "alarm_of ?t = alarm_of st" by (simp add: alarm_of_def)
  have "alarm_news tk (count_cycle ?t) y = alarm_news tk (count_cycle st) y" for y
    by (simp add: alarm_news_def count_cycle_def Let_def)
  moreover have "astate a = astate b"
    using a(2) b(2) al by (metis alarm.select_convs(1) alarm_of_def)
  moreover have "cell_val (seg a) j = cell_val (seg b) j" if "j < length initial" for j
    using a(3,4) b(3,4) that by (cases "j = SHM_ALARM") auto
  ultimately show ?thesis using a(1,2,5) b(1,2,5) al by auto
qed

lemma active_switch_ignored_witness:
  "\<exists>st a b. daemon_ok st \<and> loop_body pthread_success (later 5) st = Inr a \<and>
     loop_body pthread_success (later 5) (st\<lparr>s_aactive := 0\<rparr>) = Inr b \<and> d_out a = d_out b"
proof -
  obtain st where st: "daemon_ok st" using fresh_starts by blast
  from active_switch_ignored [OF st, of pthread_success "later 5" 0] st show ?thesis by blast
qed

end
