(* ===== verification/Iralarmctl.thy ===== *)
theory Iralarmctl
  imports CLib Irshmem
begin

text \<open>
  The control program (\<open>iralarm/iralarmctl.c\<close>): reading and writing the shared objects from the
  command line and from its shell.

  \<^item> State: the process's view of the segment, the segment, the semaphore's value, what was printed,
    the signals that were sent, and the exit status.
  \<^item> Operations: \<open>str2int\<close>, \<open>do_get\<close>, \<open>do_all\<close>, \<open>do_set\<close>, \<open>shell_getarg\<close>, \<open>do_shell\<close>, \<open>main\<close>.
  \<^item> The answers of the kernel are the environment \<open>ctl_env\<close>.  The texts of the error messages are
    the constructors of \<open>ctl_error\<close>.
\<close>

section \<open>State\<close>

datatype ctl_error =
    Usage
  | Not_numeric
  | No_semaphore
  | No_segment
  | Getptr_failed
  | Readonly_segment
  | Value_missing
  | Sighup_failed

record ctl =
  c_shm :: irshmem
  c_seg :: seg
  c_sem :: nat
  c_stdout :: string
  c_stderr :: "ctl_error list"
  c_kills :: "int list"  \<comment> \<open>the processes that were sent \<open>SIGHUP\<close>\<close>
  c_sem_removed :: bool  \<comment> \<open>\<open>IPC_RMID\<close> on the semaphore\<close>
  c_exit :: "int option"

record ctl_env =
  ce_shm :: shm_env
  ce_sem_exists :: bool  \<comment> \<open>whether the exclusive creation fails with \<open>EEXIST\<close>\<close>
  ce_getpid :: int       \<comment> \<open>the process that did the last operation on the semaphore\<close>
  ce_kill :: int

definition say :: "string \<Rightarrow> ctl \<Rightarrow> ctl" where
  "say s st = st\<lparr>c_stdout := c_stdout st @ s\<rparr>"

definition complain :: "ctl_error \<Rightarrow> ctl \<Rightarrow> ctl" where
  "complain e st = st\<lparr>c_stderr := c_stderr st @ [e]\<rparr>"

definition exit_with :: "int \<Rightarrow> ctl \<Rightarrow> ctl" where
  "exit_with n st = st\<lparr>c_exit := Some n\<rparr>"

definition irshm_desc :: "string list" where
  "irshm_desc =
     [''MAINLOOP'', ''ACTIVE'', ''SPEAKER'', ''SENDXMPP'', ''RASPICAM'', ''STATUSLED-ON'', ''STATUSLED-OFF'',
      ''IR-MINRECVD'', ''IR-MINALRMS'', ''IR-RESETALRMS'', ''ALARM-STATE'']"

definition irshm_siz :: nat where
  "irshm_siz = length irshm_desc"

section \<open>Numbers\<close>

text \<open>\<open>str2int\<close> on a string: \<open>None\<close> is the result 1.\<close>

definition str2int :: "string \<Rightarrow> u32 option" where
  "str2int buf = (case strtoul buf of (val, tmp) \<Rightarrow> if tmp = 0 then None else Some val)"

text \<open>
  On an array that need not hold a terminator: the scan must find a character that it does not
  convert before it leaves the array.
\<close>

definition str2int_array :: "string \<Rightarrow> u32 option c_result" where
  "str2int_array a = (if strtoul_scan a < length a then Inr (str2int a) else Inl OutOfBounds)"

section \<open>Access to the objects\<close>

definition c_wait :: "ctl \<Rightarrow> ctl c_result" where
  "c_wait st = (if c_sem st = 0 then Inl Hangs else Inr (st\<lparr>c_sem := c_sem st - 1\<rparr>))"

definition c_post :: "ctl \<Rightarrow> ctl" where
  "c_post st = st\<lparr>c_sem := c_sem st + 1\<rparr>"

text \<open>The \<open>switch\<close> over the type of the object: the number at the pointer, printed.\<close>

definition print_object :: "nat \<Rightarrow> nat \<Rightarrow> ctl \<Rightarrow> ctl c_result" where
  "print_object ty p st =
     (if ty = 1 \<or> ty = 2 \<or> ty = 4 \<or> ty = 8
      then sbind (load ty (c_seg st) p) (\<lambda>v. Inr (say (show_nat v) st)) else Inr st)"

definition do_get :: "nat \<Rightarrow> nat option \<Rightarrow> ctl \<Rightarrow> ctl c_result" where
  "do_get oid ptr st =
     (let ty = irmem_type (c_shm st) oid
      in sbind (c_wait st) (\<lambda>st.
         sbind (aget irshm_desc oid) (\<lambda>desc.
         sbind (case ptr of
                  None \<Rightarrow> Inl NullDeref
                | Some p \<Rightarrow> print_object ty p (say (desc @ '' = '') st)) (\<lambda>st.
         Inr (c_post (say [NL] st))))))"

definition do_all :: "ctl \<Rightarrow> ctl c_result" where
  "do_all =
     sfoldM (\<lambda>i st.
       sbind (irmem_getptr (c_shm st) i) (\<lambda>ptr.
       do_get i ptr (say (''['' @ show_nat i @ ''] '') st))) [0..<irshm_siz]"

text \<open>
  The \<open>switch\<close> of \<open>do_set\<close>: the object takes as many bytes of the value as it is wide; the value
  is an \<open>unsigned long\<close> of four bytes.
\<close>

definition set_object :: "nat \<Rightarrow> nat \<Rightarrow> u32 \<Rightarrow> ctl \<Rightarrow> ctl c_result" where
  "set_object ty p val st =
     (if ty = 8 then Inl OutOfBounds
      else if ty = 1 \<or> ty = 2 \<or> ty = 4 then
        sbind (store (shmro (c_shm st)) ty p (unat val) (c_seg st))
          (\<lambda>s. print_object ty p (st\<lparr>c_seg := s\<rparr>))
      else Inr st)"

definition do_set :: "nat \<Rightarrow> nat option \<Rightarrow> u32 \<Rightarrow> ctl \<Rightarrow> ctl c_result" where
  "do_set oid ptr val st =
     (let ty = irmem_type (c_shm st) oid
      in sbind (c_wait st) (\<lambda>st.
         sbind (aget irshm_desc oid) (\<lambda>desc.
         sbind (case ptr of
                  None \<Rightarrow> Inl NullDeref
                | Some p \<Rightarrow> set_object ty p val (say (desc @ '' = '') st)) (\<lambda>st.
         Inr (c_post (say [NL] st))))))"

section \<open>The shell\<close>

abbreviation (input) SHELL_CMDLEN :: nat where "SHELL_CMDLEN \<equiv> 255"
abbreviation (input) SHELL_ARGLEN :: nat where "SHELL_ARGLEN \<equiv> 128"

definition shell_delim :: "char \<Rightarrow> bool" where
  "shell_delim c \<longleftrightarrow> c = CHR '' ''"

text \<open>
  The loop of \<open>shell_getarg\<close>, on what \<open>strtok\<close> has left: the argument arrays, or \<open>None\<close> for the
  result -1.
\<close>

fun getarg_loop :: "nat \<Rightarrow> string \<Rightarrow> string list option" where
  "getarg_loop 0 rest = None"
| "getarg_loop (Suc nargs) rest =
     (case strtok_next shell_delim rest of
        None \<Rightarrow> None
      | Some (s, rest) \<Rightarrow>
          let arg = strncpy s SHELL_ARGLEN
          in if nargs = 0 then
               (case strtok_next shell_delim rest of None \<Rightarrow> Some [arg] | Some _ \<Rightarrow> None)
             else map_option (Cons arg) (getarg_loop nargs rest))"

definition shell_getarg :: "string \<Rightarrow> nat \<Rightarrow> string list option" where
  "shell_getarg buf nargs =
     (case strtok_next shell_delim buf of None \<Rightarrow> None | Some (_, rest) \<Rightarrow> getarg_loop nargs rest)"

definition shell_get :: "string \<Rightarrow> ctl \<Rightarrow> ctl c_result" where
  "shell_get buf st =
     (case shell_getarg buf 1 of
        Some [a] \<Rightarrow>
          sbind (str2int_array a) (\<lambda>r. case r of
            None \<Rightarrow> Inr st
          | Some g_id \<Rightarrow>
              sbind (irmem_getptr (c_shm st) (unat g_id)) (\<lambda>p.
              if p = None then Inr st else do_get (unat g_id) p st))
      | _ \<Rightarrow> Inr st)"

definition shell_set :: "string \<Rightarrow> ctl \<Rightarrow> ctl c_result" where
  "shell_set buf st =
     (case shell_getarg buf 2 of
        Some [a, b] \<Rightarrow>
          sbind (str2int_array a) (\<lambda>r. case r of
            None \<Rightarrow> Inr st
          | Some g_id \<Rightarrow>
              sbind (str2int_array b) (\<lambda>r. case r of
                None \<Rightarrow> Inr st
              | Some val \<Rightarrow>
                  sbind (irmem_getptr (c_shm st) (unat g_id)) (\<lambda>p.
                  if p = None then Inr st else do_set (unat g_id) p val st)))
      | _ \<Rightarrow> Inr st)"

text \<open>The commands are recognised at the start of the line, in either case.\<close>

definition shell_cmd :: "string \<Rightarrow> ctl \<Rightarrow> ctl c_result" where
  "shell_cmd buf st =
     (if strcasestr buf ''GET'' = Some 0 then shell_get buf st
      else if strcasestr buf ''SET'' = Some 0 then shell_set buf st
      else if strcasestr buf ''SHOW'' = Some 0 then do_all st
      else if strcasestr buf ''HELP'' = Some 0 then Inr (say (''GET, SET, SHOW, HELP'' @ [NL]) st)
      else Inr (say (''UNKNOWN CMD; TYPE '' @ [CHR 0x27] @ ''HELP'' @ [CHR 0x27] @ '' FOR MORE INFORMATION'' @ [NL]) st))"

text \<open>
  What one \<open>read\<close> puts into the buffer, as a string: the last character is cut if it is a newline,
  the rest of the buffer is clear.
\<close>

definition shell_buf :: "string \<Rightarrow> string" where
  "shell_buf chunk =
     cstr ((if last chunk = NL then butlast chunk @ [NUL] else chunk) @ [NUL])"

text \<open>The loop of \<open>do_shell\<close> over the results of \<open>read\<close>, up to the first that is empty.\<close>

fun do_shell_loop :: "string list \<Rightarrow> ctl \<Rightarrow> ctl c_result" where
  "do_shell_loop [] st = Inr st"
| "do_shell_loop (chunk # chunks) st =
     (if chunk = [] then Inr st
      else sbind (shell_cmd (shell_buf chunk) st) (\<lambda>st. do_shell_loop chunks (say ''> '' st)))"

definition do_shell :: "string list \<Rightarrow> ctl \<Rightarrow> ctl c_result" where
  "do_shell chunks st = do_shell_loop chunks (say ''> '' st)"

section \<open>The command line\<close>

datatype ctlopt = NONE | GET | SET | ALL_OBJS | SHELL

record ctl_args =
  copt :: ctlopt
  shmi :: u32
  set_value :: u32
  value_set :: bool
  value_inval :: bool

definition ctl_args_static :: ctl_args where
  "ctl_args_static = \<lparr>copt = NONE, shmi = 0, set_value = 0, value_set = False, value_inval = False\<rparr>"

definition my_basename :: "string \<Rightarrow> string" where
  "my_basename path = (case strrchr path (CHR ''/'') of None \<Rightarrow> path | Some i \<Rightarrow> drop (i + 1) path)"

definition is_shell :: "string \<Rightarrow> bool" where
  "is_shell argv0 \<longleftrightarrow> strstr (my_basename argv0) ''shell'' \<noteq> None \<or> argv0 = ''-su''"

definition take_id :: "string \<Rightarrow> ctl_args \<Rightarrow> ctl_args" where
  "take_id optarg a =
     (case str2int optarg of None \<Rightarrow> a\<lparr>value_inval := True\<rparr> | Some v \<Rightarrow> a\<lparr>shmi := v\<rparr>)"

text \<open>The loop over \<open>getopt\<close>; \<open>None\<close> is the exit after the usage message.\<close>

fun ctl_options :: "(char \<times> string) list \<Rightarrow> ctl_args \<Rightarrow> ctl_args option" where
  "ctl_options [] a = Some a"
| "ctl_options ((opt, optarg) # os) a =
     (if opt = CHR ''a'' then ctl_options os (a\<lparr>copt := ALL_OBJS\<rparr>)
      else if opt = CHR ''g'' then ctl_options os (take_id optarg (a\<lparr>copt := GET\<rparr>))
      else if opt = CHR ''s'' then ctl_options os (take_id optarg (a\<lparr>copt := SET\<rparr>))
      else if opt = CHR ''v'' then
        ctl_options os
          ((case str2int optarg of None \<Rightarrow> a\<lparr>value_inval := True\<rparr> | Some v \<Rightarrow> a\<lparr>set_value := v\<rparr>)
             \<lparr>value_set := True\<rparr>)
      else if opt = CHR ''e'' then ctl_options os (a\<lparr>copt := SHELL\<rparr>)
      else None)"

text \<open>\<open>do_set\<close>, and the signal to the process that \<open>GETPID\<close> named, under the semaphore.\<close>

definition set_and_signal :: "ctl_env \<Rightarrow> nat \<Rightarrow> nat option \<Rightarrow> u32 \<Rightarrow> ctl \<Rightarrow> ctl c_result" where
  "set_and_signal env oid ptr val st =
     sbind (do_set oid ptr val st) (\<lambda>st.
     sbind (c_wait st) (\<lambda>st.
     let st1 = st\<lparr>c_kills := c_kills st @ [ce_getpid env]\<rparr>;
         st2 = (if ce_kill env \<noteq> 0 then complain Sighup_failed st1 else st1)
     in Inr (c_post st2)))"

text \<open>The chain of cases at the end of \<open>main\<close>.\<close>

definition ctl_action :: "ctl_env \<Rightarrow> bool \<Rightarrow> ctl_args \<Rightarrow> string list \<Rightarrow> ctl \<Rightarrow> ctl c_result" where
  "ctl_action env shm_rdonly a chunks st =
     sbind (irmem_getptr (c_shm st) (unat (shmi a))) (\<lambda>ptr.
     if ptr = None then Inr (complain Getptr_failed st)
     else case copt a of
            ALL_OBJS \<Rightarrow> do_all st
          | GET \<Rightarrow> do_get (unat (shmi a)) ptr st
          | SET \<Rightarrow>
              if shm_rdonly then Inr (exit_with 1 (complain Readonly_segment st))
              else if \<not> value_set a then Inr (complain Value_missing st)
              else set_and_signal env (unat (shmi a)) ptr (set_value a) st
          | SHELL \<Rightarrow> do_shell chunks st
          | NONE \<Rightarrow> Inr st)"

definition ctl_finish :: "ctl \<Rightarrow> ctl" where
  "ctl_finish st =
     (if c_exit st = None then exit_with 0 (st\<lparr>c_shm := snd (irmem_free 0 (c_shm st))\<rparr>) else st)"

definition ctl_run :: "ctl_env \<Rightarrow> ctl_args \<Rightarrow> string list \<Rightarrow> ctl \<Rightarrow> ctl c_result" where
  "ctl_run env a chunks st =
     (if value_inval a then Inr (exit_with 1 (complain Not_numeric st))
      else if \<not> ce_sem_exists env then Inr (exit_with 1 ((complain No_semaphore st)\<lparr>c_sem_removed := True\<rparr>))
      else case irmem_init (ce_shm env) 0 (c_shm st) of (ret, sh) \<Rightarrow>
        let st = st\<lparr>c_shm := sh\<rparr>
        in if ret = IRSM_NINIT then Inr (exit_with 1 (say (''irmem_init() failed'' @ [NL]) st))
           else if irmem_exists (ce_shm env) sh = IRSM_NEXIST then Inr (exit_with 1 (complain No_segment st))
           else sbind (ctl_action env (ret = IRSM_RDONLY) a chunks st) (\<lambda>st. Inr (ctl_finish st)))"

text \<open>\<open>main\<close>: the program's name, its arguments, and what the shell would read.\<close>

definition ctl_main :: "ctl_env \<Rightarrow> string \<Rightarrow> string list \<Rightarrow> string list \<Rightarrow> ctl \<Rightarrow> ctl c_result" where
  "ctl_main env argv0 args chunks st =
     (if is_shell argv0 then ctl_run env (ctl_args_static\<lparr>copt := SHELL\<rparr>) chunks st
      else if args = [] then Inr (exit_with 1 (complain Usage st))
      else case ctl_options (getopt ''ag:s:v:e'' args) ctl_args_static of
             None \<Rightarrow> Inr (exit_with 1 (complain Usage st))
           | Some a \<Rightarrow> ctl_run env a chunks st)"

section \<open>Effects\<close>

lemma irshm_siz_eq: "irshm_siz = length initial"
  by (simp add: irshm_siz_def irshm_desc_def initial_def)

lemma widths: "i < length initial \<Longrightarrow> cell_width i = 1 \<or> cell_width i = 4"
  using cell_width_cases [of i] by auto

definition shown :: "nat \<Rightarrow> seg \<Rightarrow> string" where
  "shown i s = irshm_desc ! i @ '' = '' @ show_nat (cell_val s i) @ [NL]"

text \<open>Reading needs a segment that is attached in any way, writing one that is writable.\<close>

definition readable :: "ctl \<Rightarrow> bool" where
  "readable st \<longleftrightarrow> attached (c_shm st) \<and> 4096 \<le> length (c_seg st) \<and> 0 < c_sem st"

lemma print_object_ok:
  assumes "attached (c_shm st)" "4096 \<le> length (c_seg st)" "i < length initial"
  shows "print_object (cell_width i) (cell_ptr i) st = Inr (say (show_nat (cell_val (c_seg st) i)) st)"
  using load_cell_ok [OF assms(2,3)] widths [OF assms(3)]
  by (auto simp: print_object_def cell_val_def)

lemma do_get_ok:
  assumes "readable st" "i < length initial"
  shows "do_get i (Some (cell_ptr i)) st = Inr (say (shown i (c_seg st)) st)"
proof -
  have i: "i < length irshm_desc" using assms(2) irshm_siz_eq by (simp add: irshm_siz_def)
  have ty: "irmem_type (c_shm st) i = cell_width i" using assms by (simp add: readable_def)
  let ?s = "say (irshm_desc ! i @ '' = '') (st\<lparr>c_sem := c_sem st - 1\<rparr>)"
  have "print_object (cell_width i) (cell_ptr i) ?s = Inr (say (show_nat (cell_val (c_seg st) i)) ?s)"
    using print_object_ok [of ?s i] assms by (simp add: readable_def say_def)
  then show ?thesis
    using assms i
    by (cases st) (simp add: do_get_def Let_def ty c_wait_def readable_def c_post_def say_def shown_def)
qed

lemma do_set_ok:
  assumes "shm_ok (c_shm st, c_seg st)" "0 < c_sem st" "i < length initial"
  shows "\<exists>s. do_set i (Some (cell_ptr i)) v st = Inr (say (shown i s) (st\<lparr>c_seg := s\<rparr>)) \<and>
           shm_ok (c_shm st, s) \<and> cell_wr i (unat v) (c_shm st, c_seg st) = Inr (c_shm st, s) \<and>
           (\<forall>j < length initial. cell_val s j = (if j = i then unat v mod 256 ^ cell_width i else cell_val (c_seg st) j))"
proof -
  have i: "i < length irshm_desc" "i \<in> {..<length initial}"
    using assms(3) irshm_siz_eq by (simp_all add: irshm_siz_def)
  have at: "attached (c_shm st)" "\<not> shmro (c_shm st)" using assms(1) by simp_all
  then have ty: "irmem_type (c_shm st) i = cell_width i" using assms(3) by simp
  obtain m where m: "cell_wr i (unat v) (c_shm st, c_seg st) = Inr m" "shm_ok m"
    using shm.wr_ok [OF assms(1) i(2), of "unat v"] by blast
  then obtain s where s: "m = (c_shm st, s)" "store False (cell_width i) (cell_ptr i) (unat v) (c_seg st) = Inr s"
    using at assms(3) by (auto simp: sbind_Inr_iff)
  have vals: "cell_val s j = (if j = i then unat v mod 256 ^ cell_width i else cell_val (c_seg st) j)"
    if "j < length initial" for j
    using shm.rd_wr_same [OF assms(1) i(2) m(1)] shm.rd_wr_other [OF assms(1) i(2) _ _ m(1), of j] that
      cell_rd_val [of "c_shm st" s j] cell_rd_val [OF assms(1), of j] m(2) s(1)
    by (auto simp del: cell_rd.simps cell_wr.simps)
  have len: "4096 \<le> length s" using m(2) s(1) by simp
  let ?s = "(say (irshm_desc ! i @ '' = '') (st\<lparr>c_sem := c_sem st - 1\<rparr>))\<lparr>c_seg := s\<rparr>"
  have "print_object (cell_width i) (cell_ptr i) ?s = Inr (say (show_nat (cell_val s i)) ?s)"
    using print_object_ok [of ?s i] at(1) len assms(3) by (simp add: say_def)
  then have "set_object (cell_width i) (cell_ptr i) v (say (irshm_desc ! i @ '' = '') (st\<lparr>c_sem := c_sem st - 1\<rparr>)) =
      Inr (say (show_nat (cell_val s i)) ?s)"
    using s(2) at(2) widths [OF assms(3)] by (auto simp: set_object_def say_def)
  then have "do_set i (Some (cell_ptr i)) v st = Inr (say (shown i s) (st\<lparr>c_seg := s\<rparr>))"
    using i(1) assms(2,3) ty
    by (cases st) (simp add: do_set_def Let_def c_wait_def c_post_def say_def shown_def)
  then show ?thesis using vals m s(1) by blast
qed

section \<open>The arguments of the shell\<close>

lemma tokens_unfold:
  "tokens d s = (case strtok_next d s of None \<Rightarrow> [] | Some (t, r) \<Rightarrow> t # tokens d r)"
  by (rule tokens.simps)

lemma tokens_empty_iff: "tokens d s = [] \<longleftrightarrow> strtok_next d s = None"
  by (subst tokens_unfold) (auto split: option.split)

lemma getarg_loop_tokens:
  "0 < n \<Longrightarrow> getarg_loop n rest =
     (if length (tokens shell_delim rest) = n
      then Some (map (\<lambda>t. strncpy t SHELL_ARGLEN) (tokens shell_delim rest)) else None)"
proof (induction n arbitrary: rest)
  case (Suc n)
  show ?case
  proof (cases "strtok_next shell_delim rest")
    case None
    then show ?thesis by (subst (1 2) tokens_unfold) simp
  next
    case (Some tr)
    obtain t r where tr: "tr = (t, r)" by fastforce
    have tok: "tokens shell_delim rest = t # tokens shell_delim r"
      by (subst tokens_unfold) (simp add: Some tr)
    show ?thesis
    proof (cases n)
      case 0
      show ?thesis
      proof (cases "strtok_next shell_delim r")
        case None
        then have "tokens shell_delim r = []" by (simp add: tokens_empty_iff)
        with None show ?thesis by (simp add: tok Some tr 0 Let_def)
      next
        case (Some x)
        then have "tokens shell_delim r \<noteq> []" by (simp add: tokens_empty_iff)
        with Some \<open>strtok_next shell_delim rest = Some tr\<close> show ?thesis by (simp add: tok tr 0 Let_def)
      qed
    next
      case (Suc m)
      with Suc.IH [of r] show ?thesis by (simp add: tok Some tr Let_def)
    qed
  qed
qed simp

text \<open>Numbers that were printed are read back from their argument array.\<close>

lemma str2int_array_show:
  assumes "n \<le> ULONG_MAX"
  shows "str2int_array (strncpy (show_nat n) SHELL_ARGLEN) = Inr (Some (of_nat n))"
proof -
  have "n < 10 ^ 10" using assms by (simp add: ULONG_MAX_def)
  then have len: "length (show_nat n) \<le> 10" by (rule length_show_nat) simp
  let ?r = "replicate (SHELL_ARGLEN - length (show_nat n)) NUL"
  have eq: "strncpy (show_nat n) SHELL_ARGLEN = show_nat n @ ?r"
    using len by (simp add: strncpy_def)
  have r: "?r = [] \<or> \<not> c_isdigit (hd ?r)"
    by (cases "SHELL_ARGLEN - length (show_nat n)") (simp_all add: c_isdigit_def)
  have "strtoul_scan (show_nat n @ ?r) = length (show_nat n)"
    by (simp add: strtoul_scan_def subject_show_nat [OF r])
  moreover have "str2int (show_nat n @ ?r) = Some (of_nat n)"
    using strtoul_show_nat [OF assms r] by (simp add: str2int_def)
  ultimately show ?thesis using len by (simp add: str2int_array_def eq)
qed

lemma digits_no_delim: "\<forall>c \<in> set (show_nat n). \<not> shell_delim c"
  using show_nat_digits [of n] by (auto simp: shell_delim_def c_isdigit_def)

definition set_line :: "nat \<Rightarrow> u32 \<Rightarrow> string" where
  "set_line i v = ''SET'' @ CHR '' '' # show_nat i @ CHR '' '' # show_u v"

definition get_line :: "nat \<Rightarrow> string" where
  "get_line i = ''GET'' @ CHR '' '' # show_nat i"

lemma tokens_number:
  "tokens shell_delim (show_nat n) = [show_nat n]"
  "tokens shell_delim (show_nat n @ CHR '' '' # r) = show_nat n # tokens shell_delim r"
proof -
  show "tokens shell_delim (show_nat n) = [show_nat n]"
    by (rule tokens_word) (simp, rule digits_no_delim)
  show "tokens shell_delim (show_nat n @ CHR '' '' # r) = show_nat n # tokens shell_delim r"
    by (rule tokens_word_delim) (simp, rule digits_no_delim, simp add: shell_delim_def)
qed

lemma tokens_command:
  "tokens shell_delim (''SET'' @ CHR '' '' # r) = ''SET'' # tokens shell_delim r"
  "tokens shell_delim (''GET'' @ CHR '' '' # r) = ''GET'' # tokens shell_delim r"
  by (rule tokens_word_delim; simp add: shell_delim_def)+

lemma set_line_tokens: "tokens shell_delim (set_line i v) = [''SET'', show_nat i, show_u v]"
  by (simp only: set_line_def show_u_def tokens_command tokens_number)

lemma get_line_tokens: "tokens shell_delim (get_line i) = [''GET'', show_nat i]"
  by (simp only: get_line_def tokens_command tokens_number)

lemma shell_getarg_tokens:
  assumes "0 < n"
  shows "shell_getarg buf n =
    (if length (tokens shell_delim buf) = Suc n
     then Some (map (\<lambda>t. strncpy t SHELL_ARGLEN) (tl (tokens shell_delim buf))) else None)"
proof (cases "strtok_next shell_delim buf")
  case None
  then have "tokens shell_delim buf = []" by (simp add: tokens_empty_iff)
  with None show ?thesis by (simp add: shell_getarg_def)
next
  case (Some tr)
  obtain t r where tr: "tr = (t, r)" by fastforce
  have "tokens shell_delim buf = t # tokens shell_delim r"
    by (subst tokens_unfold) (simp add: Some tr)
  with assms show ?thesis by (simp add: shell_getarg_def Some tr getarg_loop_tokens)
qed

lemma line_starts:
  "strcasestr (set_line i v) ''GET'' \<noteq> Some 0" "strcasestr (set_line i v) ''SET'' = Some 0"
  "strcasestr (get_line i) ''GET'' = Some 0"
  by (simp_all add: strcasestr_at_start set_line_def get_line_def c_tolower_def Let_def)

lemma small_id:
  assumes "i < length initial"
  shows "i \<le> ULONG_MAX" "unat (of_nat i :: u32) = i"
proof -
  have "i < 11" using assms by (simp add: initial_def)
  then show "i \<le> ULONG_MAX" "unat (of_nat i :: u32) = i" by (simp_all add: ULONG_MAX_def unat_of_nat)
qed

lemma shell_set_line:
  assumes "attached (c_shm st)" "i < length initial"
  shows "shell_cmd (set_line i v) st = do_set i (Some (cell_ptr i)) v st"
proof -
  have "str2int_array (strncpy (show_u v) SHELL_ARGLEN) = Inr (Some v)"
    using str2int_array_show [OF unat_le_ULONG_MAX [of v]] by (simp add: show_u_def)
  then show ?thesis
    using assms small_id [OF assms(2)]
    by (simp add: shell_cmd_def line_starts shell_set_def shell_getarg_tokens set_line_tokens str2int_array_show)
qed

lemma shell_get_line:
  assumes "attached (c_shm st)" "i < length initial"
  shows "shell_cmd (get_line i) st = do_get i (Some (cell_ptr i)) st"
  using assms small_id [OF assms(2)]
  by (simp add: shell_cmd_def line_starts shell_get_def shell_getarg_tokens get_line_tokens str2int_array_show)

section \<open>The properties\<close>

text \<open>\<open>shell_getarg\<close> splits a line as \<open>strtok\<close> would in one go: it succeeds exactly if behind the command
  word there are as many words as were asked for, and then each array holds its word, cut to 128
  characters or padded.\<close>

theorem shell_getarg_spec:
  assumes "0 < n"
  shows "shell_getarg buf n =
    (if length (tokens shell_delim buf) = Suc n
     then Some (map (\<lambda>t. strncpy t SHELL_ARGLEN) (tl (tokens shell_delim buf))) else None)"
  using assms by (rule shell_getarg_tokens)

lemma shell_getarg_spec_witness:
  "shell_getarg (set_line 3 7) 2 = Some [strncpy (show_nat 3) SHELL_ARGLEN, strncpy (show_u (7 :: u32)) SHELL_ARGLEN] \<and>
   shell_getarg (set_line 3 7) 1 = None"
  using shell_getarg_spec [of 2 "set_line 3 7"] shell_getarg_spec [of 1 "set_line 3 7"]
  by (simp add: set_line_tokens)

text \<open>C11: a value that is set in the shell is what the shell shows for that object afterwards, cut to the
  object's width, and every other object shows what it did before.  No signal is sent, so that a
  running daemon does not take the value over.\<close>

theorem shell_set_then_get:
  assumes "shm_ok (c_shm st, c_seg st)" "0 < c_sem st" "i < length initial" "j < length initial"
  shows "\<exists>s st'. sbind (shell_cmd (set_line i v) st) (shell_cmd (get_line j)) = Inr st' \<and>
    c_stdout st' = c_stdout st @ shown i s @ irshm_desc ! j @ '' = '' @
      show_nat (if j = i then unat v mod 256 ^ cell_width i else cell_val (c_seg st) j) @ [NL] \<and>
    c_kills st' = c_kills st"
proof -
  have at: "attached (c_shm st)" using assms(1) by simp
  obtain s where s: "do_set i (Some (cell_ptr i)) v st = Inr (say (shown i s) (st\<lparr>c_seg := s\<rparr>))"
      "shm_ok (c_shm st, s)"
      "\<forall>j < length initial. cell_val s j = (if j = i then unat v mod 256 ^ cell_width i else cell_val (c_seg st) j)"
    using do_set_ok [OF assms(1-3), of v] by blast
  let ?s = "say (shown i s) (st\<lparr>c_seg := s\<rparr>)"
  have r: "readable ?s" using s(2) assms(2) by (simp add: readable_def say_def)
  have "sbind (shell_cmd (set_line i v) st) (shell_cmd (get_line j)) = Inr (say (shown j s) ?s)"
    using do_get_ok [OF r assms(4)] shell_get_line [of ?s j] assms(4) at s(1)
    by (simp add: shell_set_line [OF at assms(3)] say_def)
  then show ?thesis
    using s(3) assms(4) by (intro exI [of _ s] exI [of _ "say (shown j s) ?s"]) (simp add: say_def shown_def)
qed

definition ctl_attached :: ctl where
  "ctl_attached = \<lparr>c_shm = shm_attached, c_seg = replicate 4096 0, c_sem = 1, c_stdout = [], c_stderr = [],
     c_kills = [], c_sem_removed = False, c_exit = None\<rparr>"

lemma shell_set_then_get_witness:
  "\<exists>st'. sbind (shell_cmd (set_line 2 258) ctl_attached) (shell_cmd (get_line 2)) = Inr st' \<and> c_kills st' = []"
proof -
  have "shm_ok (c_shm ctl_attached, c_seg ctl_attached)" using shm_attached_ok by (simp add: ctl_attached_def)
  moreover have "0 < c_sem ctl_attached" by (simp add: ctl_attached_def)
  moreover have "2 < length initial" by (simp add: initial_def)
  ultimately have "\<exists>s st'. sbind (shell_cmd (set_line 2 258) ctl_attached) (shell_cmd (get_line 2)) = Inr st' \<and>
      c_stdout st' = c_stdout ctl_attached @ shown 2 s @ irshm_desc ! 2 @ '' = '' @
        show_nat (if (2 :: nat) = 2 then unat (258 :: u32) mod 256 ^ cell_width 2 else cell_val (c_seg ctl_attached) 2) @ [NL] \<and>
      c_kills st' = c_kills ctl_attached"
    by (intro shell_set_then_get)
  then show ?thesis by (auto simp: ctl_attached_def)
qed

text \<open>on a segment that could only be attached read-only the command line refuses to set an object,
  with an error status and without touching the segment, but the shell tries and faults.\<close>

theorem readonly_set_faults_in_shell:
  assumes "attached (c_shm st)" "shmro (c_shm st)" "0 < c_sem st" "i < length initial"
  shows "shell_cmd (set_line i v) st = Inl ReadOnlyStore \<and>
    ctl_action env True (ctl_args_static\<lparr>copt := SET, shmi := of_nat i, set_value := v, value_set := True\<rparr>) chunks st =
      Inr (exit_with 1 (complain Readonly_segment st))"
proof -
  have i: "i < length irshm_desc" using assms(4) irshm_siz_eq by (simp add: irshm_siz_def)
  have "do_set i (Some (cell_ptr i)) v st = Inl ReadOnlyStore"
    using assms i widths [OF assms(4)]
    by (auto simp: do_set_def Let_def c_wait_def set_object_def store_def say_def)
  then show ?thesis
    using assms small_id [OF assms(4)]
    by (simp add: shell_set_line ctl_action_def)
qed

lemma readonly_set_faults_in_shell_witness:
  "shell_cmd (set_line 2 1) (ctl_attached\<lparr>c_shm := shm_attached\<lparr>shmro := True\<rparr>\<rparr>) = Inl ReadOnlyStore"
proof -
  have "attached (shm_attached\<lparr>shmro := True\<rparr>)" using shm_attached_ok by (simp add: attached_def)
  with readonly_set_faults_in_shell [of "ctl_attached\<lparr>c_shm := shm_attached\<lparr>shmro := True\<rparr>\<rparr>" 2 1]
  show ?thesis by (simp add: ctl_attached_def initial_def)
qed

text \<open>an argument of 128 digits or more fills its array without a terminator, and its conversion reads
  behind the array, while one that is shorter is converted as it stands.\<close>

theorem long_argument_overreads:
  assumes "\<forall>c \<in> set ds. c_isdigit c" "ds \<noteq> []"
  shows "str2int_array (strncpy ds SHELL_ARGLEN) =
    (if length ds < SHELL_ARGLEN then Inr (str2int ds) else Inl OutOfBounds)"
proof (cases "length ds < SHELL_ARGLEN")
  case True
  let ?r = "replicate (SHELL_ARGLEN - length ds) NUL"
  have eq: "strncpy ds SHELL_ARGLEN = ds @ ?r" using True by (simp add: strncpy_def)
  have r: "?r = [] \<or> \<not> c_isdigit (hd ?r)"
    using True by (cases "SHELL_ARGLEN - length ds") (simp_all add: c_isdigit_def)
  have "subject (ds @ ?r) = subject (ds @ [])"
    using subject_digits [OF assms(2,1) r] subject_digits [OF assms(2,1), of "[]"] by simp
  moreover have "strtoul_scan (ds @ ?r) = length ds"
    by (simp add: strtoul_scan_def subject_digits [OF assms(2,1) r])
  ultimately show ?thesis using True by (simp add: str2int_array_def eq str2int_def strtoul_def)
next
  case False
  let ?t = "take SHELL_ARGLEN ds"
  have eq: "strncpy ds SHELL_ARGLEN = ?t" using False by (simp add: strncpy_def)
  have t: "\<forall>c \<in> set ?t. c_isdigit c" using assms(1) by (auto dest: in_set_takeD)
  have "?t \<noteq> []" using assms(2) by simp
  from subject_digits [OF this t, of "[]"] have "strtoul_scan ?t = length ?t"
    by (simp add: strtoul_scan_def)
  with False show ?thesis by (simp add: str2int_array_def eq)
qed

lemma long_argument_overreads_witness:
  "str2int_array (strncpy (replicate 130 (CHR ''1'')) SHELL_ARGLEN) = Inl OutOfBounds"
  using long_argument_overreads [of "replicate 130 (CHR ''1'')"] by (simp add: c_isdigit_def)

end
