(* ===== verification/Irxmpp.thy ===== *)
theory Irxmpp
  imports CLib
begin

unbundle bit_operations_syntax

text \<open>
  The messenger of the alarm daemon (\<open>iralarm/irxmpp.c\<close>), first part: its static state, the
  operations that configure it, the password file, and the filter of the library's log.

  \<^item> State: the static variables, under their names; what the program told libstrophe, in order, is
    the list \<open>x_calls\<close>.  libstrophe is not part of the source: its functions are calls in that
    list, and what they return is a parameter of the operation.
  \<^item> Memory for copies of strings is always there.
\<close>

section \<open>State\<close>

abbreviation (input) BUFSIZ :: nat where "BUFSIZ \<equiv> 8192"

abbreviation (input) ERR_OK :: int where "ERR_OK \<equiv> 0"
abbreviation (input) ERR_NHOST :: int where "ERR_NHOST \<equiv> -1"
abbreviation (input) ERR_NJID :: int where "ERR_NJID \<equiv> -2"
abbreviation (input) ERR_NPASS :: int where "ERR_NPASS \<equiv> -3"
abbreviation (input) ERR_NTRUSTED :: int where "ERR_NTRUSTED \<equiv> -4"
abbreviation (input) ERR_CFG_MODE :: int where "ERR_CFG_MODE \<equiv> -5"
abbreviation (input) ERR_SYSERR :: int where "ERR_SYSERR \<equiv> -6"
abbreviation (input) ERR_PATH :: int where "ERR_PATH \<equiv> -7"
abbreviation (input) ERR_UNKWNCMD :: int where "ERR_UNKWNCMD \<equiv> -8"

datatype handler =
    Ping_handler
  | Version_handler
  | Last_handler
  | Time_handler
  | Message_handler
  | Presence_handler

text \<open>
  The calls of libstrophe, and the other effects of the messenger.  A stanza that the program made
  is known by the number of its \<open>xmpp_stanza_new\<close>.
\<close>

datatype xcall =
    Stanza_new nat
  | Set_name nat string
  | Set_type nat string
  | Set_id nat "string option"
  | Set_ns nat string
  | Set_attribute nat string string
  | Set_text nat string
  | Add_child nat nat      \<comment> \<open>parent and child\<close>
  | Release nat
  | Send nat
  | Free_text              \<comment> \<open>\<open>xmpp_free\<close> of the text of a body\<close>
  | Handler_add handler "string option" string
  | Lib_initialize
  | Ctx_new
  | Conn_new
  | Connect_client "string option" u16
  | Run
  | Disconnect
  | Stop
  | Conn_release
  | Ctx_free
  | Lib_shutdown
  | Cond_signal
  | Sleep nat
  | Logged string

text \<open>The connection: the identity that libstrophe was given for it.\<close>

record xconn =
  c_jid :: "string option"
  c_pass :: "string option"

record irxmpp =
  passwd_file :: "string option"
  trusted_jid :: "string option"
  host :: "string option"
  port :: u16
  ctx :: bool            \<comment> \<open>whether there is a context\<close>
  conn :: "xconn option"
  do_reconnect :: bool
  thrd_conn_mtx :: bool  \<comment> \<open>whether the mutex is held\<close>
  x_next :: nat          \<comment> \<open>the number of the next stanza\<close>
  x_calls :: "xcall list"

definition irxmpp_static :: irxmpp where
  "irxmpp_static =
     \<lparr>passwd_file = None, trusted_jid = None, host = None, port = 0, ctx = False, conn = None,
      do_reconnect = False, thrd_conn_mtx = False, x_next = 0, x_calls = []\<rparr>"

definition xcall :: "xcall \<Rightarrow> irxmpp \<Rightarrow> irxmpp" where
  "xcall c x = x\<lparr>x_calls := x_calls x @ [c]\<rparr>"

section \<open>Configuration\<close>

definition strndup :: "string \<Rightarrow> nat \<Rightarrow> string" where
  "strndup s n = take n s"

definition irxmpp_set_jid :: "string \<Rightarrow> irxmpp \<Rightarrow> irxmpp" where
  "irxmpp_set_jid jid x =
     (case conn x of None \<Rightarrow> x | Some c \<Rightarrow> x\<lparr>conn := Some (c\<lparr>c_jid := Some jid\<rparr>)\<rparr>)"

definition irxmpp_set_pass :: "string \<Rightarrow> irxmpp \<Rightarrow> irxmpp" where
  "irxmpp_set_pass pass x =
     (case conn x of None \<Rightarrow> x | Some c \<Rightarrow> x\<lparr>conn := Some (c\<lparr>c_pass := Some pass\<rparr>)\<rparr>)"

definition irxmpp_set_trusted :: "string option \<Rightarrow> irxmpp \<Rightarrow> irxmpp" where
  "irxmpp_set_trusted jid x =
     (case jid of None \<Rightarrow> x | Some j \<Rightarrow> x\<lparr>trusted_jid := Some (strndup j BUFSIZ)\<rparr>)"

definition irxmpp_set_host :: "string option \<Rightarrow> irxmpp \<Rightarrow> irxmpp" where
  "irxmpp_set_host new_host x =
     (case new_host of None \<Rightarrow> x | Some h \<Rightarrow> x\<lparr>host := Some (strndup h BUFSIZ)\<rparr>)"

definition irxmpp_set_port :: "u16 \<Rightarrow> irxmpp \<Rightarrow> irxmpp" where
  "irxmpp_set_port new_port x = x\<lparr>port := new_port\<rparr>"

definition IRALARM_PASSWDFILE :: string where
  "IRALARM_PASSWDFILE = ''/etc/irxmppasswd''"

definition irxmpp_set_passwdfile :: "string option \<Rightarrow> irxmpp \<Rightarrow> irxmpp" where
  "irxmpp_set_passwdfile file x =
     (if passwd_file x \<noteq> None then x
      else x\<lparr>passwd_file := Some (case file of None \<Rightarrow> IRALARM_PASSWDFILE | Some f \<Rightarrow> f)\<rparr>)"

definition irxmpp_initialize :: "irxmpp \<Rightarrow> irxmpp" where
  "irxmpp_initialize x =
     xcall Conn_new ((xcall Ctx_new (xcall Lib_initialize x))
       \<lparr>ctx := True, conn := Some \<lparr>c_jid = None, c_pass = None\<rparr>\<rparr>)"

section \<open>The password file\<close>

text \<open>
  What the kernel says of a path: its mode, or that \<open>stat\<close> fails; what \<open>fread\<close> delivers of it, or that
  \<open>fopen\<close> fails.  A read error delivers less.
\<close>

record file_env =
  f_mode :: "string \<Rightarrow> u32 option"
  f_read :: "string \<Rightarrow> string option"

definition S_ISREG :: "u32 \<Rightarrow> bool" where
  "S_ISREG m \<longleftrightarrow> m AND 0xF000 = 0x8000"

abbreviation (input) S_IRUSR :: u32 where "S_IRUSR \<equiv> 0x100"

text \<open>\<open>S_ISUID, S_ISGID, S_IRGRP, S_IWGRP, S_IXGRP, S_IROTH, S_IWOTH, S_IXOTH\<close>\<close>

definition frbddn_bits :: "u32 list" where
  "frbddn_bits = [0x800, 0x400, 0x20, 0x10, 0x8, 0x4, 0x2, 0x1]"

text \<open>The loop with its \<open>break\<close>.\<close>

fun frbddn_loop :: "u32 \<Rightarrow> u32 list \<Rightarrow> int \<Rightarrow> int" where
  "frbddn_loop m [] retval = retval"
| "frbddn_loop m (b # bs) retval = (if m AND b \<noteq> 0 then ERR_CFG_MODE else frbddn_loop m bs retval)"

text \<open>The result and the path that is handed out.\<close>

definition irxmpp_check_passwd_file :: "file_env \<Rightarrow> irxmpp \<Rightarrow> int \<times> string option" where
  "irxmpp_check_passwd_file env x =
     (case passwd_file x of
        None \<Rightarrow> (ERR_PATH, None)
      | Some f \<Rightarrow>
          ((case f_mode env f of
              None \<Rightarrow> ERR_SYSERR
            | Some m \<Rightarrow>
                if S_ISREG m \<and> m AND S_IRUSR \<noteq> 0 then frbddn_loop m frbddn_bits ERR_OK else ERR_CFG_MODE),
           Some f))"

text \<open>The buffer after \<open>memset\<close>, \<open>fread\<close> and the cut at the first newline.\<close>

definition passwd_line :: "string \<Rightarrow> string" where
  "passwd_line bytes =
     (let passwd = cstr (take (BUFSIZ - 1) bytes @ [NUL])
      in case strstr passwd [NL] of None \<Rightarrow> passwd | Some i \<Rightarrow> take i passwd)"

definition irxmpp_read_passwd_file :: "file_env \<Rightarrow> irxmpp \<Rightarrow> int \<times> irxmpp" where
  "irxmpp_read_passwd_file env x =
     (case passwd_file x of
        None \<Rightarrow> (ERR_PATH, x)
      | Some f \<Rightarrow>
          (case f_read env f of
             None \<Rightarrow> (ERR_SYSERR, x)
           | Some bytes \<Rightarrow> (ERR_OK, irxmpp_set_pass (passwd_line bytes) x)))"

section \<open>The filter of the log\<close>

datatype xlevel = XMPP_LEVEL_DEBUG | XMPP_LEVEL_INFO | XMPP_LEVEL_WARN | XMPP_LEVEL_ERROR

fun xlevel_num :: "xlevel \<Rightarrow> nat" where
  "xlevel_num XMPP_LEVEL_DEBUG = 0"
| "xlevel_num XMPP_LEVEL_INFO = 1"
| "xlevel_num XMPP_LEVEL_WARN = 2"
| "xlevel_num XMPP_LEVEL_ERROR = 3"

lemma xlevel_num_inj: "xlevel_num a = xlevel_num b \<Longrightarrow> a = b"
  by (cases a; cases b; simp)

instantiation xlevel :: linorder
begin

definition less_eq_xlevel :: "xlevel \<Rightarrow> xlevel \<Rightarrow> bool" where
  "less_eq_xlevel a b \<longleftrightarrow> xlevel_num a \<le> xlevel_num b"

definition less_xlevel :: "xlevel \<Rightarrow> xlevel \<Rightarrow> bool" where
  "less_xlevel a b \<longleftrightarrow> xlevel_num a < xlevel_num b"

instance
  by standard (auto simp: less_eq_xlevel_def less_xlevel_def dest: xlevel_num_inj)

end

definition loglvl :: xlevel where
  "loglvl = XMPP_LEVEL_WARN"

definition irxmpp_log_handler :: "xlevel \<Rightarrow> string \<Rightarrow> string \<Rightarrow> irxmpp \<Rightarrow> irxmpp" where
  "irxmpp_log_handler lvl area msg x =
     (if loglvl \<le> lvl then xcall (Logged (''irxmpp('' @ area @ ''): '' @ msg)) x else x)"

section \<open>Facts\<close>

lemma frbddn_loop_iff:
  "frbddn_loop m bs retval = (if \<exists>b \<in> set bs. m AND b \<noteq> 0 then ERR_CFG_MODE else retval)"
  by (induction bs) auto

lemma strstr_single: "strstr s [c] = (if c \<in> set s then Some (length (takeWhile (\<lambda>x. x \<noteq> c) s)) else None)"
  by (induction s) auto

lemma cut_at_newline:
  "(case strstr s [NL] of None \<Rightarrow> s | Some i \<Rightarrow> take i s) = takeWhile (\<lambda>c. c \<noteq> NL) s"
proof (cases "NL \<in> set s")
  case True
  then show ?thesis by (simp add: strstr_single flip: takeWhile_eq_take)
next
  case False
  moreover from False have "takeWhile (\<lambda>c. c \<noteq> NL) s = s" by (subst takeWhile_eq_all_conv) blast
  ultimately show ?thesis by (simp only: strstr_single if_False option.case)
qed

lemma cstr_terminated: "cstr (b @ [NUL]) = takeWhile (\<lambda>c. c \<noteq> NUL) b"
  by (induction b) (simp_all add: cstr_def)

lemma takeWhile_both: "takeWhile P (takeWhile Q xs) = takeWhile (\<lambda>x. P x \<and> Q x) xs"
  by (induction xs) auto

lemma passwd_line_eq:
  "passwd_line bytes = takeWhile (\<lambda>c. c \<noteq> NL \<and> c \<noteq> NUL) (take (BUFSIZ - 1) bytes)"
  unfolding passwd_line_def Let_def cut_at_newline cstr_terminated takeWhile_both ..

section \<open>The properties\<close>

text \<open>C15: the password file is accepted exactly if it is a regular file that its owner may read and that is
  neither set-id nor open to the group or to others in any way; whether the owner may write or
  execute it does not matter.\<close>

theorem passwd_file_accepted_iff:
  assumes "passwd_file x = Some f"
  shows "fst (irxmpp_check_passwd_file env x) = ERR_OK \<longleftrightarrow>
    (\<exists>m. f_mode env f = Some m \<and> m AND 0xF000 = 0x8000 \<and> m AND 0xD3F = 0x100)"
proof -
  have bits: "(m AND 0xD3F = 0x100) \<longleftrightarrow>
      bit m 8 \<and> (\<forall>n \<in> {0, 1, 2, 3, 4, 5, 10, 11}. \<not> bit m n)" for m :: u32
  proof -
    have e: "(0xD3F :: u32) = 2 ^ 0 OR 2 ^ 1 OR 2 ^ 2 OR 2 ^ 3 OR 2 ^ 4 OR 2 ^ 5 OR 2 ^ 8 OR 2 ^ 10 OR 2 ^ 11"
      by simp
    have p: "bit (2 ^ k :: u32) n \<longleftrightarrow> k = n" if "n < 32" for n k using that by (auto simp: bit_exp_iff)
    have a: "bit (0xD3F :: u32) n \<longleftrightarrow> n \<in> {0, 1, 2, 3, 4, 5, 8, 10, 11}" if "n < 32" for n
      unfolding e bit_or_iff p [OF that] by blast
    have e8: "(0x100 :: u32) = 2 ^ 8" by simp
    have b: "bit (0x100 :: u32) n \<longleftrightarrow> n = 8" if "n < 32" for n unfolding e8 p [OF that] by blast
    have "(m AND 0xD3F = 0x100) \<longleftrightarrow>
        (\<forall>n < 32. (bit m n \<and> n \<in> {0, 1, 2, 3, 4, 5, 8, 10, 11}) = (n = 8))"
      using a b by (simp add: bit_eq_iff bit_and_iff)
    also have "\<dots> \<longleftrightarrow> bit m 8 \<and> (\<forall>n \<in> {0, 1, 2, 3, 4, 5, 10, 11}. \<not> bit m n)" (is "?A \<longleftrightarrow> ?B")
    proof
      assume A: ?A
      have "(bit m k \<and> k \<in> {0, 1, 2, 3, 4, 5, 8, 10, 11}) = (k = 8)" if "k < 32" for k
        using A that by blast
      from this [of 0] this [of 1] this [of 2] this [of 3] this [of 4] this [of 5] this [of 8] this [of 10] this [of 11]
      show ?B by simp
    qed auto
    finally show ?thesis .
  qed
  have one: "m AND b \<noteq> 0 \<longleftrightarrow> bit m n" if "b = 2 ^ n" for m b :: u32 and n
    by (simp add: that and_exp_eq_0_iff_not_bit)
  have "(\<exists>b \<in> set frbddn_bits. m AND b \<noteq> 0) \<longleftrightarrow> (\<exists>n \<in> {0, 1, 2, 3, 4, 5, 10, 11}. bit m n)" for m
    by (simp add: frbddn_bits_def one [of _ 0] one [of _ 1] one [of _ 2] one [of _ 3] one [of _ 4]
        one [of _ 5] one [of _ 10] one [of _ 11]) blast
  moreover have "m AND S_IRUSR \<noteq> 0 \<longleftrightarrow> bit m 8" for m by (rule one) simp
  ultimately show ?thesis
    using assms by (auto simp: irxmpp_check_passwd_file_def frbddn_loop_iff S_ISREG_def bits split: option.split)
qed

lemma passwd_file_accepted_iff_witness:
  "fst (irxmpp_check_passwd_file \<lparr>f_mode = (\<lambda>_. Some 0x81C0), f_read = (\<lambda>_. None)\<rparr>
     (irxmpp_set_passwdfile None irxmpp_static)) = ERR_OK"
proof -
  let ?x = "irxmpp_set_passwdfile None irxmpp_static"
  have "passwd_file ?x = Some IRALARM_PASSWDFILE"
    by (simp add: irxmpp_set_passwdfile_def irxmpp_static_def)
  from passwd_file_accepted_iff [OF this, of "\<lparr>f_mode = (\<lambda>_. Some 0x81C0), f_read = (\<lambda>_. None)\<rparr>"]
  show ?thesis by simp
qed

text \<open>what is written on the first line of the password file becomes the password of the connection,
  as long as the line fits the buffer; later lines do not matter.\<close>

theorem password_is_first_line:
  assumes "passwd_file x = Some f" "conn x = Some c" "f_read env f = Some (l @ NL # rest)"
    and "NL \<notin> set l" "NUL \<notin> set l" "length l < BUFSIZ"
  shows "irxmpp_read_passwd_file env x = (ERR_OK, x\<lparr>conn := Some (c\<lparr>c_pass := Some l\<rparr>)\<rparr>)"
proof -
  have "takeWhile (\<lambda>c. c \<noteq> NL \<and> c \<noteq> NUL) (take n (l @ NL # rest)) = l" if "length l \<le> n" for n
    using that assms(4,5)
  proof (induction l arbitrary: n)
    case Nil
    then show ?case by (cases n) simp_all
  next
    case (Cons a l)
    then show ?case by (cases n) auto
  qed
  then have "passwd_line (l @ NL # rest) = l" using assms(6) by (simp only: passwd_line_eq)
  with assms(1-3) show ?thesis by (simp add: irxmpp_read_passwd_file_def irxmpp_set_pass_def)
qed

lemma password_is_first_line_witness:
  "irxmpp_read_passwd_file \<lparr>f_mode = (\<lambda>_. None), f_read = (\<lambda>_. Some (''secret'' @ NL # ''more''))\<rparr>
     (irxmpp_set_passwdfile None (irxmpp_initialize irxmpp_static)) =
   (ERR_OK, irxmpp_set_pass ''secret'' (irxmpp_set_passwdfile None (irxmpp_initialize irxmpp_static)))"
proof -
  let ?x = "irxmpp_set_passwdfile None (irxmpp_initialize irxmpp_static)"
  have "passwd_file ?x = Some IRALARM_PASSWDFILE" "conn ?x = Some \<lparr>c_jid = None, c_pass = None\<rparr>"
    by (simp_all add: irxmpp_set_passwdfile_def irxmpp_static_def irxmpp_initialize_def xcall_def)
  from password_is_first_line [OF this, of "\<lparr>f_mode = (\<lambda>_. None), f_read = (\<lambda>_. Some (''secret'' @ NL # ''more''))\<rparr>"
      "''secret''" "''more''"]
  show ?thesis by (simp add: irxmpp_set_pass_def irxmpp_set_passwdfile_def irxmpp_static_def irxmpp_initialize_def xcall_def)
qed

end
