(* ===== verification/Irxmpp_Stanza.thy ===== *)
theory Irxmpp_Stanza
  imports Irxmpp "HOL-Library.State_Monad"
begin

text \<open>
  The messenger of the alarm daemon (\<open>iralarm/irxmpp.c\<close>), second part: the stanzas that it builds
  and sends, its commands, and the handlers that libstrophe calls.

  \<^item> A function that only calls libstrophe is a program of the state monad over \<open>irxmpp\<close>; one that
    can also go wrong is a function into \<open>c_result\<close>.  Handlers return the number 1, by which they
    stay installed.
  \<^item> An incoming stanza is what libstrophe's getters answer for it, the record \<open>stanza_in\<close>.
  \<^item> Specifications: \<open>obeys\<close> is what libstrophe's documentation asks of its callers (every stanza that
    was made is released once, and none is used that may be gone), \<open>sent\<close> the stanzas that a
    sequence of calls describes and sends.
\<close>

section \<open>Building stanzas\<close>

type_synonym 'a xm = "(irxmpp, 'a) state"

definition xdo :: "xcall \<Rightarrow> unit xm" where
  "xdo c = State (\<lambda>x. ((), xcall c x))"

definition xmpp_stanza_new :: "nat xm" where
  "xmpp_stanza_new = State (\<lambda>x. (x_next x, xcall (Stanza_new (x_next x)) (x\<lparr>x_next := x_next x + 1\<rparr>)))"

text \<open>
  The incoming stanza: its attributes, the names of its children, the text of its body (no body, a
  body without text, a text), and the name space of its first child (no child, none, one).
\<close>

record stanza_in =
  si_attr :: "string \<Rightarrow> string option"
  si_child :: "string \<Rightarrow> bool"
  si_body :: "string option option"
  si_first_ns :: "string option option"

abbreviation si_id :: "stanza_in \<Rightarrow> string option" where
  "si_id st \<equiv> si_attr st ''id''"

text \<open>\<open>__irxmpp_default_iq\<close>, with the name space of the first child.\<close>

definition irxmpp_default_iq :: "stanza_in \<Rightarrow> string option \<Rightarrow> string \<Rightarrow> (nat \<times> nat) xm" where
  "irxmpp_default_iq st ns query_root = do {
     reply \<leftarrow> xmpp_stanza_new;
     xdo (Set_name reply ''iq'');
     xdo (Set_type reply ''result'');
     xdo (Set_id reply (si_id st));
     (case si_attr st ''from'' of None \<Rightarrow> State_Monad.return () | Some from \<Rightarrow> xdo (Set_attribute reply ''to'' from));
     query \<leftarrow> xmpp_stanza_new;
     xdo (Set_name query query_root);
     (case ns of None \<Rightarrow> State_Monad.return () | Some n \<Rightarrow> xdo (Set_ns query n));
     State_Monad.return (reply, query)
   }"

text \<open>Asking the null pointer for its name space: the stanza has no child.\<close>

definition with_first_child :: "stanza_in \<Rightarrow> (string option \<Rightarrow> 'a xm) \<Rightarrow> irxmpp \<Rightarrow> ('a \<times> irxmpp) c_result" where
  "with_first_child st f x =
     (case si_first_ns st of None \<Rightarrow> Inl NullDeref | Some ns \<Rightarrow> Inr (run_state (f ns) x))"

section \<open>Handlers of queries\<close>

abbreviation (input) APPNAME :: string where "APPNAME \<equiv> ''iralarmd''"
abbreviation (input) AUTHOR :: string where "AUTHOR \<equiv> ''Toni Uhlig''"
abbreviation (input) EMAIL :: string where "EMAIL \<equiv> ''matzeton@googlemail.com''"

definition irxmpp_version_handler :: "stanza_in \<Rightarrow> irxmpp \<Rightarrow> (int \<times> irxmpp) c_result" where
  "irxmpp_version_handler st = with_first_child st (\<lambda>ns. do {
     (reply, query) \<leftarrow> irxmpp_default_iq st ns ''query'';
     name \<leftarrow> xmpp_stanza_new;
     xdo (Set_name name ''name'');
     text \<leftarrow> xmpp_stanza_new;
     xdo (Set_text text APPNAME);
     xdo (Add_child name text);
     xdo (Release text);
     xdo (Add_child query name);
     xdo (Release name);
     version \<leftarrow> xmpp_stanza_new;
     xdo (Set_name version ''author'');
     xdo (Add_child query version);
     xdo (Release version);
     text \<leftarrow> xmpp_stanza_new;
     xdo (Set_text text AUTHOR);
     xdo (Add_child version text);
     xdo (Release text);
     xdo (Add_child reply query);
     xdo (Release query);
     xdo (Send reply);
     xdo (Release reply);
     State_Monad.return 1
   })"

definition irxmpp_time_handler :: "stanza_in \<Rightarrow> irxmpp \<Rightarrow> (int \<times> irxmpp) c_result" where
  "irxmpp_time_handler st = with_first_child st (\<lambda>ns. do {
     (reply, query) \<leftarrow> irxmpp_default_iq st ns ''time'';
     xdo (Set_attribute reply ''seconds'' ''0'');
     xdo (Add_child reply query);
     xdo (Release query);
     xdo (Send reply);
     xdo (Release reply);
     State_Monad.return 1
   })"

definition irxmpp_last_handler :: "stanza_in \<Rightarrow> irxmpp \<Rightarrow> (int \<times> irxmpp) c_result" where
  "irxmpp_last_handler st = with_first_child st (\<lambda>ns. do {
     (reply, query) \<leftarrow> irxmpp_default_iq st ns ''time'';
     name \<leftarrow> xmpp_stanza_new;
     xdo (Set_name name ''tzo'');
     text \<leftarrow> xmpp_stanza_new;
     xdo (Set_text text []);
     xdo (Add_child name text);
     xdo (Release text);
     xdo (Add_child query name);
     xdo (Release name);
     version \<leftarrow> xmpp_stanza_new;
     xdo (Set_name version ''utc'');
     xdo (Add_child query version);
     xdo (Release version);
     text \<leftarrow> xmpp_stanza_new;
     xdo (Set_text text []);
     xdo (Add_child version text);
     xdo (Release text);
     xdo (Add_child reply query);
     xdo (Release query);
     xdo (Send reply);
     xdo (Release reply);
     State_Monad.return 1
   })"

definition irxmpp_ping_handler :: "stanza_in \<Rightarrow> int xm" where
  "irxmpp_ping_handler st = do {
     (if si_child st ''ping'' then
        if si_attr st ''type'' \<noteq> None \<and> si_id st \<noteq> None then do {
          reply \<leftarrow> xmpp_stanza_new;
          xdo (Set_name reply ''iq'');
          xdo (Set_type reply ''result'');
          xdo (Set_id reply (si_id st));
          xdo (Send reply);
          xdo (Release reply)
        } else State_Monad.return ()
      else State_Monad.return ());
     State_Monad.return 1
   }"

section \<open>Messages\<close>

definition irxmpp_sendmsg :: "string \<Rightarrow> string \<Rightarrow> unit xm" where
  "irxmpp_sendmsg to msg = do {
     reply \<leftarrow> xmpp_stanza_new;
     xdo (Set_name reply ''message'');
     xdo (Set_type reply ''chat'');
     xdo (Set_attribute reply ''to'' to);
     body \<leftarrow> xmpp_stanza_new;
     xdo (Set_name body ''body'');
     text \<leftarrow> xmpp_stanza_new;
     xdo (Set_text text msg);
     xdo (Add_child body text);
     xdo (Release text);
     xdo (Add_child reply body);
     xdo (Release body);
     xdo (Send reply);
     xdo (Release reply)
   }"

text \<open>Without a trusted address, the null pointer is set as the attribute.\<close>

definition irxmpp_sendmsg_trusted :: "string \<Rightarrow> irxmpp \<Rightarrow> irxmpp c_result" where
  "irxmpp_sendmsg_trusted msg x =
     (case trusted_jid x of
        None \<Rightarrow> Inl NullDeref
      | Some t \<Rightarrow> Inr (snd (run_state (irxmpp_sendmsg t msg) x)))"

text \<open>The table of the commands: the word, its number, its description.\<close>

type_synonym irxmpp_cb = "string \<times> int \<times> string"

abbreviation (input) IRXMPP_STATUS :: int where "IRXMPP_STATUS \<equiv> 0"
abbreviation (input) IRXMPP_CONFIG :: int where "IRXMPP_CONFIG \<equiv> 1"

definition irxmpp_cb_args :: "irxmpp_cb list" where
  "irxmpp_cb_args =
     [(''status'', IRXMPP_STATUS, ''print alarm information''),
      (''config'', IRXMPP_CONFIG, ''print configuration values'')]"

text \<open>The doubling of the buffer's size until it is larger than what is needed.\<close>

function grow :: "nat \<Rightarrow> nat \<Rightarrow> nat" where
  "grow need sz_max = (if sz_max = 0 \<or> need < sz_max then sz_max else grow need (sz_max * 2))"
  by pat_completeness auto

termination
  by (relation "measure (\<lambda>(need, sz). Suc need - sz)") auto

declare grow.simps [simp del]

text \<open>
  The loop of \<open>__sprint_commands\<close>: the size of the buffer and the string in it.  \<open>sz_cur\<close> keeps its
  first value, 1.  Writing more than the buffer holds is out of bounds.
\<close>

fun sprint_loop :: "irxmpp_cb list \<Rightarrow> nat \<Rightarrow> string \<Rightarrow> string c_result" where
  "sprint_loop [] sz_max ret = Inr ret"
| "sprint_loop ((cmd, _, desc) # cbs) sz_max ret =
     (let strlen_cmd = min (length cmd) BUFSIZ;
          strlen_desc = min (length desc) BUFSIZ;
          sz = grow (strlen_cmd + strlen_desc + 1 + 4) sz_max;
          ret' = ret @ take strlen_cmd cmd @ '' - '' @ take strlen_desc desc @ [NL]
      in if length ret' < sz then sprint_loop cbs sz ret' else Inl OutOfBounds)"

definition sprint_commands :: "irxmpp_cb list \<Rightarrow> string c_result" where
  "sprint_commands cbs = sprint_loop cbs BUFSIZ [NL]"

fun parse_loop :: "string \<Rightarrow> irxmpp_cb list \<Rightarrow> int" where
  "parse_loop cmd [] = ERR_UNKWNCMD"
| "parse_loop cmd ((c, i, _) # cbs) = (if strcasestr cmd c = Some 0 then i else parse_loop cmd cbs)"

definition parse_command :: "string \<Rightarrow> int" where
  "parse_command cmd = parse_loop cmd irxmpp_cb_args"

definition version_text :: string where
  "version_text =
     take (BUFSIZ - 1) ([NL] @ ''Software...: '' @ APPNAME @ [NL] @ ''Author.....: '' @ AUTHOR @ [NL] @
        ''Contact....: '' @ EMAIL @ [NL])"

definition help_text :: string where
  "help_text =
     ''I'' @ [CHR 0x27] @ ''m able to understand the following commands:'' @ [NL] @ ''ping - pong'' @ [NL] @
     ''version - print version and author''"

definition puzzled_text :: string where
  "puzzled_text =
     ''I don'' @ [CHR 0x27] @ ''t understand. Type '' @ [CHR 0x27] @ ''help'' @ [CHR 0x27] @ '' for more information.''"

text \<open>The answer to a text of the trusted user; \<open>cmd_cb\<close> is the callback of the daemon.\<close>

definition answer :: "(int \<Rightarrow> irxmpp \<Rightarrow> irxmpp c_result) \<Rightarrow> string \<Rightarrow> irxmpp \<Rightarrow> irxmpp c_result" where
  "answer cmd_cb msg x =
     (let cb_id = parse_command msg
      in if cb_id \<noteq> ERR_UNKWNCMD then cmd_cb cb_id x
         else if strcasestr msg ''ping'' = Some 0 then irxmpp_sendmsg_trusted ''PONG!'' x
         else if strcasestr msg ''version'' = Some 0 then irxmpp_sendmsg_trusted version_text x
         else if strcasestr msg ''help'' = Some 0 then
           sbind (irxmpp_sendmsg_trusted help_text x) (\<lambda>x.
           sbind (sprint_commands irxmpp_cb_args) (\<lambda>cmds.
           irxmpp_sendmsg_trusted cmds x))
         else irxmpp_sendmsg_trusted puzzled_text x)"

definition irxmpp_message_handler ::
    "(int \<Rightarrow> irxmpp \<Rightarrow> irxmpp c_result) \<Rightarrow> stanza_in \<Rightarrow> irxmpp \<Rightarrow> (int \<times> irxmpp) c_result" where
  "irxmpp_message_handler cmd_cb st x =
     (case (si_attr st ''from'', si_body st) of
        (Some from, Some body) \<Rightarrow>
          (case trusted_jid x of
             None \<Rightarrow> Inl NullDeref
           | Some t \<Rightarrow>
               if strstr from t \<noteq> Some 0 then Inr (1, x)
               else (case body of
                       None \<Rightarrow> Inr (1, x)
                     | Some msg \<Rightarrow> sbind (answer cmd_cb msg x) (\<lambda>x. Inr (1, xcall Free_text x))))
      | _ \<Rightarrow> Inr (1, x))"

definition irxmpp_presence_handler :: "stanza_in \<Rightarrow> irxmpp \<Rightarrow> (int \<times> irxmpp) c_result" where
  "irxmpp_presence_handler st x =
     (case si_attr st ''from'' of
        None \<Rightarrow> Inr (1, x)
      | Some from \<Rightarrow>
          (case trusted_jid x of
             None \<Rightarrow> Inl NullDeref
           | Some t \<Rightarrow>
               if strstr from t \<noteq> Some 0 then Inr (1, x)
               else if (case si_attr st ''type'' of None \<Rightarrow> False | Some ty \<Rightarrow> strstr ty ''unavailable'' = Some 0)
               then Inr (1, x)
               else if \<not> si_child st ''show'' \<and> si_attr st ''to'' \<noteq> None
               then sbind (irxmpp_sendmsg_trusted ''Welcome trusted user.'' x) (\<lambda>x. Inr (1, x))
               else Inr (1, x)))"

section \<open>The handler of the connection\<close>

text \<open>The type and the text of a stream error.\<close>

type_synonym stream_error = "nat \<times> string"

definition conn_error_text :: "int \<Rightarrow> stream_error \<Rightarrow> string" where
  "conn_error_text err se =
     ''irxmpp: disconnected/error: '' @ show_d (of_int err) @ ''('' @ show_nat (fst se) @ ''): '' @ snd se"

definition irxmpp_conn_handler :: "bool \<Rightarrow> int \<Rightarrow> stream_error option \<Rightarrow> irxmpp \<Rightarrow> irxmpp c_result" where
  "irxmpp_conn_handler connected err serr x =
     (if connected then
        Inr (snd (run_state (do {
          xdo (Handler_add Ping_handler (Some ''urn:xmpp:ping'') ''iq'');
          xdo (Handler_add Version_handler (Some ''jabber:iq:version'') ''iq'');
          xdo (Handler_add Last_handler (Some ''jabber:iq:last'') ''iq'');
          xdo (Handler_add Time_handler (Some ''urn:xmpp:time'') ''iq'');
          xdo (Handler_add Message_handler None ''message'');
          xdo (Handler_add Presence_handler None ''presence'');
          pres \<leftarrow> xmpp_stanza_new;
          xdo (Set_name pres ''presence'');
          xdo (Send pres);
          xdo (Release pres);
          xdo Cond_signal
        }) x))
      else
        (case serr of
           None \<Rightarrow> Inl NullDeref
         | Some se \<Rightarrow> Inr (xcall (Logged (conn_error_text err se)) x)))"

text \<open>The handlers as libstrophe calls them, once they are added.\<close>

fun run_handler ::
    "(int \<Rightarrow> irxmpp \<Rightarrow> irxmpp c_result) \<Rightarrow> handler \<Rightarrow> stanza_in \<Rightarrow> irxmpp \<Rightarrow> (int \<times> irxmpp) c_result" where
  "run_handler cmd_cb Ping_handler st x = Inr (run_state (irxmpp_ping_handler st) x)"
| "run_handler cmd_cb Version_handler st x = irxmpp_version_handler st x"
| "run_handler cmd_cb Last_handler st x = irxmpp_last_handler st x"
| "run_handler cmd_cb Time_handler st x = irxmpp_time_handler st x"
| "run_handler cmd_cb Message_handler st x = irxmpp_message_handler cmd_cb st x"
| "run_handler cmd_cb Presence_handler st x = irxmpp_presence_handler st x"

section \<open>Running the calls\<close>

lemma run_xdo [simp]: "run_state (xdo c) x = ((), xcall c x)"
  by (simp add: xdo_def)

lemma run_stanza_new [simp]:
  "run_state xmpp_stanza_new x = (x_next x, xcall (Stanza_new (x_next x)) (x\<lparr>x_next := x_next x + 1\<rparr>))"
  by (simp add: xmpp_stanza_new_def)

lemma xcall_simps [simp]:
  "x_calls (xcall c x) = x_calls x @ [c]" "x_next (xcall c x) = x_next x"
  "trusted_jid (xcall c x) = trusted_jid x" "passwd_file (xcall c x) = passwd_file x"
  "host (xcall c x) = host x" "port (xcall c x) = port x" "conn (xcall c x) = conn x"
  "ctx (xcall c x) = ctx x" "thrd_conn_mtx (xcall c x) = thrd_conn_mtx x" "do_reconnect (xcall c x) = do_reconnect x"
  by (simp_all add: xcall_def)

section \<open>What libstrophe asks of its callers\<close>

text \<open>
  A stanza may be used while its maker has not released it, or while it is the child of one that
  may be used.
\<close>

inductive live :: "nat set \<Rightarrow> (nat \<times> nat) set \<Rightarrow> nat \<Rightarrow> bool" for own E where
  own: "h \<in> own \<Longrightarrow> live own E h"
| child: "live own E p \<Longrightarrow> (p, h) \<in> E \<Longrightarrow> live own E h"

fun uses :: "xcall \<Rightarrow> nat list" where
  "uses (Set_name h _) = [h]"
| "uses (Set_type h _) = [h]"
| "uses (Set_id h _) = [h]"
| "uses (Set_ns h _) = [h]"
| "uses (Set_attribute h _ _) = [h]"
| "uses (Set_text h _) = [h]"
| "uses (Add_child p h) = [p, h]"
| "uses (Release h) = [h]"
| "uses (Send h) = [h]"
| "uses _ = []"

text \<open>
  The calls, from a state in which the stanzas \<open>own\<close> were made and not released and \<open>E\<close> are the
  edges between parents and children: in the end everything has been released.
\<close>

fun obeys :: "nat set \<Rightarrow> (nat \<times> nat) set \<Rightarrow> xcall list \<Rightarrow> bool" where
  "obeys own E [] \<longleftrightarrow> own = {}"
| "obeys own E (Stanza_new h # cs) \<longleftrightarrow> h \<notin> own \<and> obeys (insert h own) E cs"
| "obeys own E (Release h # cs) \<longleftrightarrow> h \<in> own \<and> obeys (own - {h}) E cs"
| "obeys own E (Add_child p h # cs) \<longleftrightarrow> live own E p \<and> live own E h \<and> obeys own (insert (p, h) E) cs"
| "obeys own E (c # cs) \<longleftrightarrow> (\<forall>h \<in> set (uses c). live own E h) \<and> obeys own E cs"

lemma live_mono: "live own E h \<Longrightarrow> E \<subseteq> E' \<Longrightarrow> live own E' h"
  by (induction rule: live.induct) (auto intro: live.intros)

lemma obeys_mono: "obeys own E cs \<Longrightarrow> E \<subseteq> E' \<Longrightarrow> obeys own E' cs"
proof (induction own E cs arbitrary: E' rule: obeys.induct)
  case (4 own E p h cs)
  have "obeys own (insert (p, h) E') cs"
    by (rule "4.IH") (use "4.prems" in auto)
  with "4.prems" show ?case by (simp add: live_mono [of own E _ E'])
qed (auto intro: live_mono)

lemma obeys_append: "obeys own E cs \<Longrightarrow> obeys {} {} ds \<Longrightarrow> obeys own E (cs @ ds)"
  by (induction own E cs rule: obeys.induct) (auto intro: obeys_mono)

text \<open>What a run of the messenger adds to the calls obeys.\<close>

definition well_behaved :: "irxmpp \<Rightarrow> irxmpp \<Rightarrow> bool" where
  "well_behaved x x' \<longleftrightarrow> (\<exists>cs. x_calls x' = x_calls x @ cs \<and> obeys {} {} cs)"

lemma well_behaved_refl [simp]: "well_behaved x x"
  by (simp add: well_behaved_def)

lemma well_behaved_trans: "well_behaved x y \<Longrightarrow> well_behaved y z \<Longrightarrow> well_behaved x z"
  by (auto simp: well_behaved_def intro: obeys_append)

lemma live_by_parent: "h \<in> own \<or> (\<exists>p \<in> own. (p, h) \<in> E) \<Longrightarrow> live own E h"
  by (auto intro: live.intros)

lemma with_first_child_behaves:
  assumes "with_first_child st f x = Inr (r, x')" "\<And>ns. well_behaved x (snd (run_state (f ns) x))"
  shows "well_behaved x x'"
  using assms(1) assms(2) [of "the (si_first_ns st)"] by (auto simp: with_first_child_def split: option.splits)

lemma sendmsg_behaves: "well_behaved x (snd (run_state (irxmpp_sendmsg to msg) x))"
  by (simp add: well_behaved_def irxmpp_sendmsg_def live_by_parent)

lemma version_behaves: "irxmpp_version_handler st x = Inr (r, x') \<Longrightarrow> well_behaved x x'"
  unfolding irxmpp_version_handler_def
  by (erule with_first_child_behaves)
    (simp add: well_behaved_def irxmpp_default_iq_def live_by_parent split: option.split)

lemma last_behaves: "irxmpp_last_handler st x = Inr (r, x') \<Longrightarrow> well_behaved x x'"
  unfolding irxmpp_last_handler_def
  by (erule with_first_child_behaves)
    (simp add: well_behaved_def irxmpp_default_iq_def live_by_parent split: option.split)

lemma time_behaves: "irxmpp_time_handler st x = Inr (r, x') \<Longrightarrow> well_behaved x x'"
  unfolding irxmpp_time_handler_def
  by (erule with_first_child_behaves)
    (simp add: well_behaved_def irxmpp_default_iq_def live_by_parent split: option.split)

lemma ping_behaves: "well_behaved x (snd (run_state (irxmpp_ping_handler st) x))"
  by (simp add: well_behaved_def irxmpp_ping_handler_def live_by_parent)

lemma conn_behaves: "irxmpp_conn_handler c err serr x = Inr x' \<Longrightarrow> well_behaved x x'"
  by (auto simp: well_behaved_def irxmpp_conn_handler_def live_by_parent split: if_splits option.splits)

lemma trusted_behaves: "irxmpp_sendmsg_trusted msg x = Inr x' \<Longrightarrow> well_behaved x x'"
  using sendmsg_behaves by (auto simp: irxmpp_sendmsg_trusted_def split: option.splits)

section \<open>What is sent\<close>

datatype xml = Elem string "(string \<times> string) list" "xml list" | Text string

fun attr_of :: "nat \<Rightarrow> xcall \<Rightarrow> (string \<times> string) list" where
  "attr_of h (Set_type k t) = (if k = h then [(''type'', t)] else [])"
| "attr_of h (Set_id k (Some i)) = (if k = h then [(''id'', i)] else [])"
| "attr_of h (Set_ns k n) = (if k = h then [(''xmlns'', n)] else [])"
| "attr_of h (Set_attribute k a v) = (if k = h then [(a, v)] else [])"
| "attr_of h _ = []"

fun name_of :: "nat \<Rightarrow> xcall \<Rightarrow> string" where
  "name_of h (Set_name k n) = (if k = h then n else [])"
| "name_of h _ = []"

fun text_of :: "nat \<Rightarrow> xcall \<Rightarrow> string option" where
  "text_of h (Set_text k t) = (if k = h then Some t else None)"
| "text_of h _ = None"

fun children_of :: "nat \<Rightarrow> xcall \<Rightarrow> nat list" where
  "children_of h (Add_child p c) = (if p = h then [c] else [])"
| "children_of h _ = []"

text \<open>The stanza that the calls describe, to the depth \<open>k\<close>; the program's stanzas have four levels.\<close>

primrec render :: "nat \<Rightarrow> xcall list \<Rightarrow> nat \<Rightarrow> xml" where
  "render 0 cs h = Text []"
| "render (Suc k) cs h =
     (case List.map_filter (text_of h) cs of
        t # _ \<Rightarrow> Text t
      | [] \<Rightarrow> Elem (concat (map (name_of h) cs)) (concat (map (attr_of h) cs))
               (map (render k cs) (concat (map (children_of h) cs))))"

fun sent_from :: "xcall list \<Rightarrow> xcall list \<Rightarrow> xml list" where
  "sent_from past [] = []"
| "sent_from past (c # cs) =
     (case c of Send h \<Rightarrow> [render 4 past h] | _ \<Rightarrow> []) @ sent_from (past @ [c]) cs"

definition outbox :: "irxmpp \<Rightarrow> xml list" where
  "outbox x = sent_from [] (x_calls x)"

text \<open>The numbers of stanzas are used in order.\<close>

definition numbered :: "irxmpp \<Rightarrow> bool" where
  "numbered x \<longleftrightarrow> (\<forall>c \<in> set (x_calls x). \<forall>h \<in> set (uses c). h < x_next x)"

lemma uses_touch:
  "\<not> h \<in> set (uses c) \<Longrightarrow> attr_of h c = [] \<and> name_of h c = [] \<and> text_of h c = None \<and> children_of h c = []"
  by (cases "(h, c)" rule: attr_of.cases) auto

lemma map_filter_Nil: "(\<And>c. c \<in> set cs \<Longrightarrow> f c = None) \<Longrightarrow> List.map_filter f cs = []"
  by (induction cs) (simp_all add: List.map_filter_simps)

lemma map_filter_append: "List.map_filter f (cs @ ds) = List.map_filter f cs @ List.map_filter f ds"
  by (induction cs) (auto simp: List.map_filter_simps split: option.split)

text \<open>What was done to older stanzas does not show in newer ones.\<close>

lemma render_newer:
  assumes "\<And>c h. c \<in> set past \<Longrightarrow> h \<in> set (uses c) \<Longrightarrow> h < n"
    and "\<And>c h. c \<in> set cs \<Longrightarrow> h \<in> set (uses c) \<Longrightarrow> n \<le> h" and "n \<le> h"
  shows "render k (past @ cs) h = render k cs h"
  using assms(3)
proof (induction k arbitrary: h)
  case 0
  show ?case by simp
next
  case (Suc k)
  have old: "attr_of h c = []" "name_of h c = []" "text_of h c = None" "children_of h c = []" if "c \<in> set past" for c
    using uses_touch [of h c] assms(1) [OF that] Suc.prems by force+
  have nil: "List.map_filter (text_of h) past = []" "concat (map (name_of h) past) = []"
      "concat (map (attr_of h) past) = []" "concat (map (children_of h) past) = []"
    using old by (auto intro: map_filter_Nil)
  have kids: "n \<le> d" if "d \<in> set (children_of h c)" "c \<in> set cs" for c d
    using that assms(2) [of c d] by (cases c) (auto split: if_splits)
  have "map (render k (past @ cs)) (concat (map (children_of h) cs)) =
      map (render k cs) (concat (map (children_of h) cs))"
    using kids by (intro map_cong refl Suc.IH) auto
  then show ?case by (simp only: render.simps map_filter_append nil map_append concat_append append_Nil)
qed

lemma sent_from_append: "sent_from past (cs @ ds) = sent_from past cs @ sent_from (past @ cs) ds"
  by (induction cs arbitrary: past) simp_all

lemma sent_from_newer:
  assumes "\<And>c h. c \<in> set past \<Longrightarrow> h \<in> set (uses c) \<Longrightarrow> h < n"
    and "\<And>c h. c \<in> set (pre @ cs) \<Longrightarrow> h \<in> set (uses c) \<Longrightarrow> n \<le> h"
  shows "sent_from (past @ pre) cs = sent_from pre cs"
  using assms(2)
proof (induction cs arbitrary: pre)
  case Nil
  show ?case by simp
next
  case (Cons c cs)
  have "render 4 (past @ pre) h = render 4 pre h" if "c = Send h" for h
    using that Cons.prems [of c h] Cons.prems by (intro render_newer [OF assms(1)]) auto
  moreover have "sent_from (past @ (pre @ [c])) cs = sent_from (pre @ [c]) cs"
    using Cons.prems by (intro Cons.IH) auto
  ultimately show ?case by (simp split: xcall.split)
qed

text \<open>The next calls, by numbers from \<open>x_next\<close> on, send what they describe on their own.\<close>

lemma outbox_newer:
  assumes "numbered x" "x_calls x' = x_calls x @ cs"
    and "\<And>c h. c \<in> set cs \<Longrightarrow> h \<in> set (uses c) \<Longrightarrow> x_next x \<le> h"
  shows "outbox x' = outbox x @ sent_from [] cs"
proof -
  have "sent_from (x_calls x @ []) cs = sent_from [] cs"
    using assms(1,3) by (intro sent_from_newer [of _ "x_next x"]) (auto simp: numbered_def)
  then show ?thesis using assms(2) by (simp add: outbox_def sent_from_append)
qed

end
