(* ===== verification/Irxmpp_Props.thy ===== *)
theory Irxmpp_Props
  imports Irxmpp_Stanza
begin

text \<open>
  The properties of the messenger's handlers: every stanza is used as libstrophe asks and nothing
  leaks, who is answered and with what, and the queries.

  The interface \<open>messenger\<close> is what the handlers and the daemon rely on: a text that is sent becomes one
  message to the peer.
\<close>

section \<open>The interface of a messenger\<close>

definition chat :: "string \<Rightarrow> string \<Rightarrow> xml" where
  "chat to msg = Elem ''message'' [(''type'', ''chat''), (''to'', to)] [Elem ''body'' [] [Text msg]]"

text \<open>An operation that succeeds, keeps the state valid, and sends exactly these texts to the peer.\<close>

definition says :: "('x \<Rightarrow> bool) \<Rightarrow> ('x \<Rightarrow> xml list) \<Rightarrow> ('x \<Rightarrow> string) \<Rightarrow> ('x \<Rightarrow> 'x c_result) \<Rightarrow> string list \<Rightarrow> bool" where
  "says valid box peer f ms \<longleftrightarrow>
     (\<forall>x. valid x \<longrightarrow> (\<exists>x'. f x = Inr x' \<and> valid x' \<and> peer x' = peer x \<and>
        box x' = box x @ map (chat (peer x)) ms))"

lemma saysE:
  assumes "says valid box peer f ms" "valid x"
  obtains x' where "f x = Inr x'" "valid x'" "peer x' = peer x" "box x' = box x @ map (chat (peer x)) ms"
  using assms by (auto simp: says_def)

locale messenger =
  fixes valid :: "'x \<Rightarrow> bool"
    and box :: "'x \<Rightarrow> xml list"
    and peer :: "'x \<Rightarrow> string"
    and send :: "string \<Rightarrow> 'x \<Rightarrow> 'x c_result"
  assumes send_ok: "valid x \<Longrightarrow>
      \<exists>x'. send m x = Inr x' \<and> valid x' \<and> peer x' = peer x \<and> box x' = box x @ [chat (peer x) m]"
begin

lemma send_says: "says valid box peer (send m) [m]"
  using send_ok by (simp add: says_def)

lemma says_nothing: "says valid box peer Inr []"
  by (simp add: says_def)

lemma says_then:
  assumes "says valid box peer f ms" "says valid box peer g ns"
  shows "says valid box peer (\<lambda>x. sbind (f x) g) (ms @ ns)"
  unfolding says_def
proof (intro allI impI)
  fix x
  assume "valid x"
  with assms(1) obtain x1 where x1: "f x = Inr x1" "valid x1" "peer x1 = peer x"
      "box x1 = box x @ map (chat (peer x)) ms" by (rule saysE)
  from assms(2) x1(2) obtain x2 where "g x1 = Inr x2" "valid x2" "peer x2 = peer x1"
      "box x2 = box x1 @ map (chat (peer x1)) ns" by (rule saysE)
  with x1 show "\<exists>x'. sbind (f x) g = Inr x' \<and> valid x' \<and> peer x' = peer x \<and>
      box x' = box x @ map (chat (peer x)) (ms @ ns)" by simp
qed

lemma send_all: "says valid box peer (sfoldM send ms) ms"
proof (induction ms)
  case Nil
  then show ?case by (simp add: says_def)
next
  case (Cons m ms)
  from says_then [OF send_says [of m] Cons] show ?case by simp
qed

end

section \<open>The program's messenger\<close>

text \<open>
  The state while the daemon runs: a trusted address is set, stanzas are numbered in order, and
  all calls so far obeyed libstrophe's rules and left nothing unreleased.
\<close>

definition xmpp_ok :: "irxmpp \<Rightarrow> bool" where
  "xmpp_ok x \<longleftrightarrow> trusted_jid x \<noteq> None \<and> numbered x \<and> obeys {} {} (x_calls x)"

definition trusted_peer :: "irxmpp \<Rightarrow> string" where
  "trusted_peer x = the (trusted_jid x)"

lemma numberedI:
  assumes "numbered x" "x_calls x' = x_calls x @ cs" "x_next x \<le> x_next x'"
    and "\<And>c h. c \<in> set cs \<Longrightarrow> h \<in> set (uses c) \<Longrightarrow> h < x_next x'"
  shows "numbered x'"
  using assms by (force simp: numbered_def)

text \<open>What a run leaves behind, if its calls use the next numbers.\<close>

lemma run_ok:
  assumes "xmpp_ok x" "x_calls x' = x_calls x @ cs" "trusted_jid x' = trusted_jid x" "well_behaved x x'"
    and "x_next x \<le> x_next x'" "list_all (\<lambda>c. list_all (\<lambda>h. x_next x \<le> h \<and> h < x_next x') (uses c)) cs"
  shows "xmpp_ok x' \<and> outbox x' = outbox x @ sent_from [] cs"
proof -
  have in_range: "x_next x \<le> h" "h < x_next x'" if "c \<in> set cs" "h \<in> set (uses c)" for c h
    using assms(6) that by (auto simp: list_all_iff)
  have "obeys {} {} cs" using assms(2,4) by (auto simp: well_behaved_def)
  then have "obeys {} {} (x_calls x')"
    using assms(1,2) by (auto simp: xmpp_ok_def intro: obeys_append)
  moreover have "numbered x'"
    using assms(1) by (intro numberedI [OF _ assms(2,5)]) (auto simp: xmpp_ok_def intro: in_range)
  moreover have "outbox x' = outbox x @ sent_from [] cs"
    using assms(1) by (intro outbox_newer [OF _ assms(2)]) (auto simp: xmpp_ok_def intro: in_range)
  ultimately show ?thesis using assms(1,3) by (simp add: xmpp_ok_def)
qed

lemma render_4: "render 4 cs h = render (Suc (Suc (Suc (Suc 0)))) cs h"
  by (simp add: numeral_eq_Suc)

lemma sendmsg_ok:
  assumes "xmpp_ok x" and x'_def: "x' = snd (run_state (irxmpp_sendmsg to msg) x)"
  shows "xmpp_ok x' \<and> outbox x' = outbox x @ [chat to msg] \<and> trusted_jid x' = trusted_jid x"
proof -
  have t: "trusted_jid x' = trusted_jid x" by (simp add: x'_def irxmpp_sendmsg_def)
  obtain cs where cs: "x_calls x' = x_calls x @ cs" "sent_from [] cs = [chat to msg]"
      "list_all (\<lambda>c. list_all (\<lambda>h. x_next x \<le> h \<and> h < x_next x') (uses c)) cs" "x_next x \<le> x_next x'"
    by (simp add: x'_def irxmpp_sendmsg_def render_4 chat_def List.map_filter_simps)
  with run_ok [OF assms(1) cs(1) t] sendmsg_behaves [of x to msg] t show ?thesis by (simp add: x'_def)
qed

interpretation xm: messenger xmpp_ok outbox trusted_peer irxmpp_sendmsg_trusted
proof (unfold_locales, goal_cases)
  case (1 x m)
  then obtain t where t: "trusted_jid x = Some t" by (auto simp: xmpp_ok_def)
  with sendmsg_ok [OF 1 refl, of t m] show ?case by (simp add: irxmpp_sendmsg_trusted_def trusted_peer_def)
qed

section \<open>Commands\<close>

definition starts :: "string \<Rightarrow> string \<Rightarrow> bool" where
  "starts w msg \<longleftrightarrow> prefix w (map c_tolower msg)"

lemma strcasestr_starts:
  "map c_tolower w = w \<Longrightarrow> strcasestr msg w = Some 0 \<longleftrightarrow> starts w msg"
  by (simp add: strcasestr_at_start starts_def)

lemma lower_words [simp]:
  "map c_tolower ''status'' = ''status''" "map c_tolower ''config'' = ''config''"
  "map c_tolower ''ping'' = ''ping''" "map c_tolower ''version'' = ''version''"
  "map c_tolower ''help'' = ''help''"
  by (simp_all add: c_tolower_def Let_def)

lemma parse_command_eq:
  "parse_command msg =
     (if starts ''status'' msg then IRXMPP_STATUS else if starts ''config'' msg then IRXMPP_CONFIG else ERR_UNKWNCMD)"
  by (simp add: parse_command_def irxmpp_cb_args_def strcasestr_starts del: list.map)

definition commands_text :: string where
  "commands_text =
     [NL] @ ''status - print alarm information'' @ [NL] @ ''config - print configuration values'' @ [NL]"

lemma grow_enough: "need < sz \<Longrightarrow> grow need sz = sz"
  by (subst grow.simps) simp

definition entry_len :: "irxmpp_cb \<Rightarrow> nat" where
  "entry_len e = length (fst e) + length (snd (snd e)) + 4"

definition entry_text :: "irxmpp_cb \<Rightarrow> string" where
  "entry_text e = fst e @ '' - '' @ snd (snd e) @ [NL]"

lemma length_entry_text [simp]: "length (entry_text e) = entry_len e"
  by (simp add: entry_text_def entry_len_def)

lemma sprint_loop_short:
  assumes "\<forall>e \<in> set cbs. entry_len e + 1 < BUFSIZ" "length ret < BUFSIZ"
  shows "sprint_loop cbs BUFSIZ ret =
    (if length ret + sum_list (map entry_len cbs) < BUFSIZ
     then Inr (ret @ concat (map entry_text cbs)) else Inl OutOfBounds)"
  using assms
proof (induction cbs arbitrary: ret)
  case Nil
  then show ?case by simp
next
  case (Cons e cbs)
  obtain c i d where e: "e = (c, i, d)" by (cases e)
  have len: "length c + length d + 5 < BUFSIZ" using Cons.prems(1) by (simp add: e entry_len_def)
  then have mins: "min (length c) BUFSIZ = length c" "min (length d) BUFSIZ = length d"
      "grow (length c + length d + 1 + 4) BUFSIZ = BUFSIZ"
    by (simp_all add: grow_enough)
  have step: "sprint_loop (e # cbs) BUFSIZ ret =
      (if length (ret @ entry_text e) < BUFSIZ then sprint_loop cbs BUFSIZ (ret @ entry_text e) else Inl OutOfBounds)"
    by (simp only: e sprint_loop.simps mins Let_def take_all order_refl) (simp add: entry_text_def)
  show ?case
  proof (cases "length (ret @ entry_text e) < BUFSIZ")
    case True
    then have "sprint_loop cbs BUFSIZ (ret @ entry_text e) =
        (if length (ret @ entry_text e) + sum_list (map entry_len cbs) < BUFSIZ
         then Inr ((ret @ entry_text e) @ concat (map entry_text cbs)) else Inl OutOfBounds)"
      using Cons.prems by (intro Cons.IH) simp_all
    then show ?thesis unfolding step using True by (simp add: add.assoc)
  next
    case False
    then show ?thesis unfolding step by simp
  qed
qed

lemma sprint_commands_eq: "sprint_commands irxmpp_cb_args = Inr commands_text"
proof -
  have "sprint_loop irxmpp_cb_args BUFSIZ [NL] =
      (if length [NL] + sum_list (map entry_len irxmpp_cb_args) < BUFSIZ
       then Inr ([NL] @ concat (map entry_text irxmpp_cb_args)) else Inl OutOfBounds)"
    by (rule sprint_loop_short) (simp_all add: irxmpp_cb_args_def entry_len_def)
  then show ?thesis
    by (simp add: sprint_commands_def irxmpp_cb_args_def entry_len_def entry_text_def commands_text_def)
qed

section \<open>Answers\<close>

text \<open>The texts of the answer to a message that is no command of the daemon.\<close>

definition reply_texts :: "string \<Rightarrow> string list" where
  "reply_texts msg =
     (if starts ''ping'' msg then [''PONG!'']
      else if starts ''version'' msg then [version_text]
      else if starts ''help'' msg then [help_text, commands_text]
      else [puzzled_text])"

definition command_texts :: "(int \<Rightarrow> string list) \<Rightarrow> string \<Rightarrow> string list" where
  "command_texts cmds msg =
     (if starts ''status'' msg then cmds IRXMPP_STATUS
      else if starts ''config'' msg then cmds IRXMPP_CONFIG
      else reply_texts msg)"

abbreviation xsays :: "(irxmpp \<Rightarrow> irxmpp c_result) \<Rightarrow> string list \<Rightarrow> bool" where
  "xsays \<equiv> says xmpp_ok outbox trusted_peer"

text \<open>A callback of the daemon that answers the command \<open>i\<close> by the texts \<open>cmds i\<close>.\<close>

definition cb_says :: "(int \<Rightarrow> irxmpp \<Rightarrow> irxmpp c_result) \<Rightarrow> (int \<Rightarrow> string list) \<Rightarrow> bool" where
  "cb_says cmd_cb cmds \<longleftrightarrow> (\<forall>i. xsays (cmd_cb i) (cmds i))"

lemma cb_says_nothing: "cb_says (\<lambda>i. Inr) (\<lambda>_. [])"
  by (simp add: cb_says_def xm.says_nothing)

lemma answer_says:
  assumes "cb_says cmd_cb cmds"
  shows "xsays (answer cmd_cb msg) (command_texts cmds msg)"
proof -
  have two: "xsays (\<lambda>x. sbind (irxmpp_sendmsg_trusted help_text x) (\<lambda>x. irxmpp_sendmsg_trusted commands_text x))
      [help_text, commands_text]"
    using xm.says_then [OF xm.send_says xm.send_says, of help_text commands_text] by simp
  have "answer cmd_cb msg =
     (if starts ''status'' msg then cmd_cb IRXMPP_STATUS
      else if starts ''config'' msg then cmd_cb IRXMPP_CONFIG
      else if starts ''ping'' msg then irxmpp_sendmsg_trusted ''PONG!''
      else if starts ''version'' msg then irxmpp_sendmsg_trusted version_text
      else if starts ''help'' msg then
        (\<lambda>x. sbind (irxmpp_sendmsg_trusted help_text x) (\<lambda>x. irxmpp_sendmsg_trusted commands_text x))
      else irxmpp_sendmsg_trusted puzzled_text)"
    by (rule ext) (simp add: answer_def parse_command_eq strcasestr_starts sprint_commands_eq del: list.map)
  then show ?thesis
    using assms two xm.send_says by (simp add: cb_says_def command_texts_def reply_texts_def del: sbind.simps)
qed

lemma Free_text_ok: "xmpp_ok x \<Longrightarrow> xmpp_ok (xcall Free_text x) \<and> outbox (xcall Free_text x) = outbox x"
  using run_ok [of x "xcall Free_text x" "[Free_text]"]
  by (simp add: well_behaved_def numeral_eq_Suc)

lemma strstr_prefix: "strstr from t \<noteq> Some 0 \<longleftrightarrow> \<not> prefix t from"
  by (simp add: strstr_at_start)

lemma message_answered_general:
  assumes "xmpp_ok x" "trusted_jid x = Some t" "si_attr st ''from'' = Some from" "prefix t from"
    and "si_body st = Some (Some msg)" "cb_says cmd_cb cmds"
  shows "\<exists>x'. irxmpp_message_handler cmd_cb st x = Inr (1, x') \<and> xmpp_ok x' \<and>
    outbox x' = outbox x @ map (chat t) (command_texts cmds msg)"
proof -
  from answer_says [OF assms(6)] assms(1) obtain x1 where x1: "answer cmd_cb msg x = Inr x1" "xmpp_ok x1"
      "outbox x1 = outbox x @ map (chat (trusted_peer x)) (command_texts cmds msg)" by (rule saysE)
  then show ?thesis
    using assms Free_text_ok [OF x1(2)]
    by (simp add: irxmpp_message_handler_def strstr_at_start trusted_peer_def)
qed

text \<open>C12: a message of a sender whose address starts with the trusted one is answered by exactly the texts
  that belong to its first word, in either case, each as one chat message to the trusted address;
  the handler stays installed, every stanza was used and released as libstrophe asks.\<close>

theorem message_answered:
  assumes "xmpp_ok x" "trusted_jid x = Some t" "si_attr st ''from'' = Some from" "prefix t from"
    and "si_body st = Some (Some msg)" "cb_says cmd_cb cmds"
  shows "\<exists>x'. irxmpp_message_handler cmd_cb st x = Inr (1, x') \<and> xmpp_ok x' \<and>
    outbox x' = outbox x @ map (chat t) (command_texts cmds msg)"
  by (rule message_answered_general [OF assms])

definition stanza_from :: "string \<Rightarrow> string \<Rightarrow> stanza_in" where
  "stanza_from from msg =
     \<lparr>si_attr = [''from'' \<mapsto> from], si_child = (\<lambda>n. n = ''body''), si_body = Some (Some msg), si_first_ns = Some None\<rparr>"

definition trusting :: "string \<Rightarrow> irxmpp" where
  "trusting t = irxmpp_set_trusted (Some t) (irxmpp_initialize irxmpp_static)"

lemma trusting_ok: "xmpp_ok (trusting t)" "trusted_jid (trusting t) = Some (take BUFSIZ t)" "outbox (trusting t) = []"
  by (simp_all add: xmpp_ok_def trusting_def irxmpp_set_trusted_def irxmpp_initialize_def irxmpp_static_def
      strndup_def numbered_def outbox_def)

lemma message_answered_witness:
  "\<exists>x'. irxmpp_message_handler (\<lambda>i. Inr) (stanza_from ''a@b.c/x'' ''PING'') (trusting ''a@b.c'') = Inr (1, x') \<and>
     outbox x' = [chat ''a@b.c'' ''PONG!'']"
proof -
  have "command_texts (\<lambda>_. []) ''PING'' = [''PONG!'']"
    by code_simp
  with message_answered [OF trusting_ok(1) trusting_ok(2), of "stanza_from ''a@b.c/x'' ''PING''" "''a@b.c/x''"
      "''a@b.c''" "''PING''" "\<lambda>i. Inr" "\<lambda>_. []"] cb_says_nothing trusting_ok(3)
  show ?thesis by (auto simp: stanza_from_def)
qed



text \<open>C14: the list of commands is written without overrunning its buffer exactly if it fits the first size
  of the buffer, for every table whose single entries are shorter than that: the buffer does not
  grow with the text, because the count of what is in it is never updated.\<close>

theorem command_list_fits_iff:
  assumes "list_all (\<lambda>e. entry_len e + 1 < BUFSIZ) cbs"
  shows "sprint_commands cbs =
    (if 1 + sum_list (map entry_len cbs) < BUFSIZ then Inr (NL # concat (map entry_text cbs)) else Inl OutOfBounds)"
  using sprint_loop_short [of cbs "[NL]"] assms by (simp add: sprint_commands_def list_all_iff)

lemma command_list_fits_iff_witness:
  "sprint_commands [(replicate 3000 (CHR ''a''), 0, []), (replicate 3000 (CHR ''b''), 1, []),
     (replicate 3000 (CHR ''c''), 2, [])] = Inl OutOfBounds"
  using command_list_fits_iff [of "[(replicate 3000 (CHR ''a''), 0, []), (replicate 3000 (CHR ''b''), 1, []),
     (replicate 3000 (CHR ''c''), 2, [])]"] by (simp add: entry_len_def)

section \<open>Queries\<close>

text \<open>The attributes of a reply.\<close>

definition reply_attrs :: "stanza_in \<Rightarrow> (string \<times> string) list" where
  "reply_attrs st =
     (''type'', ''result'') # (case si_id st of None \<Rightarrow> [] | Some i \<Rightarrow> [(''id'', i)]) @
     (case si_attr st ''from'' of None \<Rightarrow> [] | Some f \<Rightarrow> [(''to'', f)])"

definition ns_attr :: "string option \<Rightarrow> (string \<times> string) list" where
  "ns_attr ns = (case ns of None \<Rightarrow> [] | Some n \<Rightarrow> [(''xmlns'', n)])"

definition version_reply :: "stanza_in \<Rightarrow> string option \<Rightarrow> xml" where
  "version_reply st ns =
     Elem ''iq'' (reply_attrs st)
       [Elem ''query'' (ns_attr ns)
          [Elem ''name'' [] [Text APPNAME], Elem ''author'' [] [Text AUTHOR]]]"

definition last_reply :: "stanza_in \<Rightarrow> string option \<Rightarrow> xml" where
  "last_reply st ns =
     Elem ''iq'' (reply_attrs st)
       [Elem ''time'' (ns_attr ns) [Elem ''tzo'' [] [Text []], Elem ''utc'' [] [Text []]]]"

definition time_reply :: "stanza_in \<Rightarrow> string option \<Rightarrow> xml" where
  "time_reply st ns =
     Elem ''iq'' (reply_attrs st @ [(''seconds'', ''0'')]) [Elem ''time'' (ns_attr ns) []]"

lemmas reply_defs = version_reply_def last_reply_def time_reply_def reply_attrs_def ns_attr_def

lemmas reply_simps = irxmpp_default_iq_def with_first_child_def render_4 List.map_filter_simps reply_defs

text \<open>One reply, on the next numbers.\<close>

definition replies :: "(int \<times> irxmpp) c_result \<Rightarrow> irxmpp \<Rightarrow> xml \<Rightarrow> bool" where
  "replies res x r \<longleftrightarrow> (\<exists>x'. res = Inr (1, x') \<and> xmpp_ok x' \<and> outbox x' = outbox x @ [r])"

lemma repliesI:
  assumes "xmpp_ok x" "si_first_ns st = Some ns"
    and "well_behaved x (snd (run_state (f ns) x))" "fst (run_state (f ns) x) = 1"
    and "let x' = snd (run_state (f ns) x) in trusted_jid x' = trusted_jid x \<and> x_next x \<le> x_next x' \<and>
          (\<exists>cs. x_calls x' = x_calls x @ cs \<and> sent_from [] cs = [r] \<and>
             list_all (\<lambda>c. list_all (\<lambda>h. x_next x \<le> h \<and> h < x_next x') (uses c)) cs)"
  shows "replies (with_first_child st f x) x r"
proof -
  let ?x = "snd (run_state (f ns) x)"
  obtain cs where cs: "x_calls ?x = x_calls x @ cs" "sent_from [] cs = [r]"
      "list_all (\<lambda>c. list_all (\<lambda>h. x_next x \<le> h \<and> h < x_next ?x) (uses c)) cs"
      "trusted_jid ?x = trusted_jid x" "x_next x \<le> x_next ?x"
    using assms(5) by (auto simp: Let_def)
  have "with_first_child st f x = Inr (1, ?x)"
    using assms(2,4) by (simp add: with_first_child_def prod_eq_iff)
  with run_ok [OF assms(1) cs(1,4) assms(3) cs(5,3)] cs(2) show ?thesis by (simp add: replies_def)
qed

lemma version_replies:
  assumes "xmpp_ok x" "si_first_ns st = Some ns"
  shows "replies (irxmpp_version_handler st x) x (version_reply st ns)"
  unfolding irxmpp_version_handler_def
  by (rule repliesI [OF assms];
      cases ns; cases "si_attr st ''from''"; cases "si_id st";
      simp add: reply_simps well_behaved_def live_by_parent)

lemma last_replies:
  assumes "xmpp_ok x" "si_first_ns st = Some ns"
  shows "replies (irxmpp_last_handler st x) x (last_reply st ns)"
  unfolding irxmpp_last_handler_def
  by (rule repliesI [OF assms];
      cases ns; cases "si_attr st ''from''"; cases "si_id st";
      simp add: reply_simps well_behaved_def live_by_parent)

lemma time_replies:
  assumes "xmpp_ok x" "si_first_ns st = Some ns"
  shows "replies (irxmpp_time_handler st x) x (time_reply st ns)"
  unfolding irxmpp_time_handler_def
  by (rule repliesI [OF assms];
      cases ns; cases "si_attr st ''from''"; cases "si_id st";
      simp add: reply_simps well_behaved_def live_by_parent)



section \<open>Safety of all handlers\<close>

lemma ping_ok:
  assumes "xmpp_ok x"
  shows "fst (run_state (irxmpp_ping_handler st) x) = 1 \<and> xmpp_ok (snd (run_state (irxmpp_ping_handler st) x))"
proof (cases "si_child st ''ping'' \<and> si_attr st ''type'' \<noteq> None \<and> si_id st \<noteq> None")
  case False
  with assms show ?thesis by (auto simp: irxmpp_ping_handler_def)
next
  case True
  let ?x = "snd (run_state (irxmpp_ping_handler st) x)"
  let ?n = "x_next x"
  have "x_calls ?x = x_calls x @ [Stanza_new ?n, Set_name ?n ''iq'', Set_type ?n ''result'', Set_id ?n (si_id st),
      Send ?n, Release ?n]" "x_next ?x = Suc ?n" "trusted_jid ?x = trusted_jid x"
    "fst (run_state (irxmpp_ping_handler st) x) = 1"
    using True by (simp_all add: irxmpp_ping_handler_def)
  with run_ok [OF assms this(1,3) ping_behaves] show ?thesis by simp
qed

lemma message_ok:
  assumes "xmpp_ok x" "cb_says cmd_cb cmds"
  shows "\<exists>x'. irxmpp_message_handler cmd_cb st x = Inr (1, x') \<and> xmpp_ok x'"
proof -
  obtain t where t: "trusted_jid x = Some t" using assms(1) by (auto simp: xmpp_ok_def)
  show ?thesis
  proof (cases "\<exists>from msg. si_attr st ''from'' = Some from \<and> prefix t from \<and> si_body st = Some (Some msg)")
    case True
    then show ?thesis using message_answered_general [OF assms(1) t _ _ _ assms(2)] by blast
  next
    case False
    then have "irxmpp_message_handler cmd_cb st x = Inr (1, x)"
      using t by (auto simp: irxmpp_message_handler_def strstr_at_start split: option.split)
    with assms(1) show ?thesis by simp
  qed
qed

lemma presence_ok:
  assumes "xmpp_ok x"
  shows "\<exists>x'. irxmpp_presence_handler st x = Inr (1, x') \<and> xmpp_ok x'"
proof -
  obtain t where t: "trusted_jid x = Some t" using assms by (auto simp: xmpp_ok_def)
  obtain x' where "irxmpp_sendmsg_trusted ''Welcome trusted user.'' x = Inr x'" "xmpp_ok x'"
    using xm.send_ok [OF assms] by blast
  with t assms show ?thesis by (auto simp: irxmpp_presence_handler_def split: option.split)
qed



text \<open>when the connection is up, all six handlers are installed, the presence is sent and the waiting
  thread is signalled, once each; when it is lost without an error of the stream, as libstrophe reports
  it for a closed connection, the null pointer is accessed.\<close>

theorem connection_events:
  assumes "xmpp_ok x"
  shows "(\<exists>x'. irxmpp_conn_handler True err serr x = Inr x' \<and> xmpp_ok x' \<and>
      outbox x' = outbox x @ [Elem ''presence'' [] []] \<and>
      (\<exists>cs. x_calls x' = x_calls x @ cs \<and> length (filter (\<lambda>c. c = Cond_signal) cs) = 1 \<and>
        (\<forall>h. \<exists>ns. length (filter (\<lambda>c. \<exists>e. c = Handler_add h ns e) cs) = 1))) \<and>
    (irxmpp_conn_handler False err serr x = Inl NullDeref \<longleftrightarrow> serr = None)"
proof -
  obtain x' where x': "irxmpp_conn_handler True err serr x = Inr x'" by (simp add: irxmpp_conn_handler_def)
  let ?n = "x_next x"
  let ?cs = "[Handler_add Ping_handler (Some ''urn:xmpp:ping'') ''iq'',
      Handler_add Version_handler (Some ''jabber:iq:version'') ''iq'',
      Handler_add Last_handler (Some ''jabber:iq:last'') ''iq'',
      Handler_add Time_handler (Some ''urn:xmpp:time'') ''iq'',
      Handler_add Message_handler None ''message'', Handler_add Presence_handler None ''presence'',
      Stanza_new ?n, Set_name ?n ''presence'', Send ?n, Release ?n, Cond_signal]"
  have cs: "x_calls x' = x_calls x @ ?cs" "x_next x' = Suc ?n" "trusted_jid x' = trusted_jid x"
    using x' by (auto simp: irxmpp_conn_handler_def)
  have "xmpp_ok x' \<and> outbox x' = outbox x @ sent_from [] ?cs"
    using run_ok [OF assms cs(1,3) conn_behaves [OF x']] cs(2) by simp
  then have "xmpp_ok x'" "outbox x' = outbox x @ sent_from [] ?cs" by blast+
  moreover have "sent_from [] ?cs = [Elem ''presence'' [] []]"
    by (simp add: render_4 List.map_filter_simps)
  moreover have "\<exists>ns. length (filter (\<lambda>c. \<exists>e. c = Handler_add h ns e) ?cs) = 1" for h
  proof (cases h)
    case Ping_handler
    then show ?thesis by (intro exI [of _ "Some ''urn:xmpp:ping''"]) simp
  next
    case Version_handler
    then show ?thesis by (intro exI [of _ "Some ''jabber:iq:version''"]) simp
  next
    case Last_handler
    then show ?thesis by (intro exI [of _ "Some ''jabber:iq:last''"]) simp
  next
    case Time_handler
    then show ?thesis by (intro exI [of _ "Some ''urn:xmpp:time''"]) simp
  qed (intro exI [of _ None], simp)+
  moreover have "length (filter (\<lambda>c. c = Cond_signal) ?cs) = 1" by simp
  moreover have "irxmpp_conn_handler False err serr x = Inl NullDeref \<longleftrightarrow> serr = None"
    by (auto simp: irxmpp_conn_handler_def split: option.split)
  ultimately show ?thesis
    using x' cs(1) by (intro conjI exI [of _ x'] exI [of _ ?cs] allI) (simp_all only:)
qed

lemma connection_events_witness:
  "irxmpp_conn_handler False 0 None (trusting ''a@b.c'') = Inl NullDeref \<and>
   (\<exists>x'. irxmpp_conn_handler True 0 None (trusting ''a@b.c'') = Inr x' \<and> outbox x' = [Elem ''presence'' [] []])"
  using connection_events [OF trusting_ok(1), of 0 None "''a@b.c''"] trusting_ok(3) [of "''a@b.c''"] by auto

end
