(* ===== verification/Irxmpp_Thread.thy ===== *)
theory Irxmpp_Thread
  imports Irxmpp
begin

text \<open>
  The messenger of the alarm daemon (\<open>iralarm/irxmpp.c\<close>), third part: its thread, which connects
  again and again, and how the main thread starts it, waits for the connection, and stops it.

  \<^item> One thread at a time: \<open>irxmpp_startThread\<close>, the rounds of \<open>__irxmpp_connect\<close>, \<open>irxmpp_stopThread\<close>.
  \<^item> Both threads, statement by statement: \<open>xt_step\<close> is one statement of the main thread or of the
    connecting thread, an event of the connection, or, where it is allowed, a spurious wakeup of the
    condition variable.  Memory is sequentially consistent.
  \<^item> Facts: what a start needs; when the wait for the connection misses it; that a stop is obeyed, and when
    it is not; who holds the mutex.
\<close>

section \<open>Start\<close>

text \<open>
  The argument is the result of \<open>pthread_create\<close>.  The mutex is locked first, and on no path
  unlocked.
\<close>

definition irxmpp_startThread :: "int \<Rightarrow> irxmpp \<Rightarrow> (int \<times> irxmpp) c_result" where
  "irxmpp_startThread create_ret x =
     (if thrd_conn_mtx x then Inl Hangs
      else
        let x = x\<lparr>thrd_conn_mtx := True\<rparr>
        in if host x = None then Inr (ERR_NHOST, x)
           else case conn x of
                  None \<Rightarrow> Inl NullDeref
                | Some c \<Rightarrow>
                    if c_jid c = None then Inr (ERR_NJID, x)
                    else if c_pass c = None then Inr (ERR_NPASS, x)
                    else if trusted_jid x = None then Inr (ERR_NTRUSTED, x)
                    else Inr (create_ret, x))"

section \<open>The rounds of the connecting thread\<close>

text \<open>
  A round of the loop: the result of \<open>xmpp_connect_client\<close>, and whether \<open>do_reconnect\<close> was cleared by the
  time it is tested.
\<close>

definition connect_round :: "int \<Rightarrow> irxmpp \<Rightarrow> irxmpp" where
  "connect_round ret x =
     (let x = xcall (Connect_client (host x) (port x)) (xcall (Logged ''irxmpp: connecting..'') x)
      in if ret \<noteq> 0 then xcall (Sleep 2) x
         else xcall (Sleep 2) (xcall Disconnect (xcall (Logged ''irxmpp: connection lost'') (xcall Run x))))"

text \<open>The loop over its rounds, as far as they are known; \<open>True\<close> if it has ended.\<close>

fun connect_rounds :: "(int \<times> bool) list \<Rightarrow> irxmpp \<Rightarrow> bool \<times> irxmpp" where
  "connect_rounds [] x = (False, x)"
| "connect_rounds ((ret, stopped) # rs) x =
     (let x = connect_round ret x
      in if stopped
         then (True, xcall (Logged ''irxmpp: going down'') (x\<lparr>do_reconnect := False, thrd_conn_mtx := False\<rparr>))
         else connect_rounds rs x)"

definition irxmpp_connect :: "(int \<times> bool) list \<Rightarrow> irxmpp \<Rightarrow> bool \<times> irxmpp" where
  "irxmpp_connect rs x = connect_rounds rs (x\<lparr>do_reconnect := True\<rparr>)"

text \<open>\<open>irxmpp_stopThread\<close> around the join, at which the thread has ended.\<close>

definition stop_before_join :: "irxmpp \<Rightarrow> irxmpp" where
  "stop_before_join x = xcall Stop (x\<lparr>do_reconnect := False\<rparr>)"

definition stop_after_join :: "irxmpp \<Rightarrow> irxmpp" where
  "stop_after_join x = xcall Lib_shutdown (xcall Ctx_free (xcall Conn_release x))"

section \<open>Both threads\<close>

datatype mpc =
    M_lock     \<comment> \<open>\<open>irxmpp_startThread\<close>\<close>
  | M_check
  | M_create
  | M_failed
  | M_wait     \<comment> \<open>about to call \<open>pthread_cond_wait\<close>\<close>
  | M_waiting  \<comment> \<open>inside of it, the mutex released\<close>
  | M_relock
  | M_run      \<comment> \<open>the daemon's main loop\<close>
  | M_clear    \<comment> \<open>\<open>irxmpp_stopThread\<close>\<close>
  | M_stop
  | M_join
  | M_end

datatype tpc =
    T_none
  | T_set      \<comment> \<open>\<open>do_reconnect = 1\<close>\<close>
  | T_connect
  | T_run      \<comment> \<open>inside of \<open>xmpp_run\<close>\<close>
  | T_disconnect
  | T_sleep
  | T_test     \<comment> \<open>\<open>while (do_reconnect != 0)\<close>\<close>
  | T_unlock
  | T_done

datatype xowner = Main | Connector

record xt =
  m_pc :: mpc
  t_pc :: tpc
  reconnect :: bool
  xmtx :: "xowner option"
  ups :: nat    \<comment> \<open>the events of an established connection\<close>
  heard :: nat  \<comment> \<open>those of them that woke the main thread\<close>
  late :: nat   \<comment> \<open>attempts to connect after the stop\<close>

definition xt_start :: xt where
  "xt_start =
     \<lparr>m_pc = M_lock, t_pc = T_none, reconnect = False, xmtx = None, ups = 0, heard = 0, late = 0\<rparr>"

text \<open>The main thread's next statement; \<open>ok\<close> says whether everything is set that a start needs.\<close>

fun main_at :: "bool \<Rightarrow> mpc \<Rightarrow> xt \<Rightarrow> xt option" where
  "main_at ok M_lock s = (if xmtx s = None then Some (s\<lparr>xmtx := Some Main, m_pc := M_check\<rparr>) else None)"
| "main_at ok M_check s = Some (s\<lparr>m_pc := if ok then M_create else M_failed\<rparr>)"
| "main_at ok M_create s = Some (s\<lparr>t_pc := T_set, m_pc := M_wait\<rparr>)"
| "main_at ok M_failed s = None"
| "main_at ok M_wait s = Some (s\<lparr>xmtx := None, m_pc := M_waiting\<rparr>)"
| "main_at ok M_waiting s = None"
| "main_at ok M_relock s = (if xmtx s = None then Some (s\<lparr>xmtx := Some Main, m_pc := M_run\<rparr>) else None)"
| "main_at ok M_run s = Some (s\<lparr>m_pc := M_clear\<rparr>)"
| "main_at ok M_clear s = Some (s\<lparr>reconnect := False, m_pc := M_stop\<rparr>)"
| "main_at ok M_stop s = Some (s\<lparr>m_pc := M_join\<rparr>)"
| "main_at ok M_join s = (if t_pc s = T_done then Some (s\<lparr>m_pc := M_end\<rparr>) else None)"
| "main_at ok M_end s = None"

text \<open>The connecting thread's; \<open>fine\<close> is the answer of \<open>xmpp_connect_client\<close>.\<close>

fun conn_at :: "bool \<Rightarrow> tpc \<Rightarrow> xt \<Rightarrow> xt option" where
  "conn_at fine T_none s = None"
| "conn_at fine T_set s = Some (s\<lparr>reconnect := True, t_pc := T_connect\<rparr>)"
| "conn_at fine T_connect s =
     Some (s\<lparr>t_pc := if fine then T_run else T_sleep,
             late := if m_pc s \<in> {M_stop, M_join, M_end} then Suc (late s) else late s\<rparr>)"
| "conn_at fine T_run s = Some (s\<lparr>t_pc := T_disconnect\<rparr>)"
| "conn_at fine T_disconnect s = Some (s\<lparr>t_pc := T_sleep\<rparr>)"
| "conn_at fine T_sleep s = Some (s\<lparr>t_pc := T_test\<rparr>)"
| "conn_at fine T_test s = Some (s\<lparr>t_pc := if reconnect s then T_connect else T_unlock\<rparr>)"
| "conn_at fine T_unlock s = Some (s\<lparr>xmtx := None, t_pc := T_done\<rparr>)"
| "conn_at fine T_done s = None"

text \<open>The handler of an established connection, inside of \<open>xmpp_run\<close>: it signals.\<close>

definition conn_up :: "xt \<Rightarrow> xt" where
  "conn_up s =
     (if m_pc s = M_waiting then s\<lparr>ups := Suc (ups s), heard := Suc (heard s), m_pc := M_relock\<rparr>
      else s\<lparr>ups := Suc (ups s)\<rparr>)"

text \<open>One step; the argument says whether spurious wakeups are allowed.\<close>

inductive xt_step :: "bool \<Rightarrow> xt \<Rightarrow> xt \<Rightarrow> bool" for sp where
  main: "main_at ok (m_pc s) s = Some s' \<Longrightarrow> xt_step sp s s'"
| conn: "conn_at fine (t_pc s) s = Some s' \<Longrightarrow> xt_step sp s s'"
| up: "t_pc s = T_run \<Longrightarrow> xt_step sp s (conn_up s)"
| spurious: "sp \<Longrightarrow> m_pc s = M_waiting \<Longrightarrow> xt_step sp s (s\<lparr>m_pc := M_relock\<rparr>)"

abbreviation xt_reach :: "bool \<Rightarrow> xt \<Rightarrow> xt \<Rightarrow> bool" where
  "xt_reach sp \<equiv> (xt_step sp)\<^sup>*\<^sup>*"

lemma xt_invariant:
  assumes "xt_reach sp s s'" "I s" "\<And>s s'. I s \<Longrightarrow> xt_step sp s s' \<Longrightarrow> I s'"
  shows "I s'"
  using assms by (induction rule: rtranclp_induct) auto

lemma main_moves: "main_at ok (m_pc s) s = Some s' \<Longrightarrow> xt_reach sp s s'"
  by (auto intro: xt_step.main)

lemma conn_moves: "conn_at fine (t_pc s) s = Some s' \<Longrightarrow> xt_reach sp s s'"
  by (auto intro: xt_step.conn)

section \<open>The invariants\<close>

text \<open>Who holds the mutex, and that nobody waits twice; for any wakeups.\<close>

definition mtx_inv :: "xt \<Rightarrow> bool" where
  "mtx_inv s \<longleftrightarrow> xmtx s \<noteq> Some Connector \<and>
     (m_pc s \<in> {M_check, M_create, M_failed} \<longrightarrow> xmtx s = Some Main) \<and>
     (m_pc s \<in> {M_lock, M_check, M_create, M_failed} \<longleftrightarrow> t_pc s = T_none)"

lemma mtx_inv_step:
  assumes "mtx_inv s" "xt_step sp s s'"
  shows "mtx_inv s'"
  using assms(2)
proof (cases rule: xt_step.cases)
  case (main ok)
  with assms(1) show ?thesis by (cases "m_pc s") (auto simp: mtx_inv_def split: if_splits)
next
  case (conn fine)
  with assms(1) show ?thesis by (cases "t_pc s") (auto simp: mtx_inv_def split: if_splits)
next
  case up
  with assms(1) show ?thesis by (auto simp: mtx_inv_def conn_up_def)
next
  case spurious
  with assms(1) show ?thesis by (auto simp: mtx_inv_def)
qed

text \<open>Without spurious wakeups.\<close>

abbreviation past_wait :: "mpc \<Rightarrow> bool" where
  "past_wait p \<equiv> p \<in> {M_relock, M_run, M_clear, M_stop, M_join, M_end}"

abbreviation past_clear :: "mpc \<Rightarrow> bool" where
  "past_clear p \<equiv> p \<in> {M_stop, M_join, M_end}"

definition stop_inv :: "xt \<Rightarrow> bool" where
  "stop_inv s \<longleftrightarrow> heard s \<le> ups s \<and> heard s = (if past_wait (m_pc s) then 1 else 0) \<and>
     (past_wait (m_pc s) \<longrightarrow> t_pc s \<notin> {T_none, T_set}) \<and>
     (past_clear (m_pc s) \<longrightarrow> \<not> reconnect s) \<and>
     (\<not> past_clear (m_pc s) \<longrightarrow> late s = 0) \<and>
     (t_pc s = T_connect \<longrightarrow> late s = 0) \<and> late s \<le> 1 \<and>
     (t_pc s \<in> {T_connect, T_run, T_disconnect, T_sleep, T_test} \<and> \<not> past_clear (m_pc s) \<longrightarrow> reconnect s) \<and>
     (t_pc s \<in> {T_unlock, T_done} \<longrightarrow> past_clear (m_pc s))"

text \<open>The statements of each thread, in the form of an equation for the next state.\<close>

lemma stop_inv_main:
  assumes "stop_inv s" "mtx_inv s" "main_at ok p s = Some s'" "p = m_pc s"
  shows "stop_inv s'"
proof (cases p)
  case M_lock
  with assms show ?thesis by (auto simp: stop_inv_def mtx_inv_def split: if_splits)
next
  case M_check
  with assms show ?thesis by (cases ok) (auto simp: stop_inv_def mtx_inv_def)
next
  case M_create
  with assms show ?thesis by (auto simp: stop_inv_def mtx_inv_def)
next
  case M_wait
  then have "s' = s\<lparr>xmtx := None, m_pc := M_waiting\<rparr>" "m_pc s = M_wait" using assms(3,4) by simp_all
  with assms(1) show ?thesis by (simp add: stop_inv_def)
next
  case M_relock
  then have "s' = s\<lparr>xmtx := Some Main, m_pc := M_run\<rparr>" "m_pc s = M_relock"
    using assms(3,4) by (simp_all split: if_splits)
  with assms(1) show ?thesis by (simp add: stop_inv_def)
next
  case M_run
  then have "s' = s\<lparr>m_pc := M_clear\<rparr>" "m_pc s = M_run" using assms(3,4) by simp_all
  with assms(1) show ?thesis by (simp add: stop_inv_def)
next
  case M_clear
  then have "s' = s\<lparr>reconnect := False, m_pc := M_stop\<rparr>" "m_pc s = M_clear" using assms(3,4) by simp_all
  with assms(1) show ?thesis by (simp add: stop_inv_def)
next
  case M_stop
  then have "s' = s\<lparr>m_pc := M_join\<rparr>" "m_pc s = M_stop" using assms(3,4) by simp_all
  with assms(1) show ?thesis by (simp add: stop_inv_def)
next
  case M_join
  then have "s' = s\<lparr>m_pc := M_end\<rparr>" "m_pc s = M_join" using assms(3,4) by (simp_all split: if_splits)
  with assms(1) show ?thesis by (simp add: stop_inv_def)
qed (use assms in simp_all)

lemma stop_inv_conn:
  assumes "stop_inv s" "conn_at fine q s = Some s'" "q = t_pc s"
  shows "stop_inv s'"
proof (cases q)
  case T_set
  then have "s' = s\<lparr>reconnect := True, t_pc := T_connect\<rparr>" "t_pc s = T_set" using assms(2,3) by simp_all
  with assms(1) show ?thesis by (cases "m_pc s") (simp_all add: stop_inv_def)
next
  case T_connect
  then have "s' = s\<lparr>t_pc := if fine then T_run else T_sleep,
      late := if m_pc s \<in> {M_stop, M_join, M_end} then Suc (late s) else late s\<rparr>" "t_pc s = T_connect"
    using assms(2,3) by simp_all
  with assms(1) show ?thesis by (cases "m_pc s"; cases fine) (simp_all add: stop_inv_def)
next
  case T_run
  then have "s' = s\<lparr>t_pc := T_disconnect\<rparr>" "t_pc s = T_run" using assms(2,3) by simp_all
  with assms(1) show ?thesis by (simp add: stop_inv_def)
next
  case T_disconnect
  then have "s' = s\<lparr>t_pc := T_sleep\<rparr>" "t_pc s = T_disconnect" using assms(2,3) by simp_all
  with assms(1) show ?thesis by (simp add: stop_inv_def)
next
  case T_sleep
  then have "s' = s\<lparr>t_pc := T_test\<rparr>" "t_pc s = T_sleep" using assms(2,3) by simp_all
  with assms(1) show ?thesis by (simp add: stop_inv_def)
next
  case T_test
  then have "s' = s\<lparr>t_pc := if reconnect s then T_connect else T_unlock\<rparr>" "t_pc s = T_test"
    using assms(2,3) by simp_all
  with assms(1) show ?thesis by (cases "m_pc s"; cases "reconnect s") (simp_all add: stop_inv_def)
next
  case T_unlock
  then have "s' = s\<lparr>xmtx := None, t_pc := T_done\<rparr>" "t_pc s = T_unlock" using assms(2,3) by simp_all
  with assms(1) show ?thesis by (cases "m_pc s") (simp_all add: stop_inv_def)
qed (use assms in simp_all)

lemma stop_inv_step:
  assumes "stop_inv s" "mtx_inv s" "xt_step False s s'"
  shows "stop_inv s'"
  using assms(3)
proof (cases rule: xt_step.cases)
  case (main ok)
  with assms(1,2) show ?thesis by (rule_tac stop_inv_main) simp_all
next
  case (conn fine)
  with assms(1) show ?thesis by (rule_tac stop_inv_conn) simp_all
next
  case up
  with assms(1) show ?thesis by (cases "m_pc s = M_waiting") (simp_all add: stop_inv_def conn_up_def)
qed simp

lemma reach_mtx_inv: "xt_reach sp xt_start s \<Longrightarrow> mtx_inv s"
  by (erule xt_invariant) (simp add: mtx_inv_def xt_start_def, rule mtx_inv_step)

lemma reach_stop_inv:
  assumes "xt_reach False xt_start s"
  shows "stop_inv s"
proof -
  from assms have "stop_inv s \<and> mtx_inv s"
    by (rule xt_invariant)
      (simp add: stop_inv_def mtx_inv_def xt_start_def, auto intro: stop_inv_step mtx_inv_step)
  then show ?thesis ..
qed

section \<open>The properties\<close>

text \<open>a start succeeds exactly if the host, the login with its password and the trusted address are set
  and the thread could be created; but in every case the mutex stays locked, so that another start
  never returns.\<close>

theorem start_outcome:
  assumes "\<not> thrd_conn_mtx x" "conn x = Some c"
  shows "\<exists>r x'. irxmpp_startThread ret x = Inr (r, x') \<and>
    (r = ERR_OK \<longleftrightarrow> host x \<noteq> None \<and> c_jid c \<noteq> None \<and> c_pass c \<noteq> None \<and> trusted_jid x \<noteq> None \<and> ret = 0) \<and>
    irxmpp_startThread ret' x' = Inl Hangs"
  using assms by (auto simp: irxmpp_startThread_def Let_def)

lemma start_outcome_witness:
  "\<exists>r x'. irxmpp_startThread 0 (irxmpp_initialize irxmpp_static) = Inr (r, x') \<and> r \<noteq> ERR_OK \<and>
     irxmpp_startThread 0 x' = Inl Hangs"
proof -
  let ?x = "irxmpp_initialize irxmpp_static"
  have "\<not> thrd_conn_mtx ?x" "conn ?x = Some \<lparr>c_jid = None, c_pass = None\<rparr>"
    by (simp_all add: irxmpp_initialize_def irxmpp_static_def xcall_def)
  from start_outcome [OF this, of 0 0] show ?thesis by auto
qed

text \<open>The connecting thread on its own.\<close>

primrec conn_run :: "bool list \<Rightarrow> xt \<Rightarrow> xt" where
  "conn_run [] s = s"
| "conn_run (fine # fs) s = (case conn_at fine (t_pc s) s of None \<Rightarrow> s | Some s' \<Rightarrow> conn_run fs s')"

fun rank :: "tpc \<Rightarrow> nat" where
  "rank T_done = 0"
| "rank T_unlock = 1"
| "rank T_test = 2"
| "rank T_sleep = 3"
| "rank T_disconnect = 4"
| "rank T_run = 5"
| "rank _ = 6"

lemma conn_at_rank:
  assumes "\<not> reconnect s" "t_pc s \<notin> {T_none, T_set, T_done}"
  shows "\<exists>s'. conn_at fine (t_pc s) s = Some s' \<and> rank (t_pc s') < rank (t_pc s) \<and> \<not> reconnect s' \<and>
    t_pc s' \<notin> {T_none, T_set} \<and> m_pc s' = m_pc s"
  using assms by (cases "t_pc s") auto

lemma conn_run_ends:
  assumes "\<not> reconnect s" "t_pc s \<notin> {T_none, T_set}" "rank (t_pc s) \<le> length fs"
  shows "t_pc (conn_run fs s) = T_done \<and> m_pc (conn_run fs s) = m_pc s"
  using assms
proof (induction fs arbitrary: s)
  case Nil
  then show ?case by (cases "t_pc s") auto
next
  case (Cons f fs)
  show ?case
  proof (cases "t_pc s = T_done")
    case True
    then show ?thesis by simp
  next
    case False
    with Cons.prems conn_at_rank [of s f] obtain s' where "conn_at f (t_pc s) s = Some s'"
      "rank (t_pc s') < rank (t_pc s)" "\<not> reconnect s'" "t_pc s' \<notin> {T_none, T_set}" "m_pc s' = m_pc s"
      by auto
    with Cons show ?thesis by simp
  qed
qed


lemma up_moves: "t_pc s = T_run \<Longrightarrow> s' = conn_up s \<Longrightarrow> xt_reach sp s s'"
  by (auto intro: xt_step.up)

text \<open>A successful start, up to the creation of the thread.\<close>

lemma started_reach:
  "xt_reach sp xt_start
     \<lparr>m_pc = M_wait, t_pc = T_set, reconnect = False, xmtx = Some Main, ups = 0, heard = 0, late = 0\<rparr>"
proof -
  let ?S = "\<lambda>m t x. \<lparr>m_pc = m, t_pc = t, reconnect = False, xmtx = x, ups = 0, heard = 0, late = 0\<rparr>"
  have "xt_reach sp xt_start (?S M_check T_none (Some Main))"
    by (rule main_moves [where ok = True]) (simp add: xt_start_def)
  also have "xt_reach sp (?S M_check T_none (Some Main)) (?S M_create T_none (Some Main))"
    by (rule main_moves [where ok = True]) simp
  also have "xt_reach sp (?S M_create T_none (Some Main)) (?S M_wait T_set (Some Main))"
    by (rule main_moves [where ok = True]) simp
  finally show ?thesis .
qed

text \<open>A start whose connection comes up after the main thread began to wait.\<close>

lemma connected_reach:
  "xt_reach sp xt_start
     \<lparr>m_pc = M_join, t_pc = T_run, reconnect = False, xmtx = Some Main, ups = 1, heard = 1, late = 0\<rparr>"
proof -
  let ?S = "\<lambda>m t r x u h. \<lparr>m_pc = m, t_pc = t, reconnect = r, xmtx = x, ups = u, heard = h, late = 0\<rparr>"
  have "xt_reach sp xt_start (?S M_wait T_set False (Some Main) 0 0)"
    by (rule started_reach)
  also have "xt_reach sp (?S M_wait T_set False (Some Main) 0 0) (?S M_waiting T_set False None 0 0)"
    by (rule main_moves [where ok = True]) simp
  also have "xt_reach sp (?S M_waiting T_set False None 0 0) (?S M_waiting T_connect True None 0 0)"
    by (rule conn_moves [where fine = True]) simp
  also have "xt_reach sp (?S M_waiting T_connect True None 0 0) (?S M_waiting T_run True None 0 0)"
    by (rule conn_moves [where fine = True]) simp
  also have "xt_reach sp (?S M_waiting T_run True None 0 0) (?S M_relock T_run True None 1 1)"
    by (rule up_moves) (simp_all add: conn_up_def)
  also have "xt_reach sp (?S M_relock T_run True None 1 1) (?S M_run T_run True (Some Main) 1 1)"
    by (rule main_moves [where ok = True]) simp
  also have "xt_reach sp (?S M_run T_run True (Some Main) 1 1) (?S M_clear T_run True (Some Main) 1 1)"
    by (rule main_moves [where ok = True]) simp
  also have "xt_reach sp (?S M_clear T_run True (Some Main) 1 1) (?S M_stop T_run False (Some Main) 1 1)"
    by (rule main_moves [where ok = True]) simp
  also have "xt_reach sp (?S M_stop T_run False (Some Main) 1 1) (?S M_join T_run False (Some Main) 1 1)"
    by (rule main_moves [where ok = True]) simp
  finally show ?thesis .
qed


text \<open>a connection that is up before the main thread has begun to wait for it is missed: there is such an
  execution, and in all that follows the main thread keeps waiting until the connection is lost
  and established again.\<close>

theorem early_connection_is_missed:
  "\<exists>s. xt_reach False xt_start s \<and> ups s = 1 \<and> m_pc s = M_waiting \<and> t_pc s = T_run \<and>
     (\<forall>s'. xt_reach False s s' \<longrightarrow> ups s' = 1 \<longrightarrow> m_pc s' = M_waiting)"
proof -
  let ?S = "\<lambda>m t r x u. \<lparr>m_pc = m, t_pc = t, reconnect = r, xmtx = x, ups = u, heard = 0, late = 0\<rparr>"
  let ?s = "?S M_waiting T_run True None 1"
  have "xt_reach False xt_start (?S M_wait T_set False (Some Main) 0)"
    by (rule started_reach)
  also have "xt_reach False (?S M_wait T_set False (Some Main) 0) (?S M_wait T_connect True (Some Main) 0)"
    by (rule conn_moves [where fine = True]) simp
  also have "xt_reach False (?S M_wait T_connect True (Some Main) 0) (?S M_wait T_run True (Some Main) 0)"
    by (rule conn_moves [where fine = True]) simp
  also have "xt_reach False (?S M_wait T_run True (Some Main) 0) (?S M_wait T_run True (Some Main) 1)"
    by (rule up_moves) (simp_all add: conn_up_def)
  also have "xt_reach False (?S M_wait T_run True (Some Main) 1) ?s"
    by (rule main_moves [where ok = True]) simp
  finally have r: "xt_reach False xt_start ?s" .
  have "1 \<le> ups s' \<and> (ups s' = 1 \<longrightarrow> m_pc s' = M_waiting)" if "xt_reach False ?s s'" for s'
    using that
  proof (rule xt_invariant)
    fix s s'
    assume i: "1 \<le> ups s \<and> (ups s = 1 \<longrightarrow> m_pc s = M_waiting)" and "xt_step False s s'"
    from this(2) show "1 \<le> ups s' \<and> (ups s' = 1 \<longrightarrow> m_pc s' = M_waiting)"
    proof (cases rule: xt_step.cases)
      case (main ok)
      with i show ?thesis by (cases "m_pc s") (auto split: if_splits)
    next
      case (conn fine)
      with i show ?thesis by (cases "t_pc s") (auto split: if_splits)
    qed (use i in \<open>auto simp: conn_up_def\<close>)
  qed simp
  with r show ?thesis by (intro exI [of _ ?s]) simp
qed

lemma early_connection_is_missed_witness:
  "\<exists>s. xt_reach False xt_start s \<and> ups s = 1 \<and> m_pc s = M_waiting"
  using early_connection_is_missed by blast

text \<open>after a spurious wakeup the stop can come before the first statement of the connecting thread, which
  then sets the flag again: from there on the thread connects for ever, and the join never returns.\<close>

theorem stop_can_be_overwritten:
  "\<exists>s. xt_reach True xt_start s \<and> m_pc s = M_join \<and>
     (\<forall>s'. xt_reach True s s' \<longrightarrow> m_pc s' = M_join \<and> t_pc s' \<noteq> T_done)"
proof -
  let ?S = "\<lambda>m t r x. \<lparr>m_pc = m, t_pc = t, reconnect = r, xmtx = x, ups = 0, heard = 0, late = 0\<rparr>"
  let ?s = "?S M_join T_connect True (Some Main)"
  have "xt_reach True xt_start (?S M_wait T_set False (Some Main))"
    by (rule started_reach)
  also have "xt_reach True (?S M_wait T_set False (Some Main)) (?S M_waiting T_set False None)"
    by (rule main_moves [where ok = True]) simp
  also have "xt_step True (?S M_waiting T_set False None) (?S M_relock T_set False None)"
    using xt_step.spurious [of True "?S M_waiting T_set False None"] by simp
  also have "xt_reach True (?S M_relock T_set False None) (?S M_run T_set False (Some Main))"
    by (rule main_moves [where ok = True]) simp
  also have "xt_reach True (?S M_run T_set False (Some Main)) (?S M_clear T_set False (Some Main))"
    by (rule main_moves [where ok = True]) simp
  also have "xt_reach True (?S M_clear T_set False (Some Main)) (?S M_stop T_set False (Some Main))"
    by (rule main_moves [where ok = True]) simp
  also have "xt_reach True (?S M_stop T_set False (Some Main)) (?S M_join T_set False (Some Main))"
    by (rule main_moves [where ok = True]) simp
  also have "xt_reach True (?S M_join T_set False (Some Main)) ?s"
    by (rule conn_moves [where fine = True]) simp
  finally have r: "xt_reach True xt_start ?s" .
  let ?I = "\<lambda>s. m_pc s = M_join \<and> reconnect s \<and> t_pc s \<in> {T_connect, T_run, T_disconnect, T_sleep, T_test}"
  have keep: "?I s'" if "xt_reach True ?s s'" for s'
    using that
  proof (rule xt_invariant)
    fix s s'
    assume i: "?I s" and "xt_step True s s'"
    from this(2) show "?I s'"
    proof (cases rule: xt_step.cases)
      case (main ok)
      with i show ?thesis by auto
    next
      case (conn fine)
      with i show ?thesis by (cases "t_pc s") auto
    qed (use i in \<open>auto simp: conn_up_def\<close>)
  qed simp
  have "m_pc s' = M_join \<and> t_pc s' \<noteq> T_done" if "xt_reach True ?s s'" for s'
    using keep [OF that] by auto
  with r show ?thesis by (intro exI [of _ ?s]) simp
qed

lemma stop_can_be_overwritten_witness:
  "\<exists>s. xt_reach True xt_start s \<and> m_pc s = M_join \<and> t_pc s \<noteq> T_done"
  using stop_can_be_overwritten by blast

text \<open>The thread unlocks a mutex at its end that it never holds.\<close>

lemma unlock_without_lock: "xt_reach sp xt_start s \<Longrightarrow> t_pc s = T_unlock \<Longrightarrow> xmtx s \<noteq> Some Connector"
  using reach_mtx_inv by (simp add: mtx_inv_def)

text \<open>What the rounds ask of libstrophe: nothing is known to end them but the stop.\<close>

lemma connect_rounds_end: "fst (connect_rounds rs x) \<longleftrightarrow> (\<exists>r \<in> set rs. snd r)"
  by (induction rs x rule: connect_rounds.induct) (simp_all add: Let_def)

end
