(* ===== verification/Iralarmd_Main_Props.thy ===== *)
theory Iralarmd_Main_Props
  imports Iralarmd_Main
begin

unbundle bit_operations_syntax

text \<open>
  The properties of the alarm daemon's \<open>main\<close>: the check of the messenger's options, the user it runs
  as, what is in place when the main loop is entered, and the messenger's commands.
\<close>

section \<open>The options\<close>

definition given :: "char \<Rightarrow> (char \<times> string) list \<Rightarrow> bool" where
  "given c os \<longleftrightarrow> c \<in> fst ` set os"

lemma given_simps [simp]:
  "\<not> given c []" "given c ((d, a) # os) \<longleftrightarrow> c = d \<or> given c os"
  by (auto simp: given_def)

definition flags :: "bool \<Rightarrow> bool \<Rightarrow> bool \<Rightarrow> bool \<Rightarrow> u8" where
  "flags a b c d = (if a then 1 else 0) OR (if b then 2 else 0) OR (if c then 4 else 0) OR (if d then 8 else 0)"

lemma flags_or:
  "flags a b c d OR 1 = flags True b c d" "flags a b c d OR 2 = flags a True c d"
  "flags a b c d OR 4 = flags a b True d" "flags a b c d OR 8 = flags a b c True"
  by (cases a; cases b; cases c; cases d; simp add: flags_def)+

lemma flags_fine: "xmpp_opts_fine (flags a b c d) \<longleftrightarrow> d \<or> (a \<longleftrightarrow> b) \<and> (b \<longleftrightarrow> c)"
  by (cases a; cases b; cases c; cases d; simp add: flags_def xmpp_opts_fine_def)

text \<open>What the options set, in the build with the messenger.\<close>

definition opts_inv :: "bool \<Rightarrow> bool \<Rightarrow> bool \<Rightarrow> bool \<Rightarrow> m_opts \<Rightarrow> bool" where
  "opts_inv a b c d m \<longleftrightarrow> xmpp_opts m = flags a b c d \<and>
     (trusted_jid (mx m) \<noteq> None \<longleftrightarrow> a) \<and>
     (\<exists>k. conn (mx m) = Some k \<and> (c_jid k \<noteq> None \<longleftrightarrow> b) \<and> c_pass k = None) \<and>
     (host (mx m) \<noteq> None \<longleftrightarrow> c) \<and> \<not> thrd_conn_mtx (mx m) \<and> numbered (mx m) \<and> obeys {} {} (x_calls (mx m))"

lemma opts_inv_static: "opts_inv False False False False (opts_static True)"
  by (simp add: opts_inv_def opts_static_def flags_def irxmpp_initialize_def irxmpp_static_def numbered_def)

lemma xmpp_option_inv:
  assumes "opts_inv a b c d m"
  shows "opts_inv (a \<or> o' = CHR ''x'') (b \<or> o' = CHR ''j'') (c \<or> o' = CHR ''s'') (d \<or> o' = CHR ''p'')
    (xmpp_option o' arg m)"
proof -
  obtain k where k: "conn (mx m) = Some k" using assms by (auto simp: opts_inv_def)
  note defs = opts_inv_def opt_flag_def numbered_def k
  consider "o' = CHR ''x''" | "o' = CHR ''j''" | "o' = CHR ''s''" | "o' = CHR ''p''"
    | "o' \<notin> {CHR ''x'', CHR ''j'', CHR ''s'', CHR ''p''}" by blast
  then show ?thesis
  proof cases
    case 1
    with assms show ?thesis by (simp add: defs xmpp_option_def irxmpp_set_trusted_def flags_or)
  next
    case 2
    with assms show ?thesis by (simp add: defs xmpp_option_def irxmpp_set_jid_def flags_or)
  next
    case 3
    with assms show ?thesis by (simp add: defs xmpp_option_def irxmpp_set_host_def flags_or)
  next
    case 4
    with assms show ?thesis
      by (simp add: defs xmpp_option_def take_port_def irxmpp_set_port_def flags_or split: prod.split)
  next
    case 5
    with assms show ?thesis by (simp add: defs xmpp_option_def irxmpp_set_passwdfile_def)
  qed
qed

lemma main_options_inv:
  assumes "opts_inv a b c d m" "main_options True os m = Some m'"
  shows "opts_inv (a \<or> given (CHR ''x'') os) (b \<or> given (CHR ''j'') os) (c \<or> given (CHR ''s'') os)
    (d \<or> given (CHR ''p'') os) m'"
  using assms
proof (induction os arbitrary: a b c d m)
  case Nil
  then show ?case by simp
next
  case (Cons e os)
  obtain o' arg where e: "e = (o', arg)" by fastforce
  consider (u) "o' = CHR ''u''" | (x) "o' \<noteq> CHR ''u''" "o' \<in> {CHR ''x'', CHR ''j'', CHR ''s'', CHR ''p'', CHR ''w''}"
    using Cons.prems(2) by (auto simp: e split: if_splits)
  then show ?case
  proof cases
    case u
    have "opts_inv a b c d (m\<lparr>chuser := Some arg\<rparr>)" using Cons.prems(1) by (simp add: opts_inv_def)
    from Cons.IH [OF this] Cons.prems(2) u show ?thesis by (simp add: e)
  next
    case x
    have "main_options True os (xmpp_option o' arg m) = Some m'" using Cons.prems(2) x by (simp add: e)
    from Cons.IH [OF xmpp_option_inv [OF Cons.prems(1)] this] show ?thesis
      by (simp add: e disj_assoc eq_commute [of o'])
  qed
qed

text \<open>C16: the check that the messenger's options are complete lets a command line pass exactly if a port was
  given, or if the trusted address, the login and the server were given all or none.\<close>

theorem option_check_iff:
  assumes "main_options True os (opts_static True) = Some m"
  shows "xmpp_opts_fine (xmpp_opts m) \<longleftrightarrow>
    given (CHR ''p'') os \<or>
    (given (CHR ''x'') os \<longleftrightarrow> given (CHR ''j'') os) \<and> (given (CHR ''j'') os \<longleftrightarrow> given (CHR ''s'') os)"
  using main_options_inv [OF opts_inv_static assms] by (simp add: opts_inv_def flags_fine)

lemma option_check_iff_witness:
  "\<exists>m. main_options True [(CHR ''x'', ''a@b.c''), (CHR ''p'', ''5222'')] (opts_static True) = Some m \<and>
     xmpp_opts_fine (xmpp_opts m)"
proof -
  obtain m where m: "main_options True [(CHR ''x'', ''a@b.c''), (CHR ''p'', ''5222'')] (opts_static True) = Some m"
    by simp
  from option_check_iff [OF this] m show ?thesis by simp
qed

section \<open>The user\<close>


section \<open>Entering the main loop\<close>

text \<open>The pins keep what the interrupt handler's registration needs.\<close>

definition keeps_isr :: "(irpio \<Rightarrow> irpio c_result) \<Rightarrow> bool" where
  "keeps_isr f \<longleftrightarrow>
     (\<forall>io io'. f io = Inr io' \<longrightarrow> sysFds io' = sysFds io \<and> isrFunctions io' = isrFunctions io)"

lemma keeps_isr_bind: "keeps_isr f \<Longrightarrow> keeps_isr g \<Longrightarrow> keeps_isr (\<lambda>io. sbind (f io) g)"
  by (simp add: keeps_isr_def sbind_Inr_iff) metis

lemma keeps_isr_Inr: "keeps_isr Inr"
  by (simp add: keeps_isr_def)

lemma keeps_isr_fold:
  assumes "\<And>x. keeps_isr (f x)"
  shows "keeps_isr (sfoldM f xs)"
proof (induction xs)
  case Nil
  show ?case by (simp add: keeps_isr_def)
next
  case (Cons x xs)
  from keeps_isr_bind [OF assms Cons, of x] show ?case by (simp add: keeps_isr_def)
qed

text \<open>A value that is read does not change the state.\<close>

lemma keeps_isr_read: "(\<And>v. keeps_isr (g v)) \<Longrightarrow> keeps_isr (\<lambda>io. sbind (h io) (\<lambda>v. g v io))"
  by (simp add: keeps_isr_def sbind_Inr_iff) blast

lemma keeps_isr_if: "keeps_isr f \<Longrightarrow> keeps_isr g \<Longrightarrow> keeps_isr (\<lambda>io. if b io then f io else g io)"
  by (simp add: keeps_isr_def)

lemma keeps_isr_log: "keeps_isr f \<Longrightarrow> keeps_isr (\<lambda>io. f (log_io e io))"
  by (auto simp: keeps_isr_def log_io_def)

lemma keeps_isr_setvalue: "keeps_isr (irpio_setvalue p v)"
  using setvalue_keeps_isr by (simp add: keeps_isr_def)

lemma keeps_isr_wr: "keeps_isr (wr b r v)"
  by (cases b) (auto simp: keeps_isr_def wr_def log_io_def split: option.splits)

lemma keeps_isr_usleep: "keeps_isr (usleep us)"
  by (simp add: keeps_isr_def usleep_def log_io_def)

lemma keeps_isr_selftest: "keeps_isr irpio_selftest"
  unfolding irpio_selftest_def
proof (rule keeps_isr_fold)
  fix p
  have "keeps_isr (\<lambda>io. sbind (irpio_setvalue p (if pin_mode (pipi p) = PWM_OUTPUT then pwm_range io - 1 else 1)
      (log_io (Syslog (pin_name (pipi p))) io)) (\<lambda>st. sbind (usleep 10000 st) (irpio_setvalue p 0)))"
  proof -
    have 1: "keeps_isr (\<lambda>io. irpio_setvalue p (if pin_mode (pipi p) = PWM_OUTPUT then pwm_range io - 1 else 1)
        (log_io (Syslog (pin_name (pipi p))) io))"
      using keeps_isr_log [OF keeps_isr_setvalue] by (simp add: keeps_isr_def)
    show ?thesis by (rule keeps_isr_bind [OF 1 keeps_isr_bind [OF keeps_isr_usleep keeps_isr_setvalue]])
  qed
  then show "keeps_isr (\<lambda>st. if pin_enabled (pipi p) then
         sbind (irpio_setvalue p (if pin_mode (pipi p) = PWM_OUTPUT then pwm_range st - 1 else 1)
                  (log_io (Syslog (pin_name (pipi p))) st)) (\<lambda>st.
         sbind (usleep 10000 st) (irpio_setvalue p 0))
       else Inr st)" by (simp add: keeps_isr_def)
qed

lemma keeps_isr_wait: "keeps_isr (wait_not_busy env)"
  by (auto simp: keeps_isr_def wait_not_busy_def split: option.splits)

lemmas keeps_isr_basic = keeps_isr_wr keeps_isr_usleep keeps_isr_wait keeps_isr_Inr keeps_isr_setvalue

lemma keeps_isr_pwm: "keeps_isr (pwmSetClock env d)" "keeps_isr (pwmSetRange r)" "keeps_isr (pwmSetMode mode)"
  unfolding pwmSetClock_def pwmSetRange_def pwmSetMode_def Let_def
  by (intro keeps_isr_bind keeps_isr_read keeps_isr_basic | simp add: keeps_isr_basic)+

lemma keeps_isr_fsel: "keeps_isr (set_fsel f s c)"
  unfolding set_fsel_def by (intro keeps_isr_read keeps_isr_basic)

lemma keeps_isr_pinMode: "keeps_isr (pinMode env p mode)"
  unfolding pinMode_def
  by (intro keeps_isr_if keeps_isr_bind keeps_isr_read keeps_isr_basic keeps_isr_pwm keeps_isr_fsel)

lemma init_gpio_keeps_isr:
  "init_gpio env io = (r, io') \<Longrightarrow> sysFds io' = sysFds io \<and> isrFunctions io' = isrFunctions io"
  by (auto simp: init_gpio_def piBoardRev_def Let_def split: prod.splits if_splits option.splits)

lemma keeps_isr_init: "keeps_isr (irpio_init env)"
proof -
  have body: "keeps_isr (\<lambda>st. if pin_enabled (pipi p) then sbind (pinMode env (pin_pin (pipi p)) (pin_mode (pipi p)) st)
      (irpio_setvalue p 0) else Inr st)" for p
    by (intro keeps_isr_if keeps_isr_bind keeps_isr_pinMode keeps_isr_basic)
  have rest: "keeps_isr (\<lambda>st. sbind (pwmSetMode PWM_MODE_BAL st) (sfoldM (\<lambda>p st. if pin_enabled (pipi p)
      then sbind (pinMode env (pin_pin (pipi p)) (pin_mode (pipi p)) st) (irpio_setvalue p 0) else Inr st) all_pins))"
    by (intro keeps_isr_bind keeps_isr_pwm keeps_isr_fold body)
  show ?thesis unfolding keeps_isr_def
  proof (intro allI impI)
    fix io io'
    assume a: "irpio_init env io = Inr io'"
    obtain r io1 where g: "init_gpio env io = (r, io1)" by fastforce
    from init_gpio_keeps_isr [OF g] a rest show "sysFds io' = sysFds io \<and> isrFunctions io' = isrFunctions io"
      by (auto simp: irpio_init_def g keeps_isr_def log_io_def split: if_splits)
  qed
qed

lemma irpio_selftest_ready: "total_on io_ready irpio_selftest"
  unfolding irpio_selftest_def
proof (rule total_on_fold, rule total_onI)
  fix p io
  assume io: "io_ready io"
  let ?v = "if pin_mode (pipi p) = PWM_OUTPUT then pwm_range io - 1 else 1"
  obtain io1 where 1: "irpio_setvalue p ?v (log_io (Syslog (pin_name (pipi p))) io) = Inr io1" "io_ready io1"
    using total_onE [OF irpio_setvalue_ready, of "log_io (Syslog (pin_name (pipi p))) io" p ?v] io by auto
  obtain io2 where "irpio_setvalue p 0 (log_io (Usleep 10000) io1) = Inr io2" "io_ready io2"
    using total_onE [OF irpio_setvalue_ready, of "log_io (Usleep 10000) io1" p 0] 1(2) by auto
  with 1 io show "\<exists>s'. (if pin_enabled (pipi p) then
         sbind (irpio_setvalue p ?v (log_io (Syslog (pin_name (pipi p))) io)) (\<lambda>st.
         sbind (usleep 10000 st) (irpio_setvalue p 0))
       else Inr io) = Inr s' \<and> io_ready s'"
    by (simp add: usleep_def)
qed

lemma main_pins_ok:
  assumes "gpio_granted (e_pio (me_d env))" "clk_idle (e_pio (me_d env))"
  shows "\<exists>io'. main_pins env io = Inr io' \<and> io_ready io' \<and> sysFds io' = sysFds io \<and> isrFunctions io' = isrFunctions io"
proof -
  obtain io1 where 1: "irpio_init (e_pio (me_d env)) io = Inr io1" "io_ready io1"
    using irpio_init_granted [OF assms] by blast
  have "total_on io_ready (\<lambda>io. sbind (irpio_setpwm (e_pio (me_d env)) RPIO_PWM_CLOCK RPIO_PWM_RANGE io) irpio_selftest)"
    by (intro total_on_bind irpio_setpwm_ready irpio_selftest_ready assms(2))
  from total_onE [OF this 1(2)] 1(1) obtain io' where io': "main_pins env io = Inr io'" "io_ready io'"
    by (auto simp: main_pins_def)
  have pwm: "keeps_isr (irpio_setpwm (e_pio (me_d env)) RPIO_PWM_CLOCK RPIO_PWM_RANGE)"
  proof -
    have "keeps_isr (\<lambda>io. sbind (pwmSetClock (e_pio (me_d env)) RPIO_PWM_CLOCK io) (pwmSetRange RPIO_PWM_RANGE))"
      by (intro keeps_isr_bind keeps_isr_pwm)
    then show ?thesis by (fastforce simp: keeps_isr_def irpio_setpwm_def)
  qed
  have "keeps_isr (main_pins env)"
    unfolding main_pins_def by (intro keeps_isr_bind keeps_isr_init keeps_isr_selftest pwm)
  with io' show ?thesis by (auto simp: keeps_isr_def)
qed

text \<open>The messenger's start succeeds only with everything set.\<close>

lemma xmpp_start_ok:
  assumes "opts_inv a b c d m" "xmpp_start env (mx m) = Inr (Inr x)"
  shows "a \<and> b \<and> c \<and> xmpp_ok x \<and> me_create env = 0 \<and>
    (\<exists>k. conn x = Some k \<and> c_jid k \<noteq> None \<and> c_pass k \<noteq> None) \<and> host x \<noteq> None"
proof -
  let ?x = "irxmpp_set_passwdfile None (mx m)"
  obtain f where f: "passwd_file ?x = Some f"
    by (cases "passwd_file (mx m)") (simp_all add: irxmpp_set_passwdfile_def)
  have same: "trusted_jid ?x = trusted_jid (mx m)" "conn ?x = conn (mx m)" "host ?x = host (mx m)"
      "thrd_conn_mtx ?x = thrd_conn_mtx (mx m)" "x_calls ?x = x_calls (mx m)" "x_next ?x = x_next (mx m)"
    by (simp_all add: irxmpp_set_passwdfile_def)
  obtain k where k: "conn (mx m) = Some k" "c_jid k \<noteq> None \<longleftrightarrow> b" using assms(1) by (auto simp: opts_inv_def)
  obtain w where w: "irxmpp_read_passwd_file (me_file env) ?x = (ERR_OK, ?x\<lparr>conn := Some (k\<lparr>c_pass := Some w\<rparr>)\<rparr>)"
    using assms(2) k(1)
    by (auto simp: xmpp_start_def Let_def irxmpp_read_passwd_file_def irxmpp_set_pass_def same f
        split: prod.splits if_splits option.splits)
  let ?y = "?x\<lparr>conn := Some (k\<lparr>c_pass := Some w\<rparr>)\<rparr>"
  obtain r where r: "irxmpp_startThread (me_create env) ?y = Inr (r, x)" "r = 0"
    using assms(2) by (auto simp: xmpp_start_def Let_def w sbind_Inr_iff split: prod.splits if_splits)
  then have "x = ?y\<lparr>thrd_conn_mtx := True\<rparr>" "host (mx m) \<noteq> None" "b" "trusted_jid (mx m) \<noteq> None" "me_create env = 0"
    using k same by (auto simp: irxmpp_startThread_def Let_def split: if_splits)
  then show ?thesis
    using assms(1) same k by (auto simp: opts_inv_def xmpp_ok_def numbered_def)
qed

lemma main_setup_loop:
  assumes "main_setup env x p st = Inr (Main_loop st' x' p')" "before_setup st" "setup_granted (me_d env) st"
    and "e_semval (me_d env) = 0"
  shows "daemon_ok st' \<and> x' = x \<and> p' = p"
  using assms daemon_setup_daemon_ok [OF assms(2-4)]
  by (auto simp: main_setup_def sbind_Inr_iff split: if_splits)


definition calm_main :: main_env where
  "calm_main =
     \<lparr>me_getuid = 0, me_gid = 0,
      me_dz = \<lparr>z_fork = 0, z_setsid = 7, z_getpwnam = [''ir'' \<mapsto> (1000, 1000, ''/home/ir'')], z_setgid = 0, z_setuid = 0,
        z_setreuid = 0, z_access = 0\<rparr>,
      me_file = \<lparr>f_mode = (\<lambda>_. Some 0x8180), f_read = (\<lambda>_. Some (''secret'' @ [NL]))\<rparr>,
      me_create = 0, me_up = True, me_d = calm_denv 0\<rparr>"

definition calm_args :: "string list" where
  "calm_args = [''-x'', ''a@b.c'', ''-j'', ''d@b.c'', ''-s'', ''b.c'', ''-u'', ''ir'']"

lemma calm_getopt: "getopt ''hu:x:j:s:p:w:'' calm_args =
    [(CHR ''x'', ''a@b.c''), (CHR ''j'', ''d@b.c''), (CHR ''s'', ''b.c''), (CHR ''u'', ''ir'')]"
  by code_simp

lemma calm_xmpp_start:
  assumes "passwd_file x = None" "conn x = Some k" "c_jid k \<noteq> None" "host x \<noteq> None" "trusted_jid x \<noteq> None"
    and "\<not> thrd_conn_mtx x"
  shows "\<exists>y. xmpp_start calm_main x = Inr (Inr y)"
proof -
  have mode: "frbddn_loop 0x8180 frbddn_bits 0 = 0" "S_ISREG 0x8180"
    by (simp_all add: frbddn_bits_def S_ISREG_def)
  show ?thesis
    using assms mode
    by (simp add: xmpp_start_def calm_main_def Let_def irxmpp_set_passwdfile_def irxmpp_check_passwd_file_def
        irxmpp_read_passwd_file_def irxmpp_set_pass_def irxmpp_startThread_def)
qed

lemma calm_loop: "\<exists>st x p. d_main calm_main calm_args (fresh_daemon True) = Inr (Main_loop st x p)"
proof -
  have d: "me_d calm_main = calm_denv 0" "me_getuid calm_main = 0" "do_xmpp (fresh_daemon True)"
    by (simp_all add: calm_main_def fresh_daemon_def iralarmd_static_def)
  have pio: "gpio_granted (e_pio (me_d calm_main))" "clk_idle (e_pio (me_d calm_main))"
    by (simp_all add: d calm_denv_def calm_env_def gpio_granted_def clk_idle_def)
  obtain m where m: "main_options True (getopt ''hu:x:j:s:p:w:'' calm_args) (opts_static True) = Some m"
      "xmpp_opts_fine (xmpp_opts m)" "chuser m = Some ''ir''" "passwd_file (mx m) = None"
    by (simp add: calm_getopt xmpp_option_def opt_flag_def opts_static_def xmpp_opts_fine_def irxmpp_set_trusted_def
        irxmpp_set_jid_def irxmpp_set_host_def irxmpp_initialize_def irxmpp_static_def)
  have inv: "opts_inv True True True False m"
    using main_options_inv [OF opts_inv_static m(1)] by (simp add: calm_getopt)
  then obtain y where y: "xmpp_start calm_main (mx m) = Inr (Inr y)"
    using calm_xmpp_start [of "mx m"] m(4) by (auto simp: opts_inv_def)
  obtain io where io: "main_pins calm_main (pio (fresh_daemon True)) = Inr io" "io_ready io"
      "sysFds io = sysFds (pio (fresh_daemon True))" "isrFunctions io = isrFunctions (pio (fresh_daemon True))"
    using main_pins_ok [OF pio] by blast
  let ?st = "(fresh_daemon True)\<lparr>pio := io\<rparr>"
  have pre: "before_setup ?st" "setup_granted (calm_denv 0) ?st"
    using fresh_before_setup [of True] calm_granted [of 0 True] io
    by (simp_all add: before_setup_def setup_granted_def isr_fine_def)
  obtain st where st: "daemon_setup (calm_denv 0) ?st = Inr st" "exited st = None"
    using daemon_setup_ok [OF pre] by blast
  have dz: "\<exists>p. daemonize (me_dz calm_main) (Some ''ir'') q = Inr p" for q
    by (simp add: calm_main_def daemonize_def Let_def)
  then obtain p where p: "daemonize (me_dz calm_main) (Some ''ir'')
      \<lparr>p_uid = me_getuid calm_main, p_gid = me_gid calm_main, p_home = None, p_cwd = None\<rparr> = Inr p" by blast
  have "main_background calm_main m ?st = Inr (Main_loop st y p)"
    using p st by (simp add: main_background_def m(3) d y main_setup_def)
  then show ?thesis using m(1,2) by (simp add: d_main_def d io(1))
qed


section \<open>The commands of the messenger\<close>

definition daemon_texts :: "(int \<Rightarrow> tm) \<Rightarrow> iralarmd \<Rightarrow> int \<Rightarrow> string list" where
  "daemon_texts localtime st i =
     (if i = IRXMPP_STATUS then [status_text localtime st]
      else if i = IRXMPP_CONFIG then [config_text st] else [])"

lemma sem_wait_texts: "sem_wait st = Inr st' \<Longrightarrow> status_text localtime st' = status_text localtime st"
  by (auto simp: sem_wait_def status_text_def split: if_splits)

lemma callback_says:
  assumes "0 < semval st"
  shows "cb_says (irxmpp_thrd_callback localtime True st) (daemon_texts localtime st)"
proof -
  obtain st' where st': "sem_wait st = Inr st'" using assms by (simp add: sem_wait_def)
  have "irxmpp_thrd_callback localtime True st i =
     (if i = IRXMPP_STATUS then irxmpp_sendmsg_trusted (status_text localtime st)
      else if i = IRXMPP_CONFIG then irxmpp_sendmsg_trusted (config_text st) else Inr)" for i
    by (rule ext) (simp add: irxmpp_thrd_callback_def st' sem_wait_texts [OF st'])
  then show ?thesis
    using xm.send_says xm.says_nothing by (simp add: cb_says_def daemon_texts_def)
qed

text \<open>C22: in every state that a successfully started daemon can reach, the trusted user's message is answered from
  the daemon's variables as they are: the command for the state by state, counters and time of the
  last alarm, the one for the configuration by all its values, every other text as the messenger
  answers on its own; the daemon itself is left unchanged.\<close>

theorem remote_commands_answered:
  assumes "before_setup st" "setup_granted env st" "e_semval env = 0" "daemon_setup env st = Inr st1"
    and "d_run pe is st1 = Inr st2" "exited st2 = None"
    and "xmpp_ok x" "trusted_jid x = Some t" "si_attr sn ''from'' = Some from" "prefix t from"
    and "si_body sn = Some (Some msg)"
  shows "\<exists>x'. irxmpp_message_handler (irxmpp_thrd_callback localtime True st2) sn x = Inr (1, x') \<and> xmpp_ok x' \<and>
    outbox x' = outbox x @ map (chat t)
      (if starts ''status'' msg then [status_text localtime st2]
       else if starts ''config'' msg then [config_text st2]
       else reply_texts msg)"
proof -
  have "daemon_ok st1" by (rule daemon_setup_daemon_ok [OF assms(1-4)])
  then have "daemon_ok st2" using d_run_ok [of st1 pe "is"] assms(5,6) by auto
  then have "0 < semval st2" by (simp add: daemon_ok_def parts_ok_def)
  then have cb: "cb_says (irxmpp_thrd_callback localtime True st2) (daemon_texts localtime st2)"
    by (rule callback_says)
  have "command_texts (daemon_texts localtime st2) msg =
      (if starts ''status'' msg then [status_text localtime st2]
       else if starts ''config'' msg then [config_text st2] else reply_texts msg)"
    by (simp add: command_texts_def daemon_texts_def)
  with message_answered_general [OF assms(7-11) cb] show ?thesis by simp
qed

definition new_year :: tm where
  "new_year = \<lparr>tm_year = 116, tm_mon = 0, tm_mday = 1, tm_hour = 0, tm_min = 0, tm_sec = 0\<rparr>"

lemma remote_commands_answered_witness:
  "\<exists>st x'. daemon_setup (calm_denv 0) (fresh_daemon True) = Inr st \<and>
     irxmpp_message_handler (irxmpp_thrd_callback (\<lambda>_. new_year) True st) (stanza_from ''a@b.c'' ''Status'') (trusting ''a@b.c'') = Inr (1, x') \<and>
     outbox x' = [chat ''a@b.c'' (status_text (\<lambda>_. new_year) st)]"
proof -
  obtain st where st: "daemon_setup (calm_denv 0) (fresh_daemon True) = Inr st" "exited st = None"
    using fresh_starts [of True] by (auto simp: daemon_ok_def)
  have "e_semval (calm_denv 0) = 0" by (simp add: calm_denv_def)
  moreover have "d_run pthread_success [] st = Inr st" by (simp add: d_run_def)
  moreover have "si_attr (stanza_from ''a@b.c'' ''Status'') ''from'' = Some ''a@b.c''"
      "si_body (stanza_from ''a@b.c'' ''Status'') = Some (Some ''Status'')" by (simp_all add: stanza_from_def)
  moreover have "starts ''status'' ''Status''" by code_simp
  moreover have "trusted_jid (trusting ''a@b.c'') = Some ''a@b.c''" by (simp add: trusting_ok(2))
  ultimately show ?thesis
    using remote_commands_answered [OF fresh_before_setup calm_granted _ st(1), of pthread_success "[]" st
        "trusting ''a@b.c''" "''a@b.c''" "stanza_from ''a@b.c'' ''Status''" "''a@b.c''" "''Status''" "\<lambda>_. new_year"]
      st trusting_ok(1,3) by auto
qed

end
