(* ===== verification/Iralarm_System.thy ===== *)
theory Iralarm_System
  imports Iralarmctl Iralarmd_Props
begin

text \<open>
  The alarm daemon and its control program together (\<open>iralarm/iralarmctl.c\<close>, \<open>iralarm/iralarmd.c\<close>):
  both have the same segment and the same semaphore.

  \<^item> \<open>beside st c\<close>: the control program in its state \<open>c\<close> runs beside the daemon in its state \<open>st\<close>.
  \<^item> Facts: a write of the control program is the input \<open>Ctl_write\<close> of the daemon's runs, and the command to
    set an object takes effect in the daemon.
\<close>

definition beside :: "iralarmd \<Rightarrow> ctl \<Rightarrow> bool" where
  "beside st c \<longleftrightarrow> shm_ok (c_shm c, c_seg c) \<and> c_seg c = seg st \<and> c_sem c = semval st \<and> c_exit c = None"

lemma cell_wr_views:
  assumes "shm_ok (a, s)" "shm_ok (b, s)" "i < length initial" "cell_wr i v (a, s) = Inr (a, s')"
  shows "cell_wr i v (b, s) = Inr (b, s')"
  using assms by (auto simp: sbind_Inr_iff)

text \<open>A write is what the runs of the daemon take for it.\<close>

lemma do_set_is_input:
  assumes "daemon_ok st" "beside st c" "i < length initial"
  shows "\<exists>s. do_set i (Some (cell_ptr i)) v c = Inr (say (shown i s) (c\<lparr>c_seg := s\<rparr>)) \<and>
    ctl_write i (unat v) st = Inr (st\<lparr>seg := s\<rparr>) \<and> shm_ok (c_shm c, s)"
proof -
  have d: "shm_ok (shm st, seg st)" "semval st = 1" using assms(1) by (simp_all add: daemon_ok_def parts_ok_def)
  have c: "shm_ok (c_shm c, c_seg c)" "c_seg c = seg st" "0 < c_sem c"
    using assms(2) d(2) unfolding beside_def by (metis, metis, simp)
  obtain s where s: "do_set i (Some (cell_ptr i)) v c = Inr (say (shown i s) (c\<lparr>c_seg := s\<rparr>))"
      "cell_wr i (unat v) (c_shm c, c_seg c) = Inr (c_shm c, s)" "shm_ok (c_shm c, s)"
    using do_set_ok [OF c(1,3) assms(3), of v] by blast
  have "cell_wr i (unat v) (shm st, seg st) = Inr (shm st, s)"
    using cell_wr_views [OF _ d(1) assms(3), of "c_shm c"] c(1,2) s(2) by simp
  then have "ctl_write i (unat v) st = Inr (st\<lparr>seg := s\<rparr>)"
    using assms(3) by (simp add: ctl_write_def del: cell_wr.simps)
  with s(1,3) show ?thesis by blast
qed

text \<open>C19: the control program's command to set an object writes it, sends \<open>SIGHUP\<close> to the process that used the
  semaphore last, and leaves the semaphore as it was; if that process is the daemon, then the
  daemon's variables equal their objects, the written one with the value cut to its width, while its
  alarm is untouched.\<close>

theorem set_takes_effect:
  assumes "daemon_ok st" "beside st c" "i < length initial"
    and "copt a = SET" "value_set a" "shmi a = of_nat i"
  shows "\<exists>c' st'. ctl_action env False a chunks c = Inr c' \<and> beside (st\<lparr>seg := c_seg c'\<rparr>) c' \<and>
    c_kills c' = c_kills c @ [ce_getpid env] \<and>
    d_run pe [Signal SIGHUP] (st\<lparr>seg := c_seg c'\<rparr>) = Inr st' \<and> daemon_ok st' \<and> exported st' \<and>
    cell_val (seg st') i = unat (set_value a) mod 256 ^ cell_width i \<and>
    (\<forall>j < length initial. j \<noteq> i \<longrightarrow> cell_val (seg st') j = cell_val (seg st) j) \<and> alarm_of st' = alarm_of st"
proof -
  let ?v = "set_value a"
  obtain s where s: "do_set i (Some (cell_ptr i)) ?v c = Inr (say (shown i s) (c\<lparr>c_seg := s\<rparr>))"
      "ctl_write i (unat ?v) st = Inr (st\<lparr>seg := s\<rparr>)" "shm_ok (c_shm c, s)"
    using do_set_is_input [OF assms(1-3)] by blast
  have c: "attached (c_shm c)" "c_sem c = 1" "semval st = 1" "c_exit c = None"
    using assms(1,2) by (auto simp: beside_def daemon_ok_def parts_ok_def)
  obtain c' where c': "ctl_action env False a chunks c = Inr c'" "c_seg c' = s" "c_shm c' = c_shm c"
      "c_sem c' = 1" "c_exit c' = None" "c_kills c' = c_kills c @ [ce_getpid env]"
    using c s(1) assms(3-6) small_id [OF assms(3)]
    by (simp add: ctl_action_def set_and_signal_def c_wait_def c_post_def say_def complain_def Let_def)
  obtain st' where st': "d_run pe [Ctl_write i (unat ?v), Signal SIGHUP] st = Inr st'" "daemon_ok st'" "exported st'"
      "\<forall>j < length initial. cell_val (seg st') j = (if j = i then unat ?v mod 256 ^ cell_width i else cell_val (seg st) j)"
      "alarm_of st' = alarm_of st"
    using reload_after_write [OF assms(1), of pe i "unat ?v"] by blast
  have "exited st = None" using assms(1) by (simp add: daemon_ok_def)
  then have "d_run pe [Signal SIGHUP] (st\<lparr>seg := c_seg c'\<rparr>) = Inr st'"
    using st'(1) by (simp add: d_run_def d_step_def s(2) c'(2))
  then show ?thesis
    using c' st' s(3) c assms(3)
    by (intro exI [of _ c'] exI [of _ st']) (simp add: beside_def del: shm_ok.simps)
qed

lemma set_takes_effect_witness:
  "\<exists>st c' st'. daemon_setup (calm_denv 0) (fresh_daemon True) = Inr st \<and>
     ctl_action \<lparr>ce_shm = e_shm (calm_denv 0), ce_sem_exists = True, ce_getpid = 77, ce_kill = 0\<rparr> False
       (ctl_args_static\<lparr>copt := SET, shmi := 8, set_value := 5, value_set := True\<rparr>) []
       (ctl_attached\<lparr>c_seg := seg st\<rparr>) = Inr c' \<and>
     d_run pthread_success [Signal SIGHUP] (st\<lparr>seg := c_seg c'\<rparr>) = Inr st' \<and> ir_minalarm st' = 5 \<and> c_kills c' = [77]"
proof -
  obtain st where st: "daemon_setup (calm_denv 0) (fresh_daemon True) = Inr st" "daemon_ok st"
    using fresh_starts [of True] by blast
  have b: "beside st (ctl_attached\<lparr>c_seg := seg st\<rparr>)"
    using st(2) shm_attached_ok by (simp add: beside_def ctl_attached_def daemon_ok_def parts_ok_def)
  let ?env = "\<lparr>ce_shm = e_shm (calm_denv 0), ce_sem_exists = True, ce_getpid = 77, ce_kill = 0\<rparr>"
  let ?a = "ctl_args_static\<lparr>copt := SET, shmi := 8, set_value := 5, value_set := True\<rparr>"
  have "SHM_MINALRMS < length initial" "copt ?a = SET" "value_set ?a" "shmi ?a = of_nat SHM_MINALRMS"
    by (simp_all add: initial_def)
  then obtain c' st' where r: "ctl_action ?env False ?a [] (ctl_attached\<lparr>c_seg := seg st\<rparr>) = Inr c'"
      "c_kills c' = c_kills (ctl_attached\<lparr>c_seg := seg st\<rparr>) @ [ce_getpid ?env]"
      "d_run pthread_success [Signal SIGHUP] (st\<lparr>seg := c_seg c'\<rparr>) = Inr st'" "exported st'"
      "cell_val (seg st') SHM_MINALRMS = unat (set_value ?a) mod 256 ^ cell_width SHM_MINALRMS"
    using set_takes_effect [OF st(2) b, of SHM_MINALRMS ?a ?env "[]" pthread_success] by blast
  then have "unat (ir_minalarm st') = 5" by (simp add: exported_def object_widths)
  then have "ir_minalarm st' = 5" by (simp add: word_unat_eq_iff)
  with st(1) r(1-3) show ?thesis by (auto simp: ctl_attached_def)
qed

end
