(* ===== verification/Iralarm_Notify.thy ===== *)
theory Iralarm_Notify
  imports Irxmpp_Props Iralarmd_Main_Props
begin

text \<open>
  What an alarm sets off outside of the daemon's own state (\<open>doAlarmAction\<close> and \<open>system_nowait\<close> in
  \<open>iralarm/iralarmd.c\<close>): the message to the trusted user, and the recorder of the camera.

  \<^item> \<open>alarm_text\<close>: the text in its buffer of 256 characters; \<open>alarm_message\<close>: the whole text.
  \<^item> \<open>send_alarm\<close>: the event \<open>Xmpp_alarm\<close> of the daemon is a call of the messenger.
  \<^item> \<open>system_nowait\<close>: the process in which the recorder runs.
  \<^item> Facts: the text is never cut; the user gets one message for each alarm, and none otherwise; the
    recorder's environment.
\<close>

section \<open>The message\<close>

definition alarm_message :: "(int \<Rightarrow> tm) \<Rightarrow> int \<Rightarrow> u32 \<Rightarrow> u32 \<Rightarrow> u32 \<Rightarrow> u32 \<Rightarrow> string" where
  "alarm_message localtime start recvd minrecvd recvd_cycls alrm_cycls =
     ''ALARM: '' @ show_tm (localtime start) @ ''!'' @ [NL] @
     show_d recvd @ ''/'' @ show_d minrecvd @ '' IR-Low-Flanks, '' @
     show_d recvd_cycls @ '' IR-Recvd-Cycles, '' @ show_d alrm_cycls @ '' Alarm-Cycles''"

text \<open>\<open>snprintf (buf, n, ...)\<close> writes at most \<open>n - 1\<close> characters.\<close>

definition snprintf :: "nat \<Rightarrow> string \<Rightarrow> string" where
  "snprintf n s = take (n - 1) s"

definition alarm_text :: "(int \<Rightarrow> tm) \<Rightarrow> int \<Rightarrow> u32 \<Rightarrow> u32 \<Rightarrow> u32 \<Rightarrow> u32 \<Rightarrow> string" where
  "alarm_text localtime start recvd minrecvd recvd_cycls alrm_cycls =
     snprintf 255 (alarm_message localtime start recvd minrecvd recvd_cycls alrm_cycls)"

definition send_alarm :: "(int \<Rightarrow> tm) \<Rightarrow> d_event \<Rightarrow> irxmpp \<Rightarrow> irxmpp c_result" where
  "send_alarm localtime ev x =
     (case ev of
        Xmpp_alarm start recvd minrecvd recvd_cycls alrm_cycls \<Rightarrow>
          irxmpp_sendmsg_trusted (alarm_text localtime start recvd minrecvd recvd_cycls alrm_cycls) x
      | _ \<Rightarrow> Inr x)"

section \<open>The recorder\<close>

definition PATH_MAX :: nat where
  "PATH_MAX = 4096"

definition raspivid_cmd :: "string list" where
  "raspivid_cmd =
     [''/bin/sh'', ''-c'',
      ''/opt/vc/bin/raspivid -t 60000 -o /run/shm/iralarmd.h264 -w 640 -h 480 -fps 25 -b 1200000 -p 0,0,640,480 && '' @
      ''/bin/cp /run/shm/iralarmd.h264 /home/pi/raspicam/iralarmd_$(/bin/date +%d-%m-%y_%H-%M-%S).h264'']"

text \<open>The process that runs a command: its closed descriptors, its whole environment, what it executes.\<close>

record child =
  ch_closed :: "nat set"
  ch_env :: "(string \<times> string) list"
  ch_exec :: "string option"
  ch_args :: "string list"

datatype forked = Parent | Child child

text \<open>
  \<open>pid\<close> is the result of \<open>fork\<close>, \<open>getenv\<close> the environment; a variable that is not set is a null pointer for
  \<open>snprintf\<close>.  A failed \<open>fork\<close> is taken for the parent.
\<close>

definition system_nowait :: "int \<Rightarrow> (string \<Rightarrow> string option) \<Rightarrow> string list \<Rightarrow> forked c_result" where
  "system_nowait pid getenv cmd =
     (case getenv ''HOME'' of
        None \<Rightarrow> Inl NullDeref
      | Some home \<Rightarrow>
          let homedir = snprintf PATH_MAX home
          in if pid = 0 then
               Inr (Child \<lparr>ch_closed = {0, 1, 2}, ch_env = [(''HOME'', homedir)],
                           ch_exec = (case cmd of [] \<Rightarrow> None | c # _ \<Rightarrow> Some c), ch_args = cmd\<rparr>)
             else Inr Parent)"

section \<open>The text is never cut\<close>

definition tm_fits :: "tm \<Rightarrow> bool" where
  "tm_fits t \<longleftrightarrow> tm_year t + 1900 < 10 ^ 10 \<and> tm_mon t + 1 < 10 ^ 10 \<and> tm_mday t < 10 ^ 10 \<and>
     tm_hour t < 10 ^ 10 \<and> tm_min t < 10 ^ 10 \<and> tm_sec t < 10 ^ 10"

lemma length_show_pad: "n < 10 ^ 10 \<Longrightarrow> k \<le> 10 \<Longrightarrow> length (show_pad k n) \<le> 10"
  using length_show_nat [of n 10] by (simp add: show_pad_def)

lemma length_show_tm:
  assumes "tm_fits t"
  shows "length (show_tm t) \<le> 65"
proof -
  have "length (show_pad 4 (tm_year t + 1900)) \<le> 10" "length (show_pad 2 (tm_mon t + 1)) \<le> 10"
    "length (show_pad 2 (tm_mday t)) \<le> 10" "length (show_pad 2 (tm_hour t)) \<le> 10"
    "length (show_pad 2 (tm_min t)) \<le> 10" "length (show_pad 2 (tm_sec t)) \<le> 10"
    using assms by (simp_all only: tm_fits_def length_show_pad)
  then show ?thesis by (simp add: show_tm_def)
qed

lemma length_show_d: "length (show_d w) \<le> 11"
proof -
  have "sint w < 2147483648" using sint_lt [of w] by simp
  moreover have "- 2147483648 \<le> sint w" using sint_ge [of w] by simp
  ultimately have "nat (sint w) < 10000000000" "nat (- sint w) < 10000000000" by linarith+
  with length_show_nat [of "nat (sint w)" 10] length_show_nat [of "nat (- sint w)" 10]
  show ?thesis by (simp add: show_d_def)
qed

lemma alarm_text_whole:
  assumes "tm_fits (localtime start)"
  shows "alarm_text localtime start r m rc ac = alarm_message localtime start r m rc ac"
proof -
  have "length (alarm_message localtime start r m rc ac) \<le> 172"
    using length_show_tm [OF assms] length_show_d [of r] length_show_d [of m] length_show_d [of rc] length_show_d [of ac]
    by (simp add: alarm_message_def)
  then show ?thesis by (simp add: alarm_text_def snprintf_def)
qed

section \<open>The recorder's process\<close>

text \<open>The environment of the daemon's process: what it inherited, but for the variable that \<open>daemonize\<close> sets.\<close>

definition getenv_of :: "(string \<Rightarrow> string option) \<Rightarrow> proc \<Rightarrow> string \<Rightarrow> string option" where
  "getenv_of inherited p v = (if v = ''HOME'' \<and> p_home p \<noteq> None then p_home p else inherited v)"

text \<open>
  A daemon that was started with a user runs the recorder with no descriptor of its own and nothing in its
  environment but that user's home, or \<open>/tmp\<close> where it has none.
\<close>

lemma recorder_of_user:
  assumes "daemonize env (Some u) p = Inr p'" "length dir < PATH_MAX" "z_getpwnam env u = Some (uid, gid, dir)"
  shows "\<exists>home \<in> {dir, ''/tmp''}. system_nowait 0 (getenv_of inherited p') raspivid_cmd =
    Inr (Child \<lparr>ch_closed = {0, 1, 2}, ch_env = [(''HOME'', home)], ch_exec = Some ''/bin/sh'', ch_args = raspivid_cmd\<rparr>)"
proof -
  have "p_home p' \<in> {Some dir, Some ''/tmp''}"
    using assms(1,3) by (auto simp: daemonize_def Let_def split: if_splits)
  moreover have "snprintf PATH_MAX dir = dir" "snprintf PATH_MAX ''/tmp'' = ''/tmp''"
    using assms(2) by (simp_all add: snprintf_def PATH_MAX_def)
  ultimately show ?thesis
    by (auto simp: system_nowait_def getenv_of_def raspivid_cmd_def)
qed

text \<open>Without a user the daemon keeps the environment that it got, and relies on it having a home.\<close>

lemma recorder_without_home:
  assumes "daemonize env None p = Inr p'" "p_home p = None"
  shows "system_nowait pid (getenv_of inherited p') cmd = Inl NullDeref \<longleftrightarrow> inherited ''HOME'' = None"
  using assms by (auto simp: daemonize_def system_nowait_def getenv_of_def Let_def split: if_splits option.split)

section \<open>Alarms and messages\<close>

text \<open>The texts that some events cause.\<close>

fun texts_of :: "(int \<Rightarrow> tm) \<Rightarrow> d_event \<Rightarrow> string list" where
  "texts_of localtime (Xmpp_alarm start r m rc ac) = [alarm_text localtime start r m rc ac]"
| "texts_of localtime _ = []"

lemma send_alarm_says:
  "says xmpp_ok outbox trusted_peer (send_alarm localtime ev)
(texts_of localtime ev)"
  by (cases ev) (simp_all add: send_alarm_def [abs_def] xm.send_says xm.says_nothing)

lemma send_alarms_say:
  "says xmpp_ok outbox trusted_peer (sfoldM (send_alarm localtime) evs)
     (concat (map (texts_of localtime) evs))"
proof (induction evs)
  case Nil
  have "sfoldM (send_alarm localtime) [] = Inr" by (rule ext) simp
  then show ?case by (simp add: xm.says_nothing)
next
  case (Cons ev evs)
  have "sfoldM (send_alarm localtime) (ev # evs) = (\<lambda>x. sbind (send_alarm localtime ev x) (sfoldM (send_alarm localtime) evs))"
    by (rule ext) simp
  with xm.says_then [OF send_alarm_says Cons] show ?case by simp
qed

text \<open>The message of one iteration, if it starts an alarm.\<close>

definition alarm_report :: "(int \<Rightarrow> tm) \<Rightarrow> tick \<Rightarrow> iralarmd \<Rightarrow> string" where
  "alarm_report localtime tk st =
     alarm_message localtime (t_now tk) (ir_recvd st) (ir_minrecvd st)
       (ir_recvd_cycls (count_cycle st)) (ir_alrm_cycls (count_cycle st))"

lemma news_texts:
  assumes "tm_fits (localtime (t_now tk))" "do_xmpp st"
  shows "concat (map (texts_of localtime)
      (Main_sleep d # alarm_news tk (count_cycle st) new)) =
    (if astate st = ALRM_NONE \<and> new = ALRM_PREACTIVE \<and> 0 <s s_xmpp st then [alarm_report localtime tk st] else [])"
  using assms(2) alarm_text_whole [of localtime "t_now tk", OF assms(1)]
  by (simp add: alarm_news_def alarm_report_def count_cycle_def Let_def)

lemma left_none: "a_state a = ALRM_NONE \<Longrightarrow> a_state (alarm_next ma rs b now a) \<noteq> ALRM_ACTIVE"
  by (simp add: alarm_next_def alarm_move_def alarm_count_def Let_def)

text \<open>C20: an iteration of the main loop of a running daemon that is built with the messenger sends the trusted user
  exactly one message if it starts an alarm while messages are switched on, and none otherwise; the
  message holds the time and the counters as they were judged, none of it lost in the buffer, and it is
  sent as libstrophe asks.\<close>

theorem alarm_is_reported:
  assumes "daemon_ok st" "do_xmpp st" "xmpp_ok x" "trusted_jid x = Some t" "tm_fits (localtime (t_now tk))"
  shows "\<exists>st' x'. loop_body pe tk st = Inr st' \<and>
    sfoldM (send_alarm localtime) (drop (length (d_out st)) (d_out st')) x = Inr x' \<and> xmpp_ok x' \<and>
    outbox x' = outbox x @
      (if astate st = ALRM_NONE \<and> astate st' \<noteq> ALRM_NONE \<and> 0 <s s_xmpp st
       then [chat t (alarm_report localtime tk st)] else [])"
proof -
  obtain st' where st': "loop_body pe tk st = Inr st'"
      "alarm_of st' = alarm_next (ir_minalarm st) (ir_rstalarm st) (ir_recvd st < ir_minrecvd st) (t_now tk) (alarm_of st)"
      "d_out st' = d_out st @ [Main_sleep (s_mainloop st)] @ alarm_news tk (count_cycle st) (astate st')"
    using loop_body_ok [OF assms(1), of pe tk] by blast
  let ?evs = "Main_sleep (s_mainloop st) # alarm_news tk (count_cycle st) (astate st')"
  have new: "astate st = ALRM_NONE \<Longrightarrow> astate st' \<noteq> ALRM_ACTIVE"
  proof -
    assume "astate st = ALRM_NONE"
    then have "a_state (alarm_of st) = ALRM_NONE" by (simp add: alarm_of_def)
    then have "a_state (alarm_of st') \<noteq> ALRM_ACTIVE" unfolding st'(2) by (rule left_none)
    then show ?thesis by (simp add: alarm_of_def)
  qed
  obtain x' where x': "sfoldM (send_alarm localtime) ?evs x = Inr x'" "xmpp_ok x'"
      "outbox x' = outbox x @ map (chat (trusted_peer x)) (concat (map (texts_of localtime) ?evs))"
    using send_alarms_say assms(3) by (rule saysE)
  have "drop (length (d_out st)) (d_out st') = ?evs" by (simp add: st'(3))
  with st'(1) x' new assms(4) show ?thesis
    unfolding news_texts [of localtime tk, OF assms(5,2)]
    by (cases "astate st'") (auto simp: trusted_peer_def)
qed

lemma sample_message:
  "alarm_message (\<lambda>_. new_year) 100 0 8 0 3 =
     ''ALARM: 2016-01-01 00:00:00!'' @ [NL] @ ''0/8 IR-Low-Flanks, 0 IR-Recvd-Cycles, 3 Alarm-Cycles''"
  by code_simp

text \<open>A daemon after two bad cycles, whose next one starts an alarm.\<close>

lemma alarm_is_reported_witness:
  "\<exists>st st' x'. loop_body pthread_success \<lparr>t_now = 100, t_stop = 100\<rparr> st = Inr st' \<and> astate st' = ALRM_PREACTIVE \<and>
     sfoldM (send_alarm (\<lambda>_. new_year)) (drop (length (d_out st)) (d_out st')) (trusting ''a@b.c'') = Inr x' \<and>
     outbox x' = [chat ''a@b.c'' (''ALARM: 2016-01-01 00:00:00!'' @ [NL] @
       ''0/8 IR-Low-Flanks, 0 IR-Recvd-Cycles, 3 Alarm-Cycles'')]"
proof -
  obtain st0 where st0: "daemon_ok st0" "astate st0 = ALRM_NONE" "ir_recvd st0 = 0" "ir_minalarm st0 = 2" "ir_minrecvd st0 = 8"
    using fresh_starts by blast
  let ?st = "st0\<lparr>ir_alrm_cycls := 2, ir_recvd_cycls := 0, do_xmpp := True, s_xmpp := 1\<rparr>"
  let ?tk = "\<lparr>t_now = 100, t_stop = 100\<rparr>"
  have ok: "daemon_ok ?st" using st0(1) by (simp add: daemon_ok_def threads_ok_def synced_def parts_ok_def)
  have rep: "alarm_report (\<lambda>_. new_year) ?tk ?st = ''ALARM: 2016-01-01 00:00:00!'' @ [NL] @
       ''0/8 IR-Low-Flanks, 0 IR-Recvd-Cycles, 3 Alarm-Cycles''"
    using sample_message by (simp add: alarm_report_def count_cycle_def st0)
  have peer: "trusted_jid (trusting ''a@b.c'') = Some ''a@b.c''" by (simp add: trusting_ok(2))
  have "tm_fits new_year" by (simp add: tm_fits_def new_year_def)
  then obtain st' x' where r: "loop_body pthread_success ?tk ?st = Inr st'"
      "sfoldM (send_alarm (\<lambda>_. new_year)) (drop (length (d_out ?st)) (d_out st')) (trusting ''a@b.c'') = Inr x'"
      "outbox x' = outbox (trusting ''a@b.c'') @
        (if astate ?st = ALRM_NONE \<and> astate st' \<noteq> ALRM_NONE \<and> 0 <s s_xmpp ?st
         then [chat ''a@b.c'' (alarm_report (\<lambda>_. new_year) ?tk ?st)] else [])"
    using alarm_is_reported [where t = "''a@b.c''" and localtime = "\<lambda>_. new_year" and tk = ?tk
        and pe = pthread_success, OF ok _ trusting_ok(1) peer]
    by auto
  have "alarm_of st' = alarm_next 2 (ir_rstalarm st0) True 100 (alarm_of ?st)"
    using loop_body_ok [OF ok, of pthread_success ?tk] r(1) st0 by auto
  then have "astate st' = ALRM_PREACTIVE"
    using st0 by (simp add: alarm_of_def alarm_next_def alarm_count_def alarm_move_def)
  moreover from this have "outbox x' = [chat ''a@b.c'' (alarm_report (\<lambda>_. new_year) ?tk ?st)]"
    using r(3) st0(2) by (simp add: trusting_ok(3) word_sless_alt)
  ultimately show ?thesis using r(1,2) unfolding rep by blast
qed

end
