(* ===== verification/Iralarmd_Frame.thy ===== *)
theory Iralarmd_Frame
  imports Iralarmd_Props
begin

text \<open>
  Which parts of the daemon's state (\<open>iralarm/iralarmd.c\<close>) its operations do not depend on.

  \<^item> \<open>commutes u f\<close>: to change the state by \<open>u\<close> before \<open>f\<close> is the same as to change it afterwards.  All
    operations inside of a critical section commute with earlier entries of the log (\<open>after_outs\<close>) and
    with another value of the semaphore (\<open>with_sem\<close>).
  \<^item> \<open>loop_core\<close> is an iteration without its sleep, \<open>sans_sleep\<close> a state without the log's entries of the sleeps.
  \<^item> Fact: steps without sleeps make up a run of the daemon, up to these entries (\<open>atomic_run\<close>).
\<close>

section \<open>Operations that commute with a change of the state\<close>

text \<open>For the log of the outputs, and for the semaphore's value.\<close>

definition commutes :: "('s \<Rightarrow> 's) \<Rightarrow> ('s \<Rightarrow> 's c_result) \<Rightarrow> bool" where
  "commutes u f \<longleftrightarrow> (\<forall>st. f (u st) = sbind (f st) (\<lambda>st'. Inr (u st')))"

lemma commutes_bind:
  assumes "commutes u f" "commutes u g"
  shows "commutes u (\<lambda>st. sbind (f st) g)"
proof -
  have "sbind (f (u st)) g = sbind (sbind (f st) g) (\<lambda>st'. Inr (u st'))" for st
    using assms by (cases "f st") (simp_all add: commutes_def)
  then show ?thesis by (simp add: commutes_def)
qed

lemma commutes_Inr: "(\<And>st. f (u st) = u (f st)) \<Longrightarrow> commutes u (\<lambda>st. Inr (f st))"
  by (simp add: commutes_def)

lemma commutes_if:
  "commutes u f \<Longrightarrow> commutes u g \<Longrightarrow> (\<And>st. b (u st) = b st) \<Longrightarrow> commutes u (\<lambda>st. if b st then f st else g st)"
  by (simp add: commutes_def)

lemma commutes_with:
  assumes "\<And>x. commutes u (f x)" "\<And>st. p (u st) = p st"
  shows "commutes u (\<lambda>st. sbind (p st) (\<lambda>x. f x st))"
proof -
  have "sbind (p (u st)) (\<lambda>x. f x (u st)) = sbind (sbind (p st) (\<lambda>x. f x st)) (\<lambda>st'. Inr (u st'))" for st
    using assms by (cases "p st") (simp_all add: commutes_def)
  then show ?thesis by (simp add: commutes_def)
qed

lemma commutes_Inl: "commutes u f \<Longrightarrow> f st = Inl e \<Longrightarrow> f (u st) = Inl e"
  by (simp add: commutes_def)

lemma commutesD: "commutes u f \<Longrightarrow> f st = Inr st' \<Longrightarrow> f (u st) = Inr (u st')"
  by (simp add: commutes_def)

text \<open>Two changes: more outputs before the ones in the log, and another value of the semaphore.\<close>

definition after_outs :: "d_event list \<Rightarrow> iralarmd \<Rightarrow> iralarmd" where
  "after_outs es st = st\<lparr>d_out := es @ d_out st\<rparr>"

definition with_sem :: "nat \<Rightarrow> iralarmd \<Rightarrow> iralarmd" where
  "with_sem n st = st\<lparr>semval := n\<rparr>"

lemmas changes = after_outs_def with_sem_def

definition a_change :: "(iralarmd \<Rightarrow> iralarmd) \<Rightarrow> bool" where
  "a_change u \<longleftrightarrow> (\<exists>es. u = after_outs es) \<or> (\<exists>n. u = with_sem n)"

lemma a_change_cases:
  assumes "a_change u" "\<And>es. u = after_outs es \<Longrightarrow> P" "\<And>n. u = with_sem n \<Longrightarrow> P"
  shows P
  using assms by (auto simp: a_change_def)

lemma a_change_intros [simp]: "a_change (after_outs es)" "a_change (with_sem n)"
  by (auto simp: a_change_def)

text \<open>What the changes leave alone.\<close>

lemma a_change_keeps:
  assumes "a_change u"
  shows "shm (u st) = shm st" "seg (u st) = seg st" "thrds (u st) = thrds st" "pio (u st) = pio st"
    "astate (u st) = astate st" "s_astate (u st) = s_astate st" "do_xmpp (u st) = do_xmpp st"
    "thrd_alarm (u st) = thrd_alarm st" "thrd_status (u st) = thrd_status st"
    "ir_alrm_cycls (u st) = ir_alrm_cycls st" "ir_minalarm (u st) = ir_minalarm st"
    "ir_recvd_cycls (u st) = ir_recvd_cycls st" "ir_rstalarm (u st) = ir_rstalarm st"
    "ir_alrm_start (u st) = ir_alrm_start st" "exited (u st) = exited st"
    "emit e (u st) = u (emit e st)" "count_cycle (u st) = u (count_cycle st)"
  by (rule a_change_cases [OF assms]; simp add: changes emit_def count_cycle_def Let_def)+

lemma publish_commutes:
  assumes "a_change u"
  shows "commutes u publish_state"
  by (rule a_change_cases [OF assms])
    (auto simp: publish_state_def commutes_def changes split: option.split sbind_split)

lemma set_thread_data_commutes:
  assumes "a_change u"
  shows "commutes u set_thread_data"
  unfolding set_thread_data_def
  by (rule a_change_cases [OF assms]; rule commutes_with) (auto simp: changes intro!: commutes_Inr)

lemma resume_alarm_commutes:
  assumes "a_change u"
  shows "commutes u (resume_alarm pe)"
  unfolding resume_alarm_def
  by (rule a_change_cases [OF assms]; rule commutes_with)
    (auto simp: changes intro!: commutes_Inr split: prod.split)

lemma enter_none_commutes:
  assumes "a_change u"
  shows "commutes u (enter_none tk)"
  unfolding enter_none_def
proof (rule commutes_bind)
  have "commutes u (\<lambda>st. sbind (Inr (st\<lparr>astate := ALRM_NONE\<rparr>)) set_thread_data)"
    by (rule a_change_cases [OF assms]; intro commutes_bind commutes_Inr set_thread_data_commutes)
      (simp_all add: changes)
  then show "commutes u (\<lambda>st. set_thread_data (st\<lparr>astate := ALRM_NONE\<rparr>))" by simp
  show "commutes u (\<lambda>st. Inr ((undoAlarmAction (t_stop tk) st)\<lparr>ir_alrm_cycls := 0\<rparr>))"
    by (rule a_change_cases [OF assms]; rule commutes_Inr) (simp_all add: undoAlarmAction_def emit_def changes)
qed

lemma alarm_switch_commutes:
  assumes "a_change u"
  shows "commutes u (alarm_switch pe tk a)"
proof (cases a)
  case ALRM_NONE
  have "commutes u (\<lambda>st.
      sbind (sbind (Inr ((doAlarmAction (st\<lparr>ir_alrm_start := t_now tk\<rparr>))\<lparr>ir_recvd_cycls := 0, astate := ALRM_PREACTIVE\<rparr>))
        set_thread_data) (resume_alarm pe))"
    (is "commutes _ ?f")
    by (rule a_change_cases [OF assms]; intro commutes_bind commutes_Inr set_thread_data_commutes resume_alarm_commutes)
      (simp_all add: changes doAlarmAction_def emit_def Let_def)
  then have "commutes u (\<lambda>st. if ir_alrm_cycls st > ir_minalarm st then ?f st else Inr st)"
    by (intro commutes_if commutes_Inr) (simp_all add: a_change_keeps assms)
  moreover have "alarm_switch pe tk ALRM_NONE = (\<lambda>st. if ir_alrm_cycls st > ir_minalarm st then ?f st else Inr st)"
    by (rule ext) (simp add: Let_def)
  ultimately show ?thesis using ALRM_NONE by simp
next
  case ALRM_PREACTIVE
  have "commutes u (\<lambda>st. sbind (Inr (st\<lparr>ir_recvd_cycls := 0, astate := ALRM_ACTIVE\<rparr>)) set_thread_data)"
    (is "commutes _ ?f")
    by (rule a_change_cases [OF assms]; intro commutes_bind commutes_Inr set_thread_data_commutes)
      (simp_all add: changes)
  then have "commutes u (\<lambda>st. if diffTimeWithNow (t_now tk) (ir_alrm_start st) 10 = 1 then ?f st
      else if ir_recvd_cycls st > ir_rstalarm st then enter_none tk st else Inr st)"
    by (intro commutes_if commutes_Inr enter_none_commutes) (simp_all add: a_change_keeps assms)
  moreover have "alarm_switch pe tk ALRM_PREACTIVE = (\<lambda>st. if diffTimeWithNow (t_now tk) (ir_alrm_start st) 10 = 1 then ?f st
      else if ir_recvd_cycls st > ir_rstalarm st then enter_none tk st else Inr st)"
    by (rule ext) simp
  ultimately show ?thesis using ALRM_PREACTIVE by simp
next
  case ALRM_ACTIVE
  have "commutes u (\<lambda>st. if ir_recvd_cycls st > ir_rstalarm st then enter_none tk st else Inr st)"
    by (intro commutes_if commutes_Inr enter_none_commutes) (simp_all add: a_change_keeps assms)
  moreover have "alarm_switch pe tk ALRM_ACTIVE =
      (\<lambda>st. if ir_recvd_cycls st > ir_rstalarm st then enter_none tk st else Inr st)"
    by (rule ext) simp
  ultimately show ?thesis using ALRM_ACTIVE by simp
qed

lemma sem_wait_commutes: "commutes (after_outs es) sem_wait"
  by (simp add: commutes_def sem_wait_def after_outs_def)

lemma ir_flank_commutes: "commutes (after_outs es) ir_flank"
  unfolding ir_flank_def
  by (intro commutes_bind commutes_Inr sem_wait_commutes) (simp add: after_outs_def sem_post_def)

lemma ctl_write_commutes:
  assumes "a_change u"
  shows "commutes u (ctl_write i v)"
  unfolding ctl_write_def
proof (intro commutes_if commutes_Inr)
  show "commutes u (\<lambda>st. sbind (cell_wr i v (shm st, seg st)) (\<lambda>(_, s). Inr (st\<lparr>seg := s\<rparr>)))"
    by (rule a_change_cases [OF assms]; rule commutes_with) (auto simp: changes intro!: commutes_Inr split: prod.split)
qed simp_all

section \<open>Signals\<close>

lemma reload_commutes:
  assumes "a_change u"
  shows "commutes u reload_bytes" "commutes u reload_words"
  unfolding reload_bytes_def reload_words_def
  by (rule a_change_cases [OF assms]; intro commutes_with commutes_Inr; simp add: changes)+

lemma stop_thread_commutes:
  assumes "a_change u" "\<And>st. p (u st) = p st"
  shows "commutes u (\<lambda>st. stop_thread pe (p st) st)"
  by (rule a_change_cases [OF assms(1)])
    (use assms(2) in \<open>auto simp: commutes_def stop_thread_def changes split: sbind_split prod.split\<close>)

lemma shutdown_tail_commutes:
  assumes "a_change u"
  shows "commutes u (\<lambda>st. sbind (stop_thread pe (thrd_alarm st) st) (\<lambda>st.
         sbind (stop_thread pe (thrd_status st) st) (\<lambda>st.
         sbind (irpio_lowall (pio st)) (\<lambda>io.
         case irmem_free 1 (shm st) of (rm, sh) \<Rightarrow>
           let st1 = st\<lparr>pio := io, shm := sh, d_out := d_out st @ map Shm_removed rm\<rparr>
           in Inr ((emit (Sem_removed (sem_id st1)) st1)\<lparr>exited := Some 0\<rparr>)))))"
proof -
  have s: "commutes u (\<lambda>st. stop_thread pe (thrd_alarm st) st)" "commutes u (\<lambda>st. stop_thread pe (thrd_status st) st)"
    by (rule stop_thread_commutes [OF assms], simp add: a_change_keeps assms)+
  have "commutes u (\<lambda>st. sbind (irpio_lowall (pio st)) (\<lambda>io.
         case irmem_free 1 (shm st) of (rm, sh) \<Rightarrow>
           let st1 = st\<lparr>pio := io, shm := sh, d_out := d_out st @ map Shm_removed rm\<rparr>
           in Inr ((emit (Sem_removed (sem_id st1)) st1)\<lparr>exited := Some 0\<rparr>)))"
    by (rule a_change_cases [OF assms]; intro commutes_with)
      (auto simp: commutes_def changes emit_def Let_def split: prod.split)
  with s show ?thesis by (intro commutes_bind)
qed

lemma sighandler_commutes:
  assumes "a_change u"
  shows "commutes u (sighandler pe sg)"
proof -
  have e: "emit x (u st) = u (emit x st)" "do_xmpp (u st) = do_xmpp st" for x st
    by (simp_all add: a_change_keeps assms)
  have down: "commutes u (shutdown pe)"
    using shutdown_tail_commutes [OF assms, of pe] by (simp add: commutes_def shutdown_def Let_def e)
  have reload: "commutes u (\<lambda>st. sbind (reload_bytes st) reload_words)"
    by (intro commutes_bind reload_commutes assms)
  show ?thesis
    using down reload by (cases sg) (simp_all add: commutes_def sighandler_def Let_def e)
qed

section \<open>The main loop without its sleep\<close>

text \<open>
  \<open>Main_sleep\<close> is the only event of an iteration before its signals are blocked; a signal that comes
  during the sleep stands after it in the log, and before it in an atomic run.  The log is compared
  without these events.
\<close>

fun is_sleep :: "d_event \<Rightarrow> bool" where
  "is_sleep (Main_sleep d) = True"
| "is_sleep _ = False"

definition sans_sleep :: "iralarmd \<Rightarrow> iralarmd" where
  "sans_sleep st = st\<lparr>d_out := filter (\<lambda>e. \<not> is_sleep e) (d_out st)\<rparr>"

lemma sans_sleep_emit [simp]: "sans_sleep (emit (Main_sleep d) st) = sans_sleep st"
  by (simp add: sans_sleep_def emit_def)

definition loop_core :: "pthread_env \<Rightarrow> tick \<Rightarrow> iralarmd \<Rightarrow> iralarmd c_result" where
  "loop_core pe tk st =
     sbind (sem_wait st) (\<lambda>st.
     sbind (publish_state (count_cycle st)) (\<lambda>st.
     sbind (alarm_switch pe tk (astate st) st) (\<lambda>st.
     Inr (sem_post (st\<lparr>ir_recvd := 0\<rparr>)))))"

lemma loop_body_core: "loop_body pe tk st = loop_core pe tk (emit (Main_sleep (s_mainloop st)) st)"
  by (simp add: loop_body_def loop_core_def)

lemma switch_commutes:
  assumes "a_change u"
  shows "commutes u (\<lambda>st. alarm_switch pe tk (astate st) st)"
  using alarm_switch_commutes [OF assms] by (simp add: commutes_def a_change_keeps assms)

lemma count_publish_commutes:
  assumes "a_change u"
  shows "commutes u (\<lambda>st. publish_state (count_cycle st))"
  using publish_commutes [OF assms] by (simp add: commutes_def a_change_keeps assms)

lemma loop_core_commutes: "commutes (after_outs es) (loop_core pe tk)"
  unfolding loop_core_def
  by (intro commutes_bind commutes_Inr sem_wait_commutes count_publish_commutes switch_commutes)
    (simp_all add: after_outs_def sem_post_def)

text \<open>Operations that commute with earlier outputs do the same in states that differ only in sleeps.\<close>

lemma same_sans_sleep:
  assumes "sans_sleep a = sans_sleep b"
  obtains z where "a = after_outs (d_out a) z" "b = after_outs (d_out b) z"
proof
  show "a = after_outs (d_out a) (a\<lparr>d_out := []\<rparr>)" by (simp add: after_outs_def)
  have "b\<lparr>d_out := []\<rparr> = (sans_sleep b)\<lparr>d_out := []\<rparr>" by (simp add: sans_sleep_def)
  also have "\<dots> = a\<lparr>d_out := []\<rparr>" unfolding assms [symmetric] by (simp add: sans_sleep_def)
  finally have e: "b\<lparr>d_out := []\<rparr> = a\<lparr>d_out := []\<rparr>" .
  show "b = after_outs (d_out b) (a\<lparr>d_out := []\<rparr>)"
    unfolding e [symmetric] by (simp add: after_outs_def)
qed

lemma commutes_sans_sleep:
  assumes "\<And>es. commutes (after_outs es) f" "f a = Inr a'" "sans_sleep a = sans_sleep b"
  shows "\<exists>b'. f b = Inr b' \<and> sans_sleep a' = sans_sleep b'"
proof -
  obtain z where z: "a = after_outs (d_out a) z" "b = after_outs (d_out b) z"
    using assms(3) by (rule same_sans_sleep)
  obtain z' where z': "f z = Inr z'"
  proof (cases "f z")
    case (Inl e)
    from commutes_Inl [OF assms(1) this, of "d_out a"] assms(2) show ?thesis
      unfolding z(1) [symmetric] by simp
  qed
  have "Inr a' = (Inr (after_outs (d_out a) z') :: iralarmd c_result)"
    using commutesD [OF assms(1) z', of "d_out a"] assms(2) unfolding z(1) [symmetric] by simp
  moreover have "f b = Inr (after_outs (d_out b) z')"
    using commutesD [OF assms(1) z', of "d_out b"] unfolding z(2) [symmetric] .
  moreover have "sans_sleep (after_outs (d_out a) z') = sans_sleep (after_outs (d_out b) z')"
  proof -
    have "filter (\<lambda>e. \<not> is_sleep e) (d_out a) = filter (\<lambda>e. \<not> is_sleep e) (d_out b)"
      using arg_cong [OF assms(3), of d_out] by (simp add: sans_sleep_def)
    then show ?thesis by (simp add: sans_sleep_def after_outs_def)
  qed
  ultimately show ?thesis by auto
qed

section \<open>Atomic runs\<close>

text \<open>The atomic steps without the sleeps, for the inputs that concern the semaphore.\<close>

fun core_step :: "pthread_env \<Rightarrow> d_input \<Rightarrow> iralarmd \<Rightarrow> iralarmd c_result" where
  "core_step pe (Tick tk) = loop_core pe tk"
| "core_step pe i = d_input_step pe i"

fun uses_sem :: "d_input \<Rightarrow> bool" where
  "uses_sem Run_alarm = False"
| "uses_sem Run_status = False"
| "uses_sem _ = True"

lemma core_step_commutes: "uses_sem i \<Longrightarrow> commutes (after_outs es) (core_step pe i)"
proof (cases i)
  case Flank
  then have "core_step pe i = ir_flank" by (simp add: fun_eq_iff)
  then show ?thesis by (simp add: ir_flank_commutes)
next
  case (Tick tk)
  then show ?thesis by (simp add: loop_core_commutes)
next
  case (Signal sg)
  then have "core_step pe i = sighandler pe sg" by (simp add: fun_eq_iff)
  then show ?thesis by (simp add: sighandler_commutes)
next
  case (Ctl_write j v)
  then have "core_step pe i = ctl_write j v" by (simp add: fun_eq_iff)
  then show ?thesis by (simp add: ctl_write_commutes)
qed simp_all

lemma core_step_is_d_step:
  assumes "uses_sem i" "core_step pe i a = Inr a'" "sans_sleep a = sans_sleep b" "exited a = None"
  shows "\<exists>b'. d_step pe i b = Inr b' \<and> sans_sleep a' = sans_sleep b'"
proof -
  have e: "exited b = None" using arg_cong [OF assms(3), of exited] assms(4) by (simp add: sans_sleep_def)
  note f = commutes_sans_sleep [OF core_step_commutes [OF assms(1)] assms(2)]
  show ?thesis
  proof (cases i)
    case (Tick tk)
    have "sans_sleep a = sans_sleep (emit (Main_sleep (s_mainloop b)) b)" using assms(3) by simp
    from f [OF this] Tick e show ?thesis by (simp add: d_step_def loop_body_core)
  qed (use f [OF assms(3)] e in \<open>simp_all add: d_step_def\<close>)
qed

definition atomic_run :: "pthread_env \<Rightarrow> iralarmd \<Rightarrow> nat \<Rightarrow> iralarmd \<Rightarrow> bool" where
  "atomic_run pe st n a \<longleftrightarrow>
     (\<exists>is b. d_run pe is st = Inr b \<and> sans_sleep a = sans_sleep b \<and> count_list is Flank = n \<and> list_all uses_sem is)"

lemma atomic_run_start: "atomic_run pe st 0 st"
  unfolding atomic_run_def by (intro exI [of _ "[]"]) (simp add: d_run_def)

lemma atomic_run_step:
  assumes "atomic_run pe st n a" "uses_sem i" "core_step pe i a = Inr a'" "exited a = None"
  shows "atomic_run pe st (n + (if i = Flank then 1 else 0)) a'"
proof -
  obtain "is" b where b: "d_run pe is st = Inr b" "sans_sleep a = sans_sleep b" "count_list is Flank = n" "list_all uses_sem is"
    using assms(1) by (auto simp: atomic_run_def)
  obtain b' where b': "d_step pe i b = Inr b'" "sans_sleep a' = sans_sleep b'"
    using core_step_is_d_step [OF assms(2,3) b(2) assms(4)] by blast
  have "d_run pe (is @ [i]) st = Inr b'"
    using b(1) b'(1) by (simp add: d_run_def sfoldM_append)
  then show ?thesis
    unfolding atomic_run_def using b b'(2) assms(2) by (intro exI [of _ "is @ [i]"] exI [of _ b']) auto
qed

lemma daemon_ok_sans_sleep [simp]: "daemon_ok (sans_sleep st) = daemon_ok st"
  by (simp add: sans_sleep_def daemon_ok_def threads_ok_def synced_def parts_ok_def)

lemma core_step_ok:
  assumes "daemon_ok a" "uses_sem i"
  shows "\<exists>a'. core_step pe i a = Inr a' \<and> (daemon_ok a' \<or> exited a' = Some 0)"
proof -
  have e: "exited a = None" using assms(1) by (simp add: daemon_ok_def)
  obtain b where b: "d_step pe i a = Inr b" "daemon_ok b \<or> exited b = Some 0"
    using d_step_ok assms(1) by blast
  show ?thesis
  proof (cases i)
    case (Tick tk)
    then have "core_step pe i (emit (Main_sleep (s_mainloop a)) a) = Inr b"
      using b(1) e by (simp add: d_step_def loop_body_core)
    from commutes_sans_sleep [OF core_step_commutes [OF assms(2)] this, of a]
    obtain a' where a': "core_step pe i a = Inr a'" "sans_sleep b = sans_sleep a'" by auto
    have "daemon_ok a' = daemon_ok b"
      using daemon_ok_sans_sleep [of a'] daemon_ok_sans_sleep [of b] a'(2) by simp
    moreover have "exited a' = exited b" using arg_cong [OF a'(2), of exited] by (simp add: sans_sleep_def)
    ultimately show ?thesis using a'(1) b(2) by auto
  qed (use b e in \<open>simp_all add: d_step_def\<close>)
qed

end
