(* ===== verification/Iralarmd_Conc.thy ===== *)
theory Iralarmd_Conc
  imports Iralarmd_Frame
begin

text \<open>
  The semaphore and the masking of signals in the alarm daemon, statement by statement
  (\<open>iralarm/iralarmd.c\<close>, with \<open>do_set\<close> of \<open>iralarm/iralarmctl.c\<close>): why the runs \<open>d_run\<close>, in which
  interrupts, iterations, signals and writes are atomic, describe the daemon.

  \<^item> The participants are the main thread, in its loop; the thread that \<open>irpio_isr\<close> starts, in
    \<open>ir_flank\<close>; a control program in \<open>do_set\<close>; and the thread of the messenger, which answers the command
    for the status.  Each has a position; \<open>dm\<close> are the variables that they share, the semaphore's value
    among them.  A step is one statement of one of them.
  \<^item> A signal is delivered in the main thread where the source unblocks it; its handler is one step.  A
    handler that returns ends the \<open>usleep\<close> it came in.
  \<^item> The rounds of the two threads of the table do not take the semaphore; they are the subject of
    \<open>Irthread_Conc\<close>.
  \<^item> Facts: every reachable state is one of an atomic run, without loss or double count of a flank, and so
    is every status that is told; nobody goes wrong, and somebody can always go on; with a second unit of
    the semaphore the flanks of a cycle are counted twice.
\<close>

section \<open>The participants\<close>

text \<open>The positions of the main thread in its loop; the times that an iteration read are kept until its end.\<close>

datatype mpos =
    M_unblocked  \<comment> \<open>after \<open>SIG_UNBLOCK\<close>\<close>
  | M_usleep
  | M_blocked    \<comment> \<open>before \<open>semop\<close>\<close>
  | M_count
  | M_publish
  | M_switch
  | M_clear tick
  | M_post tick

datatype ipos = I_idle | I_wait | I_load | I_store u32 | I_post

datatype ppos = P_idle | P_wait nat nat | P_write nat nat | P_post

datatype rpos = R_idle | R_wait | R_read "int list" | R_post

record dc =
  dm :: iralarmd
  m_at :: mpos
  i_at :: ipos
  p_at :: ppos
  r_at :: rpos
  flanks :: nat           \<comment> \<open>how often \<open>ir_recvd\<close> was increased\<close>
  told :: "int list list" \<comment> \<open>the values of which the messenger made its answers\<close>

definition dc_start :: "iralarmd \<Rightarrow> dc" where
  "dc_start st = \<lparr>dm = st, m_at = M_unblocked, i_at = I_idle, p_at = P_idle, r_at = R_idle, flanks = 0, told = []\<rparr>"

text \<open>The main thread moves on with new variables.\<close>

definition main_to :: "mpos \<Rightarrow> dc \<Rightarrow> iralarmd c_result \<Rightarrow> dc c_result option" where
  "main_to p c r = Some (sbind r (\<lambda>d. Inr (c\<lparr>dm := d, m_at := p\<rparr>)))"

text \<open>The main thread's next statement; \<open>None\<close> if it waits.\<close>

fun main_next :: "pthread_env \<Rightarrow> tick \<Rightarrow> mpos \<Rightarrow> dc \<Rightarrow> dc c_result option" where
  "main_next pe tk M_unblocked c = main_to M_usleep c (Inr (dm c))"
| "main_next pe tk M_usleep c = main_to M_blocked c (Inr (dm c))"
| "main_next pe tk M_blocked c = (if semval (dm c) = 0 then None else main_to M_count c (sem_wait (dm c)))"
| "main_next pe tk M_count c = main_to M_publish c (Inr (count_cycle (dm c)))"
| "main_next pe tk M_publish c = main_to M_switch c (publish_state (dm c))"
| "main_next pe tk M_switch c = main_to (M_clear tk) c (alarm_switch pe tk (astate (dm c)) (dm c))"
| "main_next pe tk (M_clear t) c = main_to (M_post t) c (Inr ((dm c)\<lparr>ir_recvd := 0\<rparr>))"
| "main_next pe tk (M_post t) c = main_to M_unblocked c (Inr (sem_post (dm c)))"

text \<open>A signal's handler, where signals are not blocked; it ends a sleep.\<close>

fun signal_next :: "pthread_env \<Rightarrow> signum \<Rightarrow> mpos \<Rightarrow> dc \<Rightarrow> dc c_result option" where
  "signal_next pe sg M_unblocked c = main_to M_unblocked c (sighandler pe sg (dm c))"
| "signal_next pe sg M_usleep c = main_to M_blocked c (sighandler pe sg (dm c))"
| "signal_next pe sg _ c = None"

text \<open>The interrupt's thread: \<open>ir_recvd++\<close> is a load and a store.\<close>

fun isr_next :: "ipos \<Rightarrow> dc \<Rightarrow> dc option" where
  "isr_next I_idle c = Some (c\<lparr>i_at := I_wait\<rparr>)"
| "isr_next I_wait c =
     (if semval (dm c) = 0 then None else Some (c\<lparr>dm := with_sem (semval (dm c) - 1) (dm c), i_at := I_load\<rparr>))"
| "isr_next I_load c = Some (c\<lparr>i_at := I_store (ir_recvd (dm c))\<rparr>)"
| "isr_next (I_store v) c = Some (c\<lparr>dm := (dm c)\<lparr>ir_recvd := v + 1\<rparr>, i_at := I_post, flanks := flanks c + 1\<rparr>)"
| "isr_next I_post c = Some (c\<lparr>dm := sem_post (dm c), i_at := I_idle\<rparr>)"

text \<open>The control program in \<open>do_set\<close>.\<close>

fun ctl_next :: "nat \<Rightarrow> nat \<Rightarrow> ppos \<Rightarrow> dc \<Rightarrow> dc c_result option" where
  "ctl_next i v P_idle c = Some (Inr (c\<lparr>p_at := P_wait i v\<rparr>))"
| "ctl_next i v (P_wait j w) c =
     (if semval (dm c) = 0 then None
      else Some (Inr (c\<lparr>dm := with_sem (semval (dm c) - 1) (dm c), p_at := P_write j w\<rparr>)))"
| "ctl_next i v (P_write j w) c = Some (sbind (ctl_write j w (dm c)) (\<lambda>d. Inr (c\<lparr>dm := d, p_at := P_post\<rparr>)))"
| "ctl_next i v P_post c = Some (Inr (c\<lparr>dm := sem_post (dm c), p_at := P_idle\<rparr>))"

text \<open>The variables of the status, in the order in which the messenger's thread loads them, one by one.\<close>

definition status_vars :: "iralarmd \<Rightarrow> int list" where
  "status_vars st = [ir_alrm_start st, int (alrm_num (astate st)), uint (ir_recvd st),
     uint (ir_recvd_cycls st), uint (ir_alrm_cycls st)]"

fun msg_next :: "rpos \<Rightarrow> dc \<Rightarrow> dc option" where
  "msg_next R_idle c = Some (c\<lparr>r_at := R_wait\<rparr>)"
| "msg_next R_wait c =
     (if semval (dm c) = 0 then None else Some (c\<lparr>dm := with_sem (semval (dm c) - 1) (dm c), r_at := R_read []\<rparr>))"
| "msg_next (R_read vs) c =
     (if length vs < length (status_vars (dm c)) then Some (c\<lparr>r_at := R_read (vs @ [status_vars (dm c) ! length vs])\<rparr>)
      else Some (c\<lparr>r_at := R_post, told := told c @ [vs]\<rparr>))"
| "msg_next R_post c = Some (c\<lparr>dm := sem_post (dm c), r_at := R_idle\<rparr>)"

inductive dc_step :: "pthread_env \<Rightarrow> dc \<Rightarrow> dc \<Rightarrow> bool" for pe where
  by_main: "exited (dm c) = None \<Longrightarrow> main_next pe tk (m_at c) c = Some (Inr c') \<Longrightarrow> dc_step pe c c'"
| by_signal: "exited (dm c) = None \<Longrightarrow> signal_next pe sg (m_at c) c = Some (Inr c') \<Longrightarrow> dc_step pe c c'"
| by_isr: "exited (dm c) = None \<Longrightarrow> isr_next (i_at c) c = Some c' \<Longrightarrow> dc_step pe c c'"
| by_ctl: "exited (dm c) = None \<Longrightarrow> ctl_next i v (p_at c) c = Some (Inr c') \<Longrightarrow> dc_step pe c c'"
| by_msg: "exited (dm c) = None \<Longrightarrow> msg_next (r_at c) c = Some c' \<Longrightarrow> dc_step pe c c'"

inductive dc_reach :: "pthread_env \<Rightarrow> iralarmd \<Rightarrow> dc \<Rightarrow> bool" for pe st where
  start: "dc_reach pe st (dc_start st)"
| step: "dc_reach pe st c \<Longrightarrow> dc_step pe c c' \<Longrightarrow> dc_reach pe st c'"

section \<open>The simulation\<close>

fun in_main :: "mpos \<Rightarrow> bool" where
  "in_main M_unblocked = False"
| "in_main M_usleep = False"
| "in_main M_blocked = False"
| "in_main _ = True"

fun in_isr :: "ipos \<Rightarrow> bool" where
  "in_isr I_idle = False"
| "in_isr I_wait = False"
| "in_isr _ = True"

fun in_ctl :: "ppos \<Rightarrow> bool" where
  "in_ctl P_idle = False"
| "in_ctl (P_wait i v) = False"
| "in_ctl _ = True"

fun in_msg :: "rpos \<Rightarrow> bool" where
  "in_msg R_idle = False"
| "in_msg R_wait = False"
| "in_msg _ = True"

text \<open>How far an iteration has come at a position.\<close>

definition published :: "iralarmd \<Rightarrow> iralarmd c_result" where
  "published a = sbind (sem_wait a) (\<lambda>s. publish_state (count_cycle s))"

definition moved_on :: "pthread_env \<Rightarrow> tick \<Rightarrow> iralarmd \<Rightarrow> iralarmd c_result" where
  "moved_on pe t a = sbind (published a) (\<lambda>s. alarm_switch pe t (astate s) s)"

fun stage :: "pthread_env \<Rightarrow> mpos \<Rightarrow> iralarmd \<Rightarrow> iralarmd c_result" where
  "stage pe M_count a = sem_wait a"
| "stage pe M_publish a = sbind (sem_wait a) (\<lambda>s. Inr (count_cycle s))"
| "stage pe M_switch a = published a"
| "stage pe (M_clear t) a = moved_on pe t a"
| "stage pe (M_post t) a = sbind (moved_on pe t a) (\<lambda>s. Inr (s\<lparr>ir_recvd := 0\<rparr>))"
| "stage pe _ a = Inr a"

lemma loop_core_stage: "loop_core pe t a = sbind (stage pe (M_post t) a) (\<lambda>s. Inr (sem_post s))"
  by (simp add: loop_core_def published_def moved_on_def sbind_assoc)

definition holder :: "dc \<Rightarrow> bool" where
  "holder c \<longleftrightarrow> in_isr (i_at c) \<or> in_ctl (p_at c) \<or> in_msg (r_at c)"

definition alone :: "dc \<Rightarrow> bool" where
  "alone c \<longleftrightarrow> (in_main (m_at c) \<longrightarrow> \<not> holder c) \<and> (in_isr (i_at c) \<longrightarrow> \<not> in_ctl (p_at c) \<and> \<not> in_msg (r_at c)) \<and>
     (in_ctl (p_at c) \<longrightarrow> \<not> in_msg (r_at c)) \<and>
     (\<forall>v. i_at c = I_store v \<longrightarrow> v = ir_recvd (dm c)) \<and>
     (\<forall>vs. r_at c = R_read vs \<longrightarrow> vs = take (length vs) (status_vars (dm c)))"

text \<open>
  The state \<open>a\<close> of the atomic run: where nobody is inside, the variables themselves; while another
  participant is inside, what it has done so far is already in \<open>a\<close>; while the main thread is,
  \<open>a\<close> is the state from which it began.
\<close>

definition simulates :: "pthread_env \<Rightarrow> dc \<Rightarrow> iralarmd \<Rightarrow> bool" where
  "simulates pe c a \<longleftrightarrow> semval a = 1 \<and> (daemon_ok a \<or> exited a = Some 0) \<and>
     (if in_main (m_at c) then daemon_ok a \<and> stage pe (m_at c) a = Inr (dm c)
      else dm c = with_sem (if holder c then 0 else 1) a)"

definition dc_inv :: "pthread_env \<Rightarrow> iralarmd \<Rightarrow> dc \<Rightarrow> bool" where
  "dc_inv pe st c \<longleftrightarrow> alone c \<and> (\<exists>a. atomic_run pe st (flanks c) a \<and> simulates pe c a)"

lemma daemon_ok_unexited: "daemon_ok a \<Longrightarrow> exited a = None"
  by (simp add: daemon_ok_def)

lemma daemon_ok_semval: "daemon_ok a \<Longrightarrow> semval a = 1"
  by (simp add: daemon_ok_def parts_ok_def)

lemma with_sem_simps [simp]:
  "semval (with_sem n a) = n" "exited (with_sem n a) = exited a" "ir_recvd (with_sem n a) = ir_recvd a"
  "with_sem n (with_sem m a) = with_sem n a" "with_sem (semval a) a = a"
  by (simp_all add: with_sem_def)

lemma count_cycle_keeps: "semval (count_cycle s) = semval s" "exited (count_cycle s) = exited s"
  by (simp_all add: count_cycle_def Let_def)

lemma publish_keeps: "publish_state s = Inr s' \<Longrightarrow> semval s' = semval s \<and> exited s' = exited s"
  by (auto simp: publish_state_def sbind_Inr_iff split: option.splits)

lemma alarm_switch_keeps: "alarm_switch pe tk a s = Inr s' \<Longrightarrow> semval s' = semval s \<and> exited s' = exited s"
  by (cases a) (auto simp: set_thread_data_def resume_alarm_def enter_none_def undoAlarmAction_def doAlarmAction_def
      emit_def Let_def sbind_Inr_iff split: if_splits prod.splits)

text \<open>No stage of an iteration fails or changes the semaphore.\<close>

lemma stage_ok:
  assumes "daemon_ok a" "in_main p"
  shows "\<exists>s. stage pe p a = Inr s \<and> semval s = 0 \<and> exited s = None"
proof -
  have w: "sem_wait a = Inr (with_sem 0 a)"
    using daemon_ok_semval [OF assms(1)] by (simp add: sem_wait_def with_sem_def)
  have e: "exited a = None" using assms(1) by (rule daemon_ok_unexited)
  have p: "semval s = 0 \<and> exited s = None" if "published a = Inr s" for s
    using that w e by (auto simp: published_def count_cycle_keeps dest!: publish_keeps)
  have m: "semval s = 0 \<and> exited s = None" if "moved_on pe t a = Inr s" for t s
    using that p by (auto simp: moved_on_def sbind_Inr_iff dest!: alarm_switch_keeps)
  have l: "\<exists>s. moved_on pe t a = Inr s" for t
  proof -
    obtain a' where "loop_core pe t a = Inr a'" using core_step_ok [OF assms(1), of "Tick t" pe] by auto
    then show ?thesis by (auto simp: loop_core_stage sbind_Inr_iff)
  qed
  show ?thesis
  proof (cases p)
    case M_count
    then show ?thesis using w e by simp
  next
    case M_publish
    then show ?thesis using w e by (simp add: count_cycle_keeps)
  next
    case M_switch
    then show ?thesis using l [of undefined] p by (auto simp: moved_on_def sbind_Inr_iff)
  next
    case (M_clear t)
    then show ?thesis using l [of t] m by auto
  next
    case (M_post t)
    then show ?thesis using l [of t] m by force
  qed (use assms(2) in simp_all)
qed

text \<open>Outside of an iteration the variables are those of the atomic run, up to the semaphore.\<close>

lemma simulates_out:
  assumes "simulates pe c a" "\<not> in_main (m_at c)"
  shows "dm c = with_sem (if holder c then 0 else 1) a" "semval a = 1" "exited (dm c) = exited a"
    "exited (dm c) = None \<Longrightarrow> daemon_ok a"
  using assms by (auto simp: simulates_def)

lemma simulates_free:
  assumes "simulates pe c a" "semval (dm c) \<noteq> 0"
  shows "\<not> in_main (m_at c)" "\<not> holder c" "dm c = a"
proof -
  show m: "\<not> in_main (m_at c)"
    using assms stage_ok [of a "m_at c" pe] by (auto simp: simulates_def)
  then show "\<not> holder c" using simulates_out(1) [OF assms(1)] assms(2) by (auto split: if_splits)
  with simulates_out(1,2) [OF assms(1) m] show "dm c = a" by (metis with_sem_simps(5))
qed

lemma dc_invI:
  assumes "alone c" "atomic_run pe st (flanks c) a" "simulates pe c a"
  shows "dc_inv pe st c"
  using assms by (auto simp: dc_inv_def)

lemma main_to_Inr: "main_to p c r = Some (Inr c') \<longleftrightarrow> (\<exists>d. r = Inr d \<and> c' = c\<lparr>dm := d, m_at := p\<rparr>)"
  by (auto simp: main_to_def sbind_Inr_iff)

lemma post_keeps: "semval (sem_post s) = semval s + 1" "exited (sem_post s) = exited s"
  by (simp_all add: sem_post_def)

lemma sim_main:
  assumes "dc_inv pe st c" "exited (dm c) = None" "main_next pe tk (m_at c) c = Some (Inr c')"
  shows "dc_inv pe st c'"
proof -
  obtain a where a: "alone c" "atomic_run pe st (flanks c) a" "simulates pe c a"
    using assms(1) by (auto simp: dc_inv_def)
  show ?thesis
  proof (cases "m_at c")
    case M_blocked
    with assms(3) have n: "semval (dm c) \<noteq> 0" by (auto split: if_splits)
    note f = simulates_free [OF a(3) n]
    obtain d where d: "sem_wait a = Inr d" "c' = c\<lparr>dm := d, m_at := M_count\<rparr>"
      using assms(3) M_blocked n f(3) by (auto simp: main_to_Inr)
    have "daemon_ok a" using simulates_out(4) [OF a(3) f(1)] assms(2) .
    then have "simulates pe c' a" using d a(3) by (simp add: simulates_def)
    moreover have "alone c'" using f(2) d(2) by (simp add: alone_def holder_def) auto
    ultimately show ?thesis using a(2) d(2) by (intro dc_invI) simp_all
  next
    case (M_post t)
    with a(1,3) have s: "daemon_ok a" "stage pe (M_post t) a = Inr (dm c)" "\<not> holder c"
      by (simp_all add: simulates_def alone_def)
    have c': "c' = c\<lparr>dm := sem_post (dm c), m_at := M_unblocked\<rparr>"
      using assms(3) M_post by (simp add: main_to_def)
    have core: "core_step pe (Tick t) a = Inr (sem_post (dm c))"
      unfolding core_step.simps loop_core_stage s(2) by simp
    have v: "semval (sem_post (dm c)) = 1"
      using stage_ok [OF s(1), of "M_post t" pe] s(2) by (simp add: post_keeps del: stage.simps)
    have "daemon_ok (sem_post (dm c)) \<or> exited (sem_post (dm c)) = Some 0"
      using core_step_ok [OF s(1), of "Tick t" pe] core by simp
    then have "simulates pe c' (sem_post (dm c))"
      using v s(3) with_sem_simps(5) [of "sem_post (dm c)"] by (simp add: c' simulates_def holder_def)
    moreover have "alone c'" using s(3) by (simp add: c' alone_def holder_def) auto
    moreover have "atomic_run pe st (flanks c + 0) (sem_post (dm c))"
      using atomic_run_step [OF a(2) _ core daemon_ok_unexited [OF s(1)]] by simp
    ultimately show ?thesis by (intro dc_invI) (simp_all add: c')
  qed (use assms(3) a in \<open>auto simp: main_to_Inr simulates_def alone_def holder_def published_def moved_on_def
      sbind_Inr_iff intro!: dc_invI [of _ pe st a]\<close>)
qed

lemma status_vars_keeps: "status_vars (sans_sleep a) = status_vars a" "status_vars (with_sem n a) = status_vars a"
  by (simp_all add: status_vars_def sans_sleep_def with_sem_def)

text \<open>A handler leaves the semaphore's value, the count of flanks and the status alone.\<close>

lemma stop_thread_status:
  "stop_thread pe i s = Inr s' \<Longrightarrow> ir_recvd s' = ir_recvd s \<and> status_vars s' = status_vars s"
  by (auto simp: stop_thread_def status_vars_def sbind_Inr_iff split: prod.splits)

lemma sighandler_status:
  "sighandler pe sg s = Inr s' \<Longrightarrow> ir_recvd s' = ir_recvd s \<and> status_vars s' = status_vars s"
  by (cases sg) (auto simp: sighandler_def shutdown_def reload_bytes_def reload_words_def emit_def Let_def
      sbind_Inr_iff case_prod_beta status_vars_def split: if_split_asm dest!: stop_thread_status)

lemma commutes_keeps_sem:
  assumes "\<And>n. commutes (with_sem n) f" "f s = Inr s'"
  shows "semval s' = semval s"
proof -
  have "f (with_sem (semval s) s) = Inr (with_sem (semval s) s')" using commutesD [OF assms] .
  then show ?thesis using assms(2) by (metis with_sem_simps(1,5) sum.inject(2))
qed

lemma commutes_under_sem:
  assumes "\<And>n. commutes (with_sem n) f" "f (with_sem n s) = Inr d"
  obtains s' where "f s = Inr s'" "d = with_sem n s'" "semval s' = semval s"
proof (cases "f s")
  case (Inl e)
  with commutes_Inl [OF assms(1) this, of n] assms(2) show ?thesis by simp
next
  case (Inr s')
  with commutesD [OF assms(1) this, of n] assms(2) that commutes_keeps_sem [OF assms(1) Inr] show ?thesis by simp
qed

lemma sim_signal:
  assumes "dc_inv pe st c" "exited (dm c) = None" "signal_next pe sg (m_at c) c = Some (Inr c')"
  shows "dc_inv pe st c'"
proof -
  obtain a where a: "alone c" "atomic_run pe st (flanks c) a" "simulates pe c a"
    using assms(1) by (auto simp: dc_inv_def)
  obtain p d where d: "sighandler pe sg (dm c) = Inr d" "c' = c\<lparr>dm := d, m_at := p\<rparr>" "\<not> in_main p" "\<not> in_main (m_at c)"
    using assms(3) by (cases "m_at c") (auto simp: main_to_Inr)
  note o = simulates_out [OF a(3) d(4)]
  have "sighandler pe sg (with_sem (if holder c then 0 else 1) a) = Inr d" using d(1) unfolding o(1) [symmetric] .
  then obtain a' where a': "sighandler pe sg a = Inr a'" "d = with_sem (if holder c then 0 else 1) a'" "semval a' = semval a"
    by (rule commutes_under_sem [OF sighandler_commutes [OF a_change_intros(2)]])
  have core: "core_step pe (Signal sg) a = Inr a'" using a'(1) by simp
  have ok: "daemon_ok a" using o(4) assms(2) .
  have "daemon_ok a' \<or> exited a' = Some 0" using core_step_ok [OF ok, of "Signal sg" pe] a'(1) by simp
  then have "simulates pe c' a'"
    using a'(2,3) o(2) d(2,3) by (simp add: simulates_def holder_def)
  moreover have "alone c'" using a(1) d(2,3) sighandler_status [OF d(1)] by (auto simp: alone_def holder_def)
  moreover have "atomic_run pe st (flanks c') a'"
    using atomic_run_step [OF a(2) _ core daemon_ok_unexited [OF ok]] d(2) by simp
  ultimately show ?thesis by (intro dc_invI)
qed

lemma sim_isr:
  assumes "dc_inv pe st c" "exited (dm c) = None" "isr_next (i_at c) c = Some c'"
  shows "dc_inv pe st c'"
proof -
  obtain a where a: "alone c" "atomic_run pe st (flanks c) a" "simulates pe c a"
    using assms(1) by (auto simp: dc_inv_def)
  show ?thesis
  proof (cases "i_at c")
    case I_idle
    then have c': "c' = c\<lparr>i_at := I_wait\<rparr>" using assms(3) by simp
    show ?thesis by (rule dc_invI [of _ pe st a]) (use a I_idle in \<open>auto simp: c' alone_def holder_def simulates_def\<close>)
  next
    case I_wait
    with assms(3) have n: "semval (dm c) \<noteq> 0" by (auto split: if_splits)
    note f = simulates_free [OF a(3) n]
    have c': "c' = c\<lparr>dm := with_sem 0 a, i_at := I_load\<rparr>"
      using assms(3) I_wait n f simulates_out(2) [OF a(3) f(1)] by simp
    show ?thesis by (rule dc_invI [of _ pe st a])
      (use a f in \<open>auto simp: c' alone_def holder_def simulates_def\<close>)
  next
    case I_load
    then have c': "c' = c\<lparr>i_at := I_store (ir_recvd (dm c))\<rparr>" using assms(3) by simp
    show ?thesis by (rule dc_invI [of _ pe st a]) (use a I_load in \<open>auto simp: c' alone_def holder_def simulates_def\<close>)
  next
    case (I_store v)
    then have m: "\<not> in_main (m_at c)" "holder c" "v = ir_recvd (dm c)" using a(1) by (auto simp: alone_def holder_def)
    note o = simulates_out [OF a(3) m(1)]
    let ?a = "a\<lparr>ir_recvd := ir_recvd a + 1\<rparr>"
    have ok: "daemon_ok a" using o(4) assms(2) .
    have d: "dm c = with_sem 0 a" using o(1) m(2) by simp
    have c': "c' = c\<lparr>dm := with_sem 0 ?a, i_at := I_post, flanks := flanks c + 1\<rparr>"
      using assms(3) I_store m(3) by (cases a) (auto simp: d with_sem_def)
    have core: "core_step pe Flank a = Inr ?a"
      using o(2) by (simp add: ir_flank_def sem_wait_def sem_post_def)
    have "daemon_ok ?a" using ok by (simp add: daemon_ok_def threads_ok_def synced_def parts_ok_def)
    then have "simulates pe c' ?a" using o(2) m(1) by (simp add: c' simulates_def holder_def)
    moreover have "alone c'" using a(1) I_store by (auto simp: c' alone_def holder_def)
    moreover have "atomic_run pe st (flanks c') ?a"
      using atomic_run_step [OF a(2) _ core daemon_ok_unexited [OF ok]] by (simp add: c')
    ultimately show ?thesis by (intro dc_invI)
  next
    case I_post
    then have m: "\<not> in_main (m_at c)" "holder c" "\<not> in_ctl (p_at c)" "\<not> in_msg (r_at c)" using a(1) by (auto simp: alone_def holder_def)
    note o = simulates_out [OF a(3) m(1)]
    have c': "c' = c\<lparr>dm := with_sem 1 a, i_at := I_idle\<rparr>"
      using assms(3) I_post o(1) m(2) by (simp add: sem_post_def with_sem_def)
    show ?thesis by (rule dc_invI [of _ pe st a])
      (use a m in \<open>auto simp: c' alone_def holder_def simulates_def\<close>)
  qed
qed

lemma sim_ctl:
  assumes "dc_inv pe st c" "exited (dm c) = None" "ctl_next i v (p_at c) c = Some (Inr c')"
  shows "dc_inv pe st c'"
proof -
  obtain a where a: "alone c" "atomic_run pe st (flanks c) a" "simulates pe c a"
    using assms(1) by (auto simp: dc_inv_def)
  show ?thesis
  proof (cases "p_at c")
    case P_idle
    then have c': "c' = c\<lparr>p_at := P_wait i v\<rparr>" using assms(3) by simp
    show ?thesis by (rule dc_invI [of _ pe st a]) (use a P_idle in \<open>auto simp: c' alone_def holder_def simulates_def\<close>)
  next
    case (P_wait j w)
    with assms(3) have n: "semval (dm c) \<noteq> 0" by (auto split: if_splits)
    note f = simulates_free [OF a(3) n]
    have c': "c' = c\<lparr>dm := with_sem 0 a, p_at := P_write j w\<rparr>"
      using assms(3) P_wait n f simulates_out(2) [OF a(3) f(1)] by simp
    show ?thesis by (rule dc_invI [of _ pe st a])
      (use a f in \<open>auto simp: c' alone_def holder_def simulates_def\<close>)
  next
    case (P_write j w)
    then have m: "\<not> in_main (m_at c)" "holder c" "\<not> in_isr (i_at c)" "\<not> in_msg (r_at c)" using a(1) by (auto simp: alone_def holder_def)
    note o = simulates_out [OF a(3) m(1)]
    have ok: "daemon_ok a" using o(4) assms(2) .
    obtain d where d: "ctl_write j w (with_sem 0 a) = Inr d" "c' = c\<lparr>dm := d, p_at := P_post\<rparr>"
      using assms(3) P_write o(1) m(2) by (auto simp: sbind_Inr_iff)
    obtain a' where a': "ctl_write j w a = Inr a'" "d = with_sem 0 a'" "semval a' = semval a"
      using d(1) by (rule commutes_under_sem [OF ctl_write_commutes [OF a_change_intros(2)]])
    have core: "core_step pe (Ctl_write j w) a = Inr a'" using a'(1) by simp
    have "daemon_ok a' \<or> exited a' = Some 0" using core_step_ok [OF ok, of "Ctl_write j w" pe] a'(1) by simp
    then have "simulates pe c' a'"
      using a'(2,3) o(2) d(2) m(1) by (simp add: simulates_def holder_def)
    moreover have "alone c'" using m by (auto simp: d(2) alone_def holder_def)
    moreover have "atomic_run pe st (flanks c') a'"
      using atomic_run_step [OF a(2) _ core daemon_ok_unexited [OF ok]] d(2) by simp
    ultimately show ?thesis by (intro dc_invI)
  next
    case P_post
    then have m: "\<not> in_main (m_at c)" "holder c" "\<not> in_isr (i_at c)" "\<not> in_msg (r_at c)" using a(1) by (auto simp: alone_def holder_def)
    note o = simulates_out [OF a(3) m(1)]
    have c': "c' = c\<lparr>dm := with_sem 1 a, p_at := P_idle\<rparr>"
      using assms(3) P_post o(1) m(2) by (simp add: sem_post_def with_sem_def)
    show ?thesis by (rule dc_invI [of _ pe st a])
      (use a m in \<open>auto simp: c' alone_def holder_def simulates_def\<close>)
  qed
qed

lemma sim_msg:
  assumes "dc_inv pe st c" "exited (dm c) = None" "msg_next (r_at c) c = Some c'"
  shows "dc_inv pe st c'"
proof -
  obtain a where a: "alone c" "atomic_run pe st (flanks c) a" "simulates pe c a"
    using assms(1) by (auto simp: dc_inv_def)
  show ?thesis
  proof (cases "r_at c")
    case R_idle
    then have c': "c' = c\<lparr>r_at := R_wait\<rparr>" using assms(3) by simp
    show ?thesis by (rule dc_invI [of _ pe st a]) (use a R_idle in \<open>auto simp: c' alone_def holder_def simulates_def\<close>)
  next
    case R_wait
    with assms(3) have n: "semval (dm c) \<noteq> 0" by (auto split: if_splits)
    note f = simulates_free [OF a(3) n]
    have c': "c' = c\<lparr>dm := with_sem 0 a, r_at := R_read []\<rparr>"
      using assms(3) R_wait n f simulates_out(2) [OF a(3) f(1)] by simp
    show ?thesis by (rule dc_invI [of _ pe st a])
      (use a f in \<open>auto simp: c' alone_def holder_def simulates_def\<close>)
  next
    case (R_read vs)
    then have v: "vs = take (length vs) (status_vars (dm c))" using a(1) by (simp add: alone_def)
    have vs: "vs @ [status_vars (dm c) ! length vs] = take (Suc (length vs)) (status_vars (dm c))"
      if "length vs < length (status_vars (dm c))"
      using v that by (metis take_Suc_conv_app_nth)
    show ?thesis
      by (rule dc_invI [of _ pe st a])
        (use a R_read assms(3) vs in \<open>auto simp: alone_def holder_def simulates_def split: if_splits\<close>)
  next
    case R_post
    then have m: "\<not> in_main (m_at c)" "holder c" "\<not> in_isr (i_at c)" "\<not> in_ctl (p_at c)"
      using a(1) by (auto simp: alone_def holder_def)
    note o = simulates_out [OF a(3) m(1)]
    have c': "c' = c\<lparr>dm := with_sem 1 a, r_at := R_idle\<rparr>"
      using assms(3) R_post o(1) m(2) by (simp add: sem_post_def with_sem_def)
    show ?thesis by (rule dc_invI [of _ pe st a])
      (use a m in \<open>auto simp: c' alone_def holder_def simulates_def\<close>)
  qed
qed

lemma dc_reach_inv:
  assumes "dc_reach pe st c" "daemon_ok st"
  shows "dc_inv pe st c"
  using assms(1)
proof (induction rule: dc_reach.induct)
  case start
  have "simulates pe (dc_start st) st"
    using assms(2) daemon_ok_semval [OF assms(2)] by (simp add: simulates_def dc_start_def holder_def with_sem_def)
  moreover have "alone (dc_start st)" by (simp add: alone_def dc_start_def holder_def)
  ultimately show ?case using atomic_run_start by (intro dc_invI) (simp_all add: dc_start_def)
next
  case (step c c')
  from step.hyps(2) step.IH show ?case by (cases rule: dc_step.cases) (auto intro: sim_main sim_signal sim_isr sim_ctl sim_msg)
qed

text \<open>Several steps of one participant.\<close>

lemma dc_reach_main: "dc_reach pe st c \<Longrightarrow> exited (dm c) = None \<Longrightarrow> main_next pe tk (m_at c) c = Some (Inr c') \<Longrightarrow> dc_reach pe st c'"
  by (rule dc_reach.step) (auto intro: by_main)

lemma dc_reach_isr: "dc_reach pe st c \<Longrightarrow> exited (dm c) = None \<Longrightarrow> isr_next (i_at c) c = Some c' \<Longrightarrow> dc_reach pe st c'"
  by (rule dc_reach.step) (auto intro: by_isr)

lemma dc_reach_msg: "dc_reach pe st c \<Longrightarrow> exited (dm c) = None \<Longrightarrow> msg_next (r_at c) c = Some c' \<Longrightarrow> dc_reach pe st c'"
  by (rule dc_reach.step) (auto intro: by_msg)

text \<open>An answer alone, and an interrupt alone.\<close>

lemma loads_all:
  assumes "daemon_ok a" "k \<le> length (status_vars a)"
  shows "dc_reach pe a \<lparr>dm = with_sem 0 a, m_at = M_unblocked, i_at = I_idle, p_at = P_idle,
    r_at = R_read (take k (status_vars a)), flanks = 0, told = []\<rparr>"
  using assms(2)
proof (induction k)
  have e: "exited a = None" "semval a = 1" using assms(1) by (simp_all add: daemon_ok_unexited daemon_ok_semval)
  case 0
  have "dc_reach pe a \<lparr>dm = a, m_at = M_unblocked, i_at = I_idle, p_at = P_idle, r_at = R_idle, flanks = 0, told = []\<rparr>"
    using dc_reach.start [of pe a] by (simp add: dc_start_def)
  then have "dc_reach pe a \<lparr>dm = a, m_at = M_unblocked, i_at = I_idle, p_at = P_idle, r_at = R_wait, flanks = 0, told = []\<rparr>"
    by (rule dc_reach_msg) (simp_all add: e)
  then show ?case by (rule dc_reach_msg) (simp_all add: e)
next
  case (Suc k)
  then have "dc_reach pe a \<lparr>dm = with_sem 0 a, m_at = M_unblocked, i_at = I_idle, p_at = P_idle,
      r_at = R_read (take k (status_vars a)), flanks = 0, told = []\<rparr>" by simp
  then show ?case
    by (rule dc_reach_msg)
      (use Suc.prems assms(1) in \<open>simp_all add: daemon_ok_unexited status_vars_keeps take_Suc_conv_app_nth min_absorb2\<close>)
qed

lemma answer_told:
  assumes "daemon_ok a"
  shows "dc_reach pe a \<lparr>dm = with_sem 0 a, m_at = M_unblocked, i_at = I_idle, p_at = P_idle,
    r_at = R_post, flanks = 0, told = [status_vars a]\<rparr>"
  by (rule dc_reach_msg [OF loads_all [OF assms order_refl]])
    (use assms in \<open>simp_all add: daemon_ok_unexited status_vars_keeps\<close>)


lemma interrupt_inside:
  assumes "daemon_ok a"
  shows "dc_reach pe a \<lparr>dm = with_sem 0 a, m_at = M_unblocked, i_at = I_store (ir_recvd a), p_at = P_idle, r_at = R_idle, flanks = 0, told = []\<rparr>"
proof -
  have e: "exited a = None" "semval a = 1" using assms by (simp_all add: daemon_ok_unexited daemon_ok_semval)
  have "dc_reach pe a \<lparr>dm = a, m_at = M_unblocked, i_at = I_idle, p_at = P_idle, r_at = R_idle, flanks = 0, told = []\<rparr>"
    using dc_reach.start [of pe a] by (simp add: dc_start_def)
  then have "dc_reach pe a \<lparr>dm = a, m_at = M_unblocked, i_at = I_wait, p_at = P_idle, r_at = R_idle, flanks = 0, told = []\<rparr>"
    by (rule dc_reach_isr) (simp_all add: e)
  then have "dc_reach pe a \<lparr>dm = with_sem 0 a, m_at = M_unblocked, i_at = I_load, p_at = P_idle, r_at = R_idle, flanks = 0, told = []\<rparr>"
    by (rule dc_reach_isr) (simp_all add: e)
  then show ?thesis by (rule dc_reach_isr) (simp_all add: e)
qed

lemma interrupt_done:
  assumes "daemon_ok a"
  shows "dc_reach pe a \<lparr>dm = a\<lparr>ir_recvd := ir_recvd a + 1\<rparr>, m_at = M_unblocked, i_at = I_idle, p_at = P_idle, r_at = R_idle, flanks = 1, told = []\<rparr>"
proof -
  have e: "exited a = None" "semval a = 1" using assms by (simp_all add: daemon_ok_unexited daemon_ok_semval)
  have "dc_reach pe a \<lparr>dm = (with_sem 0 a)\<lparr>ir_recvd := ir_recvd a + 1\<rparr>, m_at = M_unblocked, i_at = I_post,
      p_at = P_idle, r_at = R_idle, flanks = 1, told = []\<rparr>"
    by (rule dc_reach_isr [OF interrupt_inside [OF assms]]) (simp_all add: e)
  then show ?thesis
    by (rule dc_reach_isr) (use e in \<open>cases a; simp add: sem_post_def with_sem_def\<close>)+
qed

text \<open>C6: where the semaphore is free, the variables of the daemon are those of a run in which iterations, interrupts,
  signals and writes happen one after the other, each as a whole, up to the log's entries of the sleeps;
  as many interrupts took part in that run as there were increments of \<open>ir_recvd\<close>, though each of them is
  a load and a store, which the other participants run between.\<close>

theorem critical_sections_are_atomic:
  assumes "daemon_ok st" "dc_reach pe st c" "semval (dm c) \<noteq> 0"
  shows "\<exists>is b. d_run pe is st = Inr b \<and> sans_sleep (dm c) = sans_sleep b \<and>
    count_list is Flank = flanks c \<and> list_all uses_sem is"
proof -
  obtain a where "atomic_run pe st (flanks c) a" "simulates pe c a"
    using dc_reach_inv [OF assms(2,1)] by (auto simp: dc_inv_def)
  with simulates_free(3) [OF _ assms(3)] show ?thesis by (auto simp: atomic_run_def)
qed

lemma critical_sections_are_atomic_witness:
  "\<exists>st is b. daemon_ok st \<and> d_run pthread_success is st = Inr b \<and> ir_recvd b = 1 \<and> count_list is Flank = 1"
proof -
  obtain st where st: "daemon_ok st" "ir_recvd st = 0" using fresh_starts by blast
  note r = interrupt_done [OF st(1), of pthread_success]
  have "semval (st\<lparr>ir_recvd := ir_recvd st + 1\<rparr>) \<noteq> 0" using daemon_ok_semval [OF st(1)] by simp
  then obtain "is" b where b: "d_run pthread_success is st = Inr b"
      "sans_sleep (st\<lparr>ir_recvd := ir_recvd st + 1\<rparr>) = sans_sleep b" "count_list is Flank = 1"
    using critical_sections_are_atomic [OF st(1) r] by auto
  from arg_cong [OF b(2), of ir_recvd] have "ir_recvd b = 1" by (simp add: sans_sleep_def st(2))
  with st(1) b show ?thesis by blast
qed

text \<open>What the messenger tells was the status of one state.\<close>

definition told_inv :: "pthread_env \<Rightarrow> iralarmd \<Rightarrow> dc \<Rightarrow> bool" where
  "told_inv pe st c \<longleftrightarrow> (\<forall>vs \<in> set (told c). \<exists>is b. d_run pe is st = Inr b \<and> vs = status_vars b \<and> list_all uses_sem is)"

lemma status_vars_frame: "sans_sleep a = sans_sleep b \<Longrightarrow> status_vars (with_sem n a) = status_vars b"
  using status_vars_keeps by metis

lemma told_step:
  assumes "dc_inv pe st c" "told_inv pe st c" "dc_step pe c c'"
  shows "told_inv pe st c'"
proof (cases "told c' = told c")
  case True
  with assms(2) show ?thesis by (simp add: told_inv_def)
next
  case False
  from assms(3) False obtain vs where vs: "r_at c = R_read vs" "\<not> length vs < length (status_vars (dm c))" "told c' = told c @ [vs]"
  proof (cases rule: dc_step.cases)
    case (by_main tk)
    with False show ?thesis by (cases "m_at c") (auto simp: main_to_Inr split: if_splits)
  next
    case (by_signal sg)
    with False show ?thesis by (cases "m_at c") (auto simp: main_to_Inr split: if_splits)
  next
    case by_isr
    with False show ?thesis by (cases "i_at c") (auto split: if_splits)
  next
    case (by_ctl i v)
    with False show ?thesis by (cases "p_at c") (auto simp: sbind_Inr_iff split: if_splits)
  next
    case by_msg
    with False that show ?thesis by (cases "r_at c") (auto split: if_splits)
  qed
  obtain a where a: "alone c" "atomic_run pe st (flanks c) a" "simulates pe c a"
    using assms(1) by (auto simp: dc_inv_def)
  from vs(1,2) a(1) have m: "\<not> in_main (m_at c)" "vs = status_vars (dm c)" by (auto simp: alone_def holder_def)
  obtain "is" b where b: "d_run pe is st = Inr b" "sans_sleep a = sans_sleep b" "list_all uses_sem is"
    using a(2) by (auto simp: atomic_run_def)
  have "vs = status_vars b" unfolding m(2) simulates_out(1) [OF a(3) m(1)] by (rule status_vars_frame [OF b(2)])
  with b assms(2) show ?thesis unfolding told_inv_def vs(3) by auto
qed

lemma dc_reach_told:
  assumes "dc_reach pe st c" "daemon_ok st"
  shows "told_inv pe st c"
  using assms(1)
proof (induction rule: dc_reach.induct)
  case start
  show ?case by (simp add: told_inv_def dc_start_def)
next
  case (step c c')
  from told_step [OF dc_reach_inv [OF step.hyps(1) assms(2)] step.IH step.hyps(2)] show ?case .
qed

text \<open>C8: the status that the messenger tells, for which it loads five variables one after the other while the
  other participants run, is the status of the daemon in one state of an atomic run.\<close>

theorem told_status_is_consistent:
  assumes "daemon_ok st" "dc_reach pe st c" "vs \<in> set (told c)"
  shows "\<exists>is b. d_run pe is st = Inr b \<and> list_all uses_sem is \<and>
    vs = [ir_alrm_start b, int (alrm_num (astate b)), uint (ir_recvd b), uint (ir_recvd_cycls b), uint (ir_alrm_cycls b)]"
  using dc_reach_told [OF assms(2,1)] assms(3) unfolding told_inv_def status_vars_def by blast

lemma told_status_is_consistent_witness:
  "\<exists>st is b. daemon_ok st \<and> d_run pthread_success is st = Inr b \<and> int (alrm_num (astate b)) = 0 \<and> uint (ir_recvd b) = 0"
proof -
  obtain st where st: "daemon_ok st" "astate st = ALRM_NONE" "ir_recvd st = 0" using fresh_starts by blast
  from told_status_is_consistent [OF st(1) answer_told [OF st(1), of pthread_success], of "status_vars st"]
  obtain "is" b where "d_run pthread_success is st = Inr b"
      "status_vars st = [ir_alrm_start b, int (alrm_num (astate b)), uint (ir_recvd b), uint (ir_recvd_cycls b), uint (ir_alrm_cycls b)]"
    by auto
  moreover from this(2) have "int (alrm_num (astate b)) = 0" "uint (ir_recvd b) = 0"
    using st(2,3) by (simp_all add: status_vars_def)
  ultimately show ?thesis using st(1) by blast
qed

text \<open>No participant goes wrong.\<close>

lemma main_fine:
  assumes "simulates pe c a" "exited (dm c) = None"
  shows "main_next pe tk (m_at c) c \<noteq> Some (Inl e)"
proof (cases "in_main (m_at c)")
  case False
  then show ?thesis by (cases "m_at c") (simp_all add: main_to_def sem_wait_def)
next
  case True
  with assms(1) have a: "daemon_ok a" "stage pe (m_at c) a = Inr (dm c)" by (simp_all add: simulates_def)
  show ?thesis
    using a(2) stage_ok [OF a(1), of M_switch pe] stage_ok [OF a(1), of "M_clear tk" pe] True
    by (cases "m_at c") (auto simp: main_to_def published_def moved_on_def sbind_Inr_iff)
qed

lemma no_error:
  assumes "\<And>n. commutes (with_sem n) f" "f a = Inr a'"
  shows "f (with_sem n a) \<noteq> Inl e"
  using commutesD [OF assms, of n] by simp

lemma signal_fine:
  assumes "simulates pe c a" "exited (dm c) = None"
  shows "signal_next pe sg (m_at c) c \<noteq> Some (Inl e)"
proof (cases "in_main (m_at c)")
  case True
  then show ?thesis by (cases "m_at c") simp_all
next
  case False
  note o = simulates_out [OF assms(1) False]
  obtain a' where "sighandler pe sg a = Inr a'" using core_step_ok [OF o(4), of "Signal sg" pe] assms(2) by auto
  from no_error [where f = "sighandler pe sg", OF _ this] have "sighandler pe sg (dm c) \<noteq> Inl e" for e
    unfolding o(1) by (simp add: sighandler_commutes)
  then show ?thesis by (cases "m_at c"; cases "sighandler pe sg (dm c)") (simp_all add: main_to_def)
qed

lemma ctl_fine:
  assumes "simulates pe c a" "alone c" "exited (dm c) = None"
  shows "ctl_next i v (p_at c) c \<noteq> Some (Inl e)"
proof (cases "p_at c")
  case (P_write j w)
  then have m: "\<not> in_main (m_at c)" using assms(2) by (auto simp: alone_def holder_def)
  note o = simulates_out [OF assms(1) m]
  obtain a' where "ctl_write j w a = Inr a'" using core_step_ok [OF o(4), of "Ctl_write j w" pe] assms(3) by auto
  from no_error [where f = "ctl_write j w", OF _ this] have "ctl_write j w (dm c) \<noteq> Inl e" for e
    unfolding o(1) by (simp add: ctl_write_commutes)
  with P_write show ?thesis by (cases "ctl_write j w (dm c)") simp_all
qed simp_all

lemma one_unit:
  assumes "simulates pe c a" "alone c"
  shows "semval (dm c) + length (filter id [in_main (m_at c), in_isr (i_at c), in_ctl (p_at c), in_msg (r_at c)]) = 1"
proof (cases "in_main (m_at c)")
  case True
  then have "daemon_ok a" "stage pe (m_at c) a = Inr (dm c)" using assms(1) by (simp_all add: simulates_def)
  then have "semval (dm c) = 0" using stage_ok [OF _ True, of a pe] by auto
  with True assms(2) show ?thesis by (simp add: alone_def holder_def)
next
  case False
  with simulates_out(1) [OF assms(1) False] assms(2) show ?thesis by (auto simp: alone_def holder_def)
qed

text \<open>C7: while the daemon runs, the value of the semaphore and the number of the participants between its two
  operations are always one together; no statement of the main thread, of a signal's handler or of the
  control program goes wrong at any point of any interleaving; and if the semaphore is taken, then the
  participant that has it can go on.\<close>

theorem semaphore_protects:
  assumes "daemon_ok st" "dc_reach pe st c" "exited (dm c) = None"
  shows "semval (dm c) + length (filter id [in_main (m_at c), in_isr (i_at c), in_ctl (p_at c), in_msg (r_at c)]) = 1 \<and>
    (\<forall>e. main_next pe tk (m_at c) c \<noteq> Some (Inl e) \<and> signal_next pe sg (m_at c) c \<noteq> Some (Inl e) \<and>
         ctl_next i v (p_at c) c \<noteq> Some (Inl e)) \<and>
    (semval (dm c) = 0 \<longrightarrow>
       in_main (m_at c) \<and> main_next pe tk (m_at c) c \<noteq> None \<or>
       in_isr (i_at c) \<and> isr_next (i_at c) c \<noteq> None \<or>
       in_ctl (p_at c) \<and> ctl_next i v (p_at c) c \<noteq> None \<or>
       in_msg (r_at c) \<and> msg_next (r_at c) c \<noteq> None)"
proof -
  obtain a where a: "alone c" "simulates pe c a"
    using dc_reach_inv [OF assms(2,1)] by (auto simp: dc_inv_def)
  have "in_main (m_at c) \<Longrightarrow> main_next pe tk (m_at c) c \<noteq> None" by (cases "m_at c") (simp_all add: main_to_def)
  moreover have "in_isr (i_at c) \<Longrightarrow> isr_next (i_at c) c \<noteq> None" by (cases "i_at c") simp_all
  moreover have "in_ctl (p_at c) \<Longrightarrow> ctl_next i v (p_at c) c \<noteq> None" by (cases "p_at c") simp_all
  moreover have "in_msg (r_at c) \<Longrightarrow> msg_next (r_at c) c \<noteq> None" by (cases "r_at c") simp_all
  moreover have one: "semval (dm c) + length (filter id [in_main (m_at c), in_isr (i_at c), in_ctl (p_at c), in_msg (r_at c)]) = 1"
    by (rule one_unit [OF a(2,1)])
  moreover from one have "semval (dm c) = 0 \<Longrightarrow> in_main (m_at c) \<or> in_isr (i_at c) \<or> in_ctl (p_at c) \<or> in_msg (r_at c)"
    by (auto split: if_splits)
  ultimately show ?thesis
    using main_fine [OF a(2) assms(3)] signal_fine [OF a(2) assms(3)] ctl_fine [OF a(2,1) assms(3)] by blast
qed

lemma semaphore_protects_witness:
  "\<exists>st c. dc_reach pthread_success st c \<and> semval (dm c) = 0 \<and> in_isr (i_at c) \<and> \<not> in_main (m_at c) \<and>
     isr_next (i_at c) c \<noteq> None"
proof -
  obtain st where st: "daemon_ok st" using fresh_starts by blast
  note r = interrupt_inside [OF st, of pthread_success]
  have "exited (with_sem 0 st) = None" using daemon_ok_unexited [OF st] by simp
  with semaphore_protects [OF st r, of "\<lparr>t_now = 0, t_stop = 0\<rparr>" SIGHUP 0 0] r show ?thesis by fastforce
qed

section \<open>A second unit of the semaphore\<close>

text \<open>
  The semaphore's value is two if the daemon was started on one that was left over.  Then the main thread
  can judge and clear the flanks of a cycle between the interrupt's load and its store, which brings them
  back: all flanks of the judged cycle are counted in the next one again.
\<close>

lemma second_unit_counts_twice:
  assumes "daemon_ok a"
  shows "\<exists>c a'. dc_reach pe (with_sem 2 a) c \<and> loop_core pe tk a = Inr a' \<and> ir_recvd a' = 0 \<and>
    dm c = with_sem 2 (a'\<lparr>ir_recvd := ir_recvd a + 1\<rparr>) \<and> flanks c = 1 \<and> i_at c = I_idle"
proof -
  let ?c = "\<lambda>d m i n. \<lparr>dm = d, m_at = m, i_at = i, p_at = P_idle, r_at = R_idle, flanks = n, told = []\<rparr>"
  let ?v = "I_store (ir_recvd a)"
  have e: "exited a = None" using assms by (rule daemon_ok_unexited)
  have s: "semval a = 1" using assms by (rule daemon_ok_semval)
  have start: "dc_reach pe (with_sem 2 a) (?c (with_sem 2 a) M_unblocked I_idle 0)"
    using dc_reach.start [of pe "with_sem 2 a"] by (simp add: dc_start_def)
  have one: "with_sem (Suc 0) a = a" using with_sem_simps(5) [of a] s by simp
  have "dc_reach pe (with_sem 2 a) (?c (with_sem 2 a) M_unblocked I_wait 0)"
    by (rule dc_reach_isr [OF start]) (simp_all add: e)
  then have "dc_reach pe (with_sem 2 a) (?c a M_unblocked I_load 0)"
    by (rule dc_reach_isr) (simp_all add: e one)
  then have loaded: "dc_reach pe (with_sem 2 a) (?c a M_unblocked ?v 0)"
    by (rule dc_reach_isr) (simp_all add: e)
  obtain s1 s3 s4 where st: "sem_wait a = Inr s1" "published a = Inr s3" "moved_on pe tk a = Inr s4"
      "exited s1 = None" "exited s3 = None" "exited s4 = None" "semval s4 = 0"
    using stage_ok [OF assms, of M_count pe] stage_ok [OF assms, of M_switch pe] stage_ok [OF assms, of "M_clear tk" pe]
    by auto
  from loaded have "dc_reach pe (with_sem 2 a) (?c a M_usleep ?v 0)"
    by (rule dc_reach_main) (simp_all add: e main_to_def)
  then have "dc_reach pe (with_sem 2 a) (?c a M_blocked ?v 0)"
    by (rule dc_reach_main) (simp_all add: e main_to_def)
  then have "dc_reach pe (with_sem 2 a) (?c s1 M_count ?v 0)"
    by (rule dc_reach_main) (simp_all add: e s main_to_def st(1))
  then have "dc_reach pe (with_sem 2 a) (?c (count_cycle s1) M_publish ?v 0)"
    by (rule dc_reach_main) (simp_all add: st(4) main_to_def)
  then have "dc_reach pe (with_sem 2 a) (?c s3 M_switch ?v 0)"
    by (rule dc_reach_main) (use st in \<open>simp_all add: main_to_def count_cycle_keeps published_def\<close>)
  then have "dc_reach pe (with_sem 2 a) (?c s4 (M_clear tk) ?v 0)"
    by (rule dc_reach_main [where tk = tk]) (use st in \<open>simp_all add: main_to_def moved_on_def\<close>)
  then have "dc_reach pe (with_sem 2 a) (?c (s4\<lparr>ir_recvd := 0\<rparr>) (M_post tk) ?v 0)"
    by (rule dc_reach_main) (use st in \<open>simp_all add: main_to_def\<close>)
  then have "dc_reach pe (with_sem 2 a) (?c (sem_post (s4\<lparr>ir_recvd := 0\<rparr>)) M_unblocked ?v 0)"
    by (rule dc_reach_main) (use st in \<open>simp_all add: main_to_def\<close>)
  then have "dc_reach pe (with_sem 2 a) (?c ((sem_post (s4\<lparr>ir_recvd := 0\<rparr>))\<lparr>ir_recvd := ir_recvd a + 1\<rparr>) M_unblocked I_post 1)"
    by (rule dc_reach_isr) (use st in \<open>simp_all add: post_keeps\<close>)
  then have "dc_reach pe (with_sem 2 a)
      (?c (sem_post ((sem_post (s4\<lparr>ir_recvd := 0\<rparr>))\<lparr>ir_recvd := ir_recvd a + 1\<rparr>)) M_unblocked I_idle 1)"
    by (rule dc_reach_isr) (use st in \<open>simp_all add: post_keeps\<close>)
  moreover have "loop_core pe tk a = Inr (sem_post (s4\<lparr>ir_recvd := 0\<rparr>))"
    by (simp add: loop_core_stage st(3))
  moreover have "sem_post ((sem_post (s4\<lparr>ir_recvd := 0\<rparr>))\<lparr>ir_recvd := ir_recvd a + 1\<rparr>) =
      with_sem 2 ((sem_post (s4\<lparr>ir_recvd := 0\<rparr>))\<lparr>ir_recvd := ir_recvd a + 1\<rparr>)"
    using st(7) by (cases s4) (simp add: sem_post_def with_sem_def)
  ultimately show ?thesis by (intro exI conjI) (assumption | simp add: sem_post_def)+
qed

end
