(* ===== verification/Iralarmd_Phases.thy ===== *)
theory Iralarmd_Phases
  imports Iralarmd_Props
begin

text \<open>
  The time between the start of an alarm and the moment it becomes active (\<open>ALRM_PREACTIVE\<close> in
  \<open>iralarm/iralarmd.c\<close>): ten seconds, in which enough good cycles take it back.

  \<^item> \<open>stays\<close>: the cycles in which neither happens.
  \<^item> Fact: the alarm becomes active exactly with the first late cycle, if it was not taken back before.
\<close>

section \<open>The specification before the alarm is active\<close>

definition is_late :: "int \<Rightarrow> int \<Rightarrow> bool" where
  "is_late start now \<longleftrightarrow> now - start > 10"

lemma alarm_next_preactive:
  assumes "a_state a = ALRM_PREACTIVE" "unat (a_good a) = n" "Suc n < 2 ^ 32"
  shows "if is_late (a_start a) now then a_state (alarm_next ma rs b now a) = ALRM_ACTIVE
         else if unat rs < n + (if b then 0 else 1) then a_state (alarm_next ma rs b now a) = ALRM_NONE
         else a_state (alarm_next ma rs b now a) = ALRM_PREACTIVE \<and> a_start (alarm_next ma rs b now a) = a_start a \<and>
              unat (a_good (alarm_next ma rs b now a)) = n + (if b then 0 else 1)"
proof -
  have "unat (a_good a + 1) = n + 1"
    using assms(2,3) by (simp add: unat_word_ariths)
  then show ?thesis
    using assms(1,2)
    by (auto simp: alarm_next_def alarm_count_def alarm_move_def is_late_def word_less_nat_alt)
qed

definition stays :: "u32 \<Rightarrow> int \<Rightarrow> (bool \<times> int) list \<Rightarrow> bool" where
  "stays rs start cs \<longleftrightarrow> (\<forall>c \<in> set cs. \<not> is_late start (snd c)) \<and> good_cycles (map fst cs) \<le> unat rs"

lemma stays_snoc:
  "stays rs start (cs @ [(b, now)]) \<longleftrightarrow>
     stays rs start cs \<and> \<not> is_late start now \<and> good_cycles (map fst cs) + (if b then 0 else 1) \<le> unat rs"
  by (auto simp: stays_def good_cycles_snoc)

lemma stays_take: "stays rs start (take k cs) \<Longrightarrow> j \<le> k \<Longrightarrow> stays rs start (take j cs)"
proof -
  assume a: "stays rs start (take k cs)" "j \<le> k"
  have "take k cs = take j cs @ drop j (take k cs)" using a(2) by (metis append_take_drop_id take_take min_absorb1)
  then show "stays rs start (take j cs)"
    using a(1) by (metis stays_def good_cycles_def count_list_append map_append Un_iff set_append add_leD1)
qed

lemma alarm_run_preactive:
  assumes "a_state a = ALRM_PREACTIVE" "a_good a = 0" "length cs < 2 ^ 32" "stays rs (a_start a) cs"
  shows "a_state (alarm_run ma rs cs a) = ALRM_PREACTIVE \<and> a_start (alarm_run ma rs cs a) = a_start a \<and>
         unat (a_good (alarm_run ma rs cs a)) = good_cycles (map fst cs)"
  using assms(3,4)
proof (induction cs rule: rev_induct)
  case Nil
  with assms show ?case by (simp add: alarm_run_def good_cycles_def)
next
  case (snoc c cs)
  obtain b now where c: "c = (b, now)" by fastforce
  note s = snoc.prems(2) [unfolded c stays_snoc]
  have IH: "a_state (alarm_run ma rs cs a) = ALRM_PREACTIVE" "a_start (alarm_run ma rs cs a) = a_start a"
      "unat (a_good (alarm_run ma rs cs a)) = good_cycles (map fst cs)"
    using snoc s by auto
  have "Suc (good_cycles (map fst cs)) < 2 ^ 32"
    using good_cycles_le [of "map fst cs"] snoc.prems(1) by simp
  with alarm_next_preactive [OF IH(1,3), of now ma rs b] IH(2) s show ?case
    by (auto simp: c alarm_run_snoc good_cycles_snoc)
qed

text \<open>The next cycle after some in which the alarm stays as it is.\<close>

lemma after_stays:
  assumes "a_state a = ALRM_PREACTIVE" "a_good a = 0" "length cs < 2 ^ 32" "k < length cs"
    and "stays rs (a_start a) (take k cs)" "cs ! k = (b, now)"
  shows "a_state (alarm_run ma rs (take (Suc k) cs) a) = ALRM_ACTIVE \<longleftrightarrow> is_late (a_start a) now"
    and "a_state (alarm_run ma rs (take (Suc k) cs) a) = ALRM_PREACTIVE \<longleftrightarrow> stays rs (a_start a) (take (Suc k) cs)"
proof -
  have t: "take (Suc k) cs = take k cs @ [(b, now)]" using assms(4,6) by (simp add: take_Suc_conv_app_nth)
  have l: "length (take k cs) < 2 ^ 32" using assms(3) by simp
  note r = alarm_run_preactive [OF assms(1,2) l assms(5), of ma]
  have "Suc (good_cycles (map fst (take k cs))) < 2 ^ 32"
    using good_cycles_le [of "map fst (take k cs)"] assms(3,4) by simp
  note n = alarm_next_preactive [OF conjunct1 [OF r] conjunct2 [OF conjunct2 [OF r]] this, of now ma rs b]
  from n r show "a_state (alarm_run ma rs (take (Suc k) cs) a) = ALRM_ACTIVE \<longleftrightarrow> is_late (a_start a) now"
    unfolding t alarm_run_snoc by (auto split: if_splits)
  from n r assms(5) show "a_state (alarm_run ma rs (take (Suc k) cs) a) = ALRM_PREACTIVE \<longleftrightarrow> stays rs (a_start a) (take (Suc k) cs)"
    unfolding t alarm_run_snoc stays_snoc by (auto split: if_splits)
qed

lemma alarm_run_activated_iff:
  assumes "a_state a = ALRM_PREACTIVE" "a_good a = 0" "length cs < 2 ^ 32"
  shows "(\<exists>k < length cs. (\<forall>j \<le> k. a_state (alarm_run ma rs (take j cs) a) = ALRM_PREACTIVE) \<and>
            a_state (alarm_run ma rs (take (Suc k) cs) a) = ALRM_ACTIVE) \<longleftrightarrow>
         (\<exists>k < length cs. is_late (a_start a) (snd (cs ! k)) \<and> stays rs (a_start a) (take k cs))"
proof -
  have one: "(\<forall>j \<le> k. a_state (alarm_run ma rs (take j cs) a) = ALRM_PREACTIVE) \<longleftrightarrow> stays rs (a_start a) (take k cs)"
    if "k < length cs" for k
  proof
    assume "stays rs (a_start a) (take k cs)"
    then have "stays rs (a_start a) (take j cs)" if "j \<le> k" for j using stays_take that by blast
    moreover have "length (take j cs) < 2 ^ 32" for j using assms(3) by simp
    ultimately show "\<forall>j \<le> k. a_state (alarm_run ma rs (take j cs) a) = ALRM_PREACTIVE"
      using alarm_run_preactive [OF assms(1,2)] by blast
  next
    assume "\<forall>j \<le> k. a_state (alarm_run ma rs (take j cs) a) = ALRM_PREACTIVE"
    then show "stays rs (a_start a) (take k cs)"
      using that
    proof (induction k)
      case 0
      show ?case by (simp add: stays_def good_cycles_def)
    next
      case (Suc k)
      obtain b now where c: "cs ! k = (b, now)" by fastforce
      have "k < length cs" "stays rs (a_start a) (take k cs)" using Suc by auto
      from after_stays(2) [OF assms this c, of ma] Suc.prems(1) show ?case by blast
    qed
  qed
  have two: "a_state (alarm_run ma rs (take (Suc k) cs) a) = ALRM_ACTIVE \<longleftrightarrow> is_late (a_start a) (snd (cs ! k))"
    if "k < length cs" "stays rs (a_start a) (take k cs)" for k
  proof -
    obtain b now where c: "cs ! k = (b, now)" by fastforce
    from after_stays(1) [OF assms that c, of ma] show ?thesis by (simp add: c)
  qed
  from one two show ?thesis by blast
qed

section \<open>The daemon before the alarm is active\<close>

lemma cycles_reach:
  assumes "daemon_ok st" "ir_recvd st = 0" "\<forall>c \<in> set cs. fst c < 2 ^ 32"
  shows "(\<exists>st'. d_run pe (cycle_inputs (take k cs)) st = Inr st' \<and> astate st' = x) \<longleftrightarrow>
    a_state (alarm_run (ir_minalarm st) (ir_rstalarm st)
      (take k (map (\<lambda>c. (cycle_bad (ir_minrecvd st) c, t_now (snd c))) cs)) (alarm_of st)) = x"
proof -
  have "\<forall>c \<in> set (take k cs). fst c < 2 ^ 32" using assms(3) by (auto dest: in_set_takeD)
  moreover have "astate s = a_state (alarm_of s)" for s by (simp add: alarm_of_def)
  ultimately show ?thesis
    using d_run_cycles [OF assms(1,2), of "take k cs" pe] by (auto simp: take_map)
qed

text \<open>C5: an alarm that was raised becomes active exactly with the first cycle that ends more than ten seconds after
  its start, if no more than \<open>ir_rstalarm\<close> of the cycles before had enough flanks; otherwise it was
  taken back before.  The time goes first: in that cycle one more good cycle does not take it back.\<close>

theorem alarm_active_iff:
  assumes "daemon_ok st" "astate st = ALRM_PREACTIVE" "ir_recvd_cycls st = 0" "ir_recvd st = 0"
    and "length cs < 2 ^ 32" "\<forall>c \<in> set cs. fst c < 2 ^ 32"
  shows "(\<exists>k < length cs.
      (\<forall>j \<le> k. \<exists>st'. d_run pe (cycle_inputs (take j cs)) st = Inr st' \<and> astate st' = ALRM_PREACTIVE) \<and>
      (\<exists>st'. d_run pe (cycle_inputs (take (Suc k) cs)) st = Inr st' \<and> astate st' = ALRM_ACTIVE)) \<longleftrightarrow>
    (\<exists>k < length cs. ir_alrm_start st + 10 < t_now (snd (cs ! k)) \<and>
      (\<forall>c \<in> set (take k cs). t_now (snd c) \<le> ir_alrm_start st + 10) \<and>
      count_list (map (cycle_bad (ir_minrecvd st)) (take k cs)) False \<le> unat (ir_rstalarm st))"
proof -
  let ?bs = "map (\<lambda>c. (cycle_bad (ir_minrecvd st) c, t_now (snd c))) cs"
  have a: "a_state (alarm_of st) = ALRM_PREACTIVE" "a_good (alarm_of st) = 0" "a_start (alarm_of st) = ir_alrm_start st"
    using assms(2,3) by (simp_all add: alarm_of_def)
  have len: "length ?bs < 2 ^ 32" using assms(5) by simp
  have l: "is_late (ir_alrm_start st) t \<longleftrightarrow> ir_alrm_start st + 10 < t" for t by (auto simp: is_late_def)
  have s: "stays (ir_rstalarm st) (ir_alrm_start st) (take k ?bs) \<longleftrightarrow>
      (\<forall>c \<in> set (take k cs). t_now (snd c) \<le> ir_alrm_start st + 10) \<and>
      count_list (map (cycle_bad (ir_minrecvd st)) (take k cs)) False \<le> unat (ir_rstalarm st)" for k
    by (simp add: stays_def good_cycles_def take_map comp_def l not_less)
  show ?thesis
    using alarm_run_activated_iff [OF a(1,2) len, of "ir_minalarm st" "ir_rstalarm st"]
    unfolding cycles_reach [OF assms(1,4,6)] a(3) s l by (auto simp: length_map)
qed

text \<open>An alarm that was raised at the time 100.\<close>

lemma preactive_starts:
  obtains st where "daemon_ok st" "astate st = ALRM_PREACTIVE" "ir_recvd_cycls st = 0" "ir_recvd st = 0"
    "ir_alrm_start st = 100" "ir_minrecvd st = 8"
proof -
  obtain st0 where st0: "daemon_ok st0" "astate st0 = ALRM_NONE" "ir_recvd st0 = 0" "ir_minalarm st0 = 2" "ir_minrecvd st0 = 8"
    using fresh_starts by blast
  let ?st = "st0\<lparr>ir_alrm_cycls := 2\<rparr>"
  have "daemon_ok ?st" using st0(1) by (simp add: daemon_ok_def threads_ok_def synced_def parts_ok_def)
  from loop_body_ok [OF this, of pthread_success "later 100"]
  obtain st where st: "daemon_ok st" "ir_recvd st = 0" "ir_minrecvd st = 8"
      "alarm_of st = alarm_next 2 (ir_rstalarm st0) True 100 (alarm_of ?st)"
    using st0(3-5) by (auto simp: later_def)
  from st(4) have "alarm_of st = \<lparr>a_state = ALRM_PREACTIVE, a_good = 0, a_bad = 3, a_start = 100\<rparr>"
    using st0(2) by (simp add: alarm_of_def alarm_next_def alarm_count_def alarm_move_def)
  with st(1-3) that show ?thesis by (simp add: alarm_of_def)
qed

lemma alarm_active_iff_witness:
  "\<exists>st k st'. astate st = ALRM_PREACTIVE \<and>
     d_run pthread_success (cycle_inputs (take (Suc k) [(0, later 105), (9, later 111)])) st = Inr st' \<and>
     astate st' = ALRM_ACTIVE"
proof -
  let ?cs = "[(0 :: nat, later 105), (9, later 111)]"
  obtain st where st: "daemon_ok st" "astate st = ALRM_PREACTIVE" "ir_recvd_cycls st = 0" "ir_recvd st = 0"
      "ir_alrm_start st = 100" "ir_minrecvd st = 8"
    using preactive_starts by blast
  have "\<exists>k < length ?cs. ir_alrm_start st + 10 < t_now (snd (?cs ! k)) \<and>
      (\<forall>c \<in> set (take k ?cs). t_now (snd c) \<le> ir_alrm_start st + 10) \<and>
      count_list (map (cycle_bad (ir_minrecvd st)) (take k ?cs)) False \<le> unat (ir_rstalarm st)"
    by (intro exI [of _ 1]) (simp add: st(5,6) later_def cycle_bad_def)
  moreover have "length ?cs < 2 ^ 32" "\<forall>c \<in> set ?cs. fst c < 2 ^ 32" by simp_all
  ultimately obtain k st' where "d_run pthread_success (cycle_inputs (take (Suc k) ?cs)) st = Inr st'" "astate st' = ALRM_ACTIVE"
    using alarm_active_iff [OF st(1-4), of ?cs pthread_success] by blast
  with st(2) show ?thesis by blast
qed

end
