(* ===== verification/Iralarmd_Locks.thy ===== *)
theory Iralarmd_Locks
  imports Iralarmd
begin

text \<open>
  The mutexes \<open>mtx_status\<close> and \<open>mtx_alarm\<close> of the alarm daemon (\<open>iralarm/iralarmd.c\<close>), statement by
  statement: the handler of \<open>SIGHUP\<close> stores the configuration under both, the messenger reads all of it
  under both, the status thread reads its two times and the alarm thread the speaker's switch under one.

  \<^item> Each participant has a position; the configuration is the list of the ten variables in the order of
    the handler and of the messenger's text, the objects of the segment another such list, which
    control programs change at any time.
  \<^item> A signal comes in the main thread, which takes no mutex outside of the handler; the other threads
    inherit the mask that \<open>main\<close> blocks before it starts them.
  \<^item> Facts: nobody waits for ever for a mutex, and what a participant has read is of one configuration.
\<close>

section \<open>State\<close>

datatype who = Handler | Messenger | Status_thread | Alarm_led_thread

datatype hpos = H_idle | H_lock_s | H_lock_a | H_load nat | H_unlock_a | H_unlock_s

datatype cfpos = C_idle | C_lock_s | C_lock_a | C_load "int list" | C_unlock_s | C_unlock_a

datatype spos = S_idle | S_lock | S_on | S_off int | S_unlock

datatype apos = A_idle | A_lock | A_load | A_unlock

record lk =
  mtx_status :: "who option"
  mtx_alarm :: "who option"
  cvars :: "int list"
  objs :: "int list"
  h_at :: hpos
  c_at :: cfpos
  s_at :: spos
  a_at :: apos
  gens :: "int list list"      \<comment> \<open>the configuration at the start and after each reload\<close>
  told_config :: "int list list"      \<comment> \<open>of what the messenger made its answers\<close>
  leds :: "(int \<times> int) list"   \<comment> \<open>the times that the status thread used\<close>
  speakers :: "int list"       \<comment> \<open>the switch that the alarm thread used\<close>

text \<open>The variables, and the positions of the ones that the threads use.\<close>

definition config_vars :: "iralarmd \<Rightarrow> int list" where
  "config_vars st = [uint (s_aactive st), uint (s_mainloop st), uint (s_speaker st), uint (s_xmpp st), uint (s_video st),
     uint (s_statusled_on st), uint (s_statusled_off st), uint (ir_minrecvd st), uint (ir_minalarm st), uint (ir_rstalarm st)]"

abbreviation (input) SPEAKER :: nat where "SPEAKER \<equiv> 2"
abbreviation (input) LED_ON :: nat where "LED_ON \<equiv> 5"
abbreviation (input) LED_OFF :: nat where "LED_OFF \<equiv> 6"

definition lk_start :: "iralarmd \<Rightarrow> int list \<Rightarrow> lk" where
  "lk_start st os = \<lparr>mtx_status = None, mtx_alarm = None, cvars = config_vars st, objs = os,
     h_at = H_idle, c_at = C_idle, s_at = S_idle, a_at = A_idle,
     gens = [config_vars st], told_config = [], leds = [], speakers = []\<rparr>"

section \<open>Steps\<close>

fun h_next :: "hpos \<Rightarrow> lk \<Rightarrow> lk option" where
  "h_next H_idle s = Some (s\<lparr>h_at := H_lock_s\<rparr>)"
| "h_next H_lock_s s =
     (if mtx_status s = None then Some (s\<lparr>mtx_status := Some Handler, h_at := H_lock_a\<rparr>) else None)"
| "h_next H_lock_a s =
     (if mtx_alarm s = None then Some (s\<lparr>mtx_alarm := Some Handler, h_at := H_load 0\<rparr>) else None)"
| "h_next (H_load k) s =
     (if k < length (cvars s) then Some (s\<lparr>cvars := (cvars s)[k := objs s ! k], h_at := H_load (Suc k)\<rparr>)
      else Some (s\<lparr>gens := gens s @ [cvars s], h_at := H_unlock_a\<rparr>))"
| "h_next H_unlock_a s = Some (s\<lparr>mtx_alarm := None, h_at := H_unlock_s\<rparr>)"
| "h_next H_unlock_s s = Some (s\<lparr>mtx_status := None, h_at := H_idle\<rparr>)"

fun c_next :: "cfpos \<Rightarrow> lk \<Rightarrow> lk option" where
  "c_next C_idle s = Some (s\<lparr>c_at := C_lock_s\<rparr>)"
| "c_next C_lock_s s =
     (if mtx_status s = None then Some (s\<lparr>mtx_status := Some Messenger, c_at := C_lock_a\<rparr>) else None)"
| "c_next C_lock_a s =
     (if mtx_alarm s = None then Some (s\<lparr>mtx_alarm := Some Messenger, c_at := C_load []\<rparr>) else None)"
| "c_next (C_load vs) s =
     (if length vs < length (cvars s) then Some (s\<lparr>c_at := C_load (vs @ [cvars s ! length vs])\<rparr>)
      else Some (s\<lparr>told_config := told_config s @ [vs], c_at := C_unlock_s\<rparr>))"
| "c_next C_unlock_s s = Some (s\<lparr>mtx_status := None, c_at := C_unlock_a\<rparr>)"
| "c_next C_unlock_a s = Some (s\<lparr>mtx_alarm := None, c_at := C_idle\<rparr>)"

fun s_next :: "spos \<Rightarrow> lk \<Rightarrow> lk option" where
  "s_next S_idle s = Some (s\<lparr>s_at := S_lock\<rparr>)"
| "s_next S_lock s =
     (if mtx_status s = None then Some (s\<lparr>mtx_status := Some Status_thread, s_at := S_on\<rparr>) else None)"
| "s_next S_on s = Some (s\<lparr>s_at := S_off (cvars s ! LED_ON)\<rparr>)"
| "s_next (S_off on) s = Some (s\<lparr>leds := leds s @ [(on, cvars s ! LED_OFF)], s_at := S_unlock\<rparr>)"
| "s_next S_unlock s = Some (s\<lparr>mtx_status := None, s_at := S_idle\<rparr>)"

fun a_next :: "apos \<Rightarrow> lk \<Rightarrow> lk option" where
  "a_next A_idle s = Some (s\<lparr>a_at := A_lock\<rparr>)"
| "a_next A_lock s =
     (if mtx_alarm s = None then Some (s\<lparr>mtx_alarm := Some Alarm_led_thread, a_at := A_load\<rparr>) else None)"
| "a_next A_load s = Some (s\<lparr>speakers := speakers s @ [cvars s ! SPEAKER], a_at := A_unlock\<rparr>)"
| "a_next A_unlock s = Some (s\<lparr>mtx_alarm := None, a_at := A_idle\<rparr>)"

inductive lk_step :: "lk \<Rightarrow> lk \<Rightarrow> bool" where
  by_handler: "h_next (h_at s) s = Some s' \<Longrightarrow> lk_step s s'"
| by_messenger: "c_next (c_at s) s = Some s' \<Longrightarrow> lk_step s s'"
| by_status: "s_next (s_at s) s = Some s' \<Longrightarrow> lk_step s s'"
| by_alarm: "a_next (a_at s) s = Some s' \<Longrightarrow> lk_step s s'"
| by_object: "lk_step s (s\<lparr>objs := (objs s)[i := v]\<rparr>)"

inductive lk_reach :: "iralarmd \<Rightarrow> lk \<Rightarrow> bool" for st where
  start: "length os = length (config_vars st) \<Longrightarrow> lk_reach st (lk_start st os)"
| step: "lk_reach st s \<Longrightarrow> lk_step s s' \<Longrightarrow> lk_reach st s'"

lemma start_witness: "lk_reach (iralarmd_static True) (lk_start (iralarmd_static True) (replicate 10 0))"
  by (rule lk_reach.start) (simp add: config_vars_def)

section \<open>Who has which mutex\<close>

fun h_status :: "hpos \<Rightarrow> bool" where
  "h_status H_idle = False" | "h_status H_lock_s = False" | "h_status _ = True"

fun h_alarm :: "hpos \<Rightarrow> bool" where
  "h_alarm (H_load k) = True" | "h_alarm H_unlock_a = True" | "h_alarm _ = False"

fun c_status :: "cfpos \<Rightarrow> bool" where
  "c_status C_lock_a = True" | "c_status (C_load vs) = True" | "c_status C_unlock_s = True" | "c_status _ = False"

fun c_alarm :: "cfpos \<Rightarrow> bool" where
  "c_alarm (C_load vs) = True" | "c_alarm C_unlock_s = True" | "c_alarm C_unlock_a = True" | "c_alarm _ = False"

fun s_status :: "spos \<Rightarrow> bool" where
  "s_status S_idle = False" | "s_status S_lock = False" | "s_status _ = True"

fun a_alarm :: "apos \<Rightarrow> bool" where
  "a_alarm A_idle = False" | "a_alarm A_lock = False" | "a_alarm _ = True"

text \<open>The owner of a mutex that at most one of three has.\<close>

definition owned :: "who option \<Rightarrow> bool \<Rightarrow> bool \<Rightarrow> bool \<Rightarrow> who \<Rightarrow> bool" where
  "owned m h c t w \<longleftrightarrow>
     m = (if h then Some Handler else if c then Some Messenger else if t then Some w else None) \<and>
     \<not> (h \<and> c) \<and> \<not> (h \<and> t) \<and> \<not> (c \<and> t)"

definition lock_inv :: "lk \<Rightarrow> bool" where
  "lock_inv s \<longleftrightarrow>
     owned (mtx_status s) (h_status (h_at s)) (c_status (c_at s)) (s_status (s_at s)) Status_thread \<and>
     owned (mtx_alarm s) (h_alarm (h_at s)) (c_alarm (c_at s)) (a_alarm (a_at s)) Alarm_led_thread"

lemma owned_free: "owned None h c t w \<longleftrightarrow> \<not> h \<and> \<not> c \<and> \<not> t"
  by (simp add: owned_def)

lemma owned_takes:
  "owned (Some Handler) True False False w" "owned (Some Messenger) False True False w" "owned (Some w) False False True w"
  by (simp_all add: owned_def)

lemma owned_has:
  "owned m True c t w \<longleftrightarrow> m = Some Handler \<and> \<not> c \<and> \<not> t" "owned m h True t w \<longleftrightarrow> m = Some Messenger \<and> \<not> h \<and> \<not> t"
  "owned m h c True w \<longleftrightarrow> m = Some w \<and> \<not> h \<and> \<not> c"
  by (auto simp: owned_def)

lemma owned_some: "owned m h c t w \<Longrightarrow> m \<noteq> None \<Longrightarrow> h \<or> c \<or> t"
  by (cases h; cases c; cases t) (simp_all add: owned_def)

lemma lock_inv_step:
  assumes "lock_inv s" "lk_step s s'"
  shows "lock_inv s'"
  using assms(2)
proof (cases rule: lk_step.cases)
  case by_handler
  with assms(1) show ?thesis
    by (cases "h_at s") (auto simp: lock_inv_def owned_free owned_has split: if_split_asm)
next
  case by_messenger
  with assms(1) show ?thesis
    by (cases "c_at s") (auto simp: lock_inv_def owned_free owned_has split: if_split_asm)
next
  case by_status
  with assms(1) show ?thesis
    by (cases "s_at s") (auto simp: lock_inv_def owned_free owned_has split: if_split_asm)
next
  case by_alarm
  with assms(1) show ?thesis
    by (cases "a_at s") (auto simp: lock_inv_def owned_free owned_has split: if_split_asm)
next
  case by_object
  with assms(1) show ?thesis by (simp add: lock_inv_def)
qed

lemma lk_reach_lock_inv: "lk_reach st s \<Longrightarrow> lock_inv s"
proof (induction rule: lk_reach.induct)
  case (start os)
  show ?case by (simp add: lk_start_def lock_inv_def owned_free)
next
  case (step s s')
  from step.IH step.hyps(2) show ?case by (rule lock_inv_step)
qed

text \<open>Whoever has the second mutex goes on, whoever has the first if the second is free, and all if both are.\<close>

lemma alarm_goes_on:
  "h_alarm p \<Longrightarrow> p \<noteq> H_idle \<and> h_next p s \<noteq> None" "c_alarm q \<Longrightarrow> q \<noteq> C_idle \<and> c_next q s \<noteq> None"
  "a_alarm r \<Longrightarrow> r \<noteq> A_idle \<and> a_next r s \<noteq> None"
  by ((cases p; simp), (cases q; simp), (cases r; simp))

lemma status_goes_on:
  assumes "mtx_alarm s = None"
  shows "h_status p \<Longrightarrow> p \<noteq> H_idle \<and> h_next p s \<noteq> None" "c_status q \<Longrightarrow> q \<noteq> C_idle \<and> c_next q s \<noteq> None"
    "s_status t \<Longrightarrow> t \<noteq> S_idle \<and> s_next t s \<noteq> None"
  by ((cases p; simp add: assms), (cases q; simp add: assms), (cases t; simp add: assms))

lemma free_goes_on:
  assumes "mtx_alarm s = None" "mtx_status s = None"
  shows "h_next p s \<noteq> None" "c_next q s \<noteq> None" "s_next t s \<noteq> None" "a_next r s \<noteq> None"
  by ((cases p; simp add: assms), (cases q; simp add: assms), (cases t; simp add: assms), (cases r; simp add: assms))

text \<open>C10: with the two mutexes the participants never block each other for ever: while one of them is under way, one
  that is under way has a statement that it can execute.\<close>

theorem mutexes_never_deadlock:
  assumes "lk_reach st s" "h_at s \<noteq> H_idle \<or> c_at s \<noteq> C_idle \<or> s_at s \<noteq> S_idle \<or> a_at s \<noteq> A_idle"
  shows "h_at s \<noteq> H_idle \<and> h_next (h_at s) s \<noteq> None \<or> c_at s \<noteq> C_idle \<and> c_next (c_at s) s \<noteq> None \<or>
    s_at s \<noteq> S_idle \<and> s_next (s_at s) s \<noteq> None \<or> a_at s \<noteq> A_idle \<and> a_next (a_at s) s \<noteq> None"
proof -
  have inv: "lock_inv s" using assms(1) by (rule lk_reach_lock_inv)
  consider (alarm) "mtx_alarm s \<noteq> None" | (status) "mtx_alarm s = None" "mtx_status s \<noteq> None"
    | (free) "mtx_alarm s = None" "mtx_status s = None" by blast
  then show ?thesis
  proof cases
    case alarm
    then have "h_alarm (h_at s) \<or> c_alarm (c_at s) \<or> a_alarm (a_at s)"
      using inv owned_some unfolding lock_inv_def by blast
    then show ?thesis using alarm_goes_on by blast
  next
    case status
    then have "h_status (h_at s) \<or> c_status (c_at s) \<or> s_status (s_at s)"
      using inv owned_some unfolding lock_inv_def by blast
    then show ?thesis using status_goes_on status(1) by blast
  next
    case free
    with assms(2) free_goes_on show ?thesis by blast
  qed
qed

lemma mutexes_never_deadlock_witness:
  "\<exists>s s'. lk_reach (iralarmd_static True) s \<and> h_at s = H_lock_s \<and> h_next (h_at s) s = Some s' \<and> mtx_status s' = Some Handler"
proof -
  let ?s = "(lk_start (iralarmd_static True) (replicate 10 0))\<lparr>h_at := H_lock_s\<rparr>"
  have "lk_step (lk_start (iralarmd_static True) (replicate 10 0)) ?s" by (rule by_handler) (simp add: lk_start_def)
  with start_witness have r: "lk_reach (iralarmd_static True) ?s" by (rule lk_reach.step)
  have "h_next (h_at ?s) ?s \<noteq> None" using mutexes_never_deadlock [OF r] by (simp add: lk_start_def)
  then obtain s' where "h_next (h_at ?s) ?s = Some s'" by blast
  moreover from this have "mtx_status s' = Some Handler" by (auto simp: lk_start_def)
  ultimately show ?thesis using r by (intro exI [of _ ?s] exI [of _ s']) simp
qed

section \<open>What the participants read\<close>

fun loading :: "hpos \<Rightarrow> bool" where
  "loading (H_load k) = True" | "loading _ = False"

lemma loading_has: "loading p \<Longrightarrow> h_status p \<and> h_alarm p"
  by (cases p) simp_all

definition read_inv :: "lk \<Rightarrow> bool" where
  "read_inv s \<longleftrightarrow> (loading (h_at s) \<or> cvars s \<in> set (gens s)) \<and>
     (\<forall>vs. c_at s = C_load vs \<longrightarrow> vs = take (length vs) (cvars s)) \<and> (\<forall>on. s_at s = S_off on \<longrightarrow> on = cvars s ! LED_ON)"

definition used_inv :: "lk \<Rightarrow> bool" where
  "used_inv s \<longleftrightarrow> set (told_config s) \<subseteq> set (gens s) \<and> set (leds s) \<subseteq> (\<lambda>g. (g ! LED_ON, g ! LED_OFF)) ` set (gens s) \<and>
     set (speakers s) \<subseteq> (\<lambda>g. g ! SPEAKER) ` set (gens s)"

text \<open>While one of the readers is inside, the handler is not storing.\<close>

lemma readers_exclude:
  assumes "lock_inv s" "c_alarm (c_at s) \<or> s_status (s_at s) \<or> a_alarm (a_at s)"
  shows "\<not> loading (h_at s)"
  using assms loading_has [of "h_at s"] by (auto simp: lock_inv_def owned_def)

lemma read_inv_step:
  assumes "lock_inv s" "read_inv s" "lk_step s s'"
  shows "read_inv s'"
  using assms(3)
proof (cases rule: lk_step.cases)
  case by_handler
  with assms readers_exclude [OF assms(1)] show ?thesis
    by (cases "h_at s") (auto simp: read_inv_def split: if_split_asm)
next
  case by_messenger
  with assms show ?thesis
    by (cases "c_at s") (auto simp: read_inv_def take_Suc_conv_app_nth split: if_split_asm)
next
  case by_status
  with assms show ?thesis by (cases "s_at s") (auto simp: read_inv_def split: if_split_asm)
next
  case by_alarm
  with assms show ?thesis by (cases "a_at s") (auto simp: read_inv_def split: if_split_asm)
next
  case by_object
  with assms show ?thesis by (simp add: read_inv_def)
qed

lemma used_inv_step:
  assumes "lock_inv s" "read_inv s" "used_inv s" "lk_step s s'"
  shows "used_inv s'"
  using assms(4)
proof (cases rule: lk_step.cases)
  case by_handler
  with assms(3) show ?thesis by (cases "h_at s") (auto simp: used_inv_def split: if_split_asm)
next
  case by_messenger
  with assms readers_exclude [OF assms(1)] show ?thesis
    by (cases "c_at s") (auto simp: used_inv_def read_inv_def split: if_split_asm)
next
  case by_status
  with assms readers_exclude [OF assms(1)] show ?thesis
    by (cases "s_at s") (auto simp: used_inv_def read_inv_def split: if_split_asm)
next
  case by_alarm
  with assms readers_exclude [OF assms(1)] show ?thesis
    by (cases "a_at s") (auto simp: used_inv_def read_inv_def split: if_split_asm)
next
  case by_object
  with assms(3) show ?thesis by (simp add: used_inv_def)
qed

lemma lk_reach_inv: "lk_reach st s \<Longrightarrow> lock_inv s \<and> read_inv s \<and> used_inv s"
proof (induction rule: lk_reach.induct)
  case (start os)
  show ?case by (simp add: lk_start_def lock_inv_def owned_free read_inv_def used_inv_def)
next
  case (step s s')
  then show ?case using lock_inv_step read_inv_step used_inv_step by blast
qed

text \<open>C9: the configuration that the messenger tells is one that was in force as a whole, the one at the start or
  the one after some reload, though the handler stores its variables one by one; so are the pair of
  times with which the status LED blinks, and the switch of the speaker.\<close>

theorem configuration_read_whole:
  assumes "lk_reach st s"
  shows "set (told_config s) \<subseteq> set (gens s) \<and> set (leds s) \<subseteq> (\<lambda>g. (g ! LED_ON, g ! LED_OFF)) ` set (gens s) \<and>
    set (speakers s) \<subseteq> (\<lambda>g. g ! SPEAKER) ` set (gens s)"
  using lk_reach_inv [OF assms] by (simp add: used_inv_def)

lemma configuration_read_whole_witness:
  "\<exists>s. lk_reach (iralarmd_static True) s \<and> speakers s = [0] \<and> (\<exists>g \<in> set (gens s). g ! SPEAKER = 0)"
proof -
  let ?s0 = "lk_start (iralarmd_static True) (replicate 10 0)"
  let ?s2 = "?s0\<lparr>mtx_alarm := Some Alarm_led_thread, a_at := A_load\<rparr>"
  let ?s3 = "?s0\<lparr>mtx_alarm := Some Alarm_led_thread, a_at := A_unlock, speakers := [0]\<rparr>"
  have "lk_step ?s0 (?s0\<lparr>a_at := A_lock\<rparr>)" by (rule by_alarm) (simp add: lk_start_def)
  with start_witness have "lk_reach (iralarmd_static True) (?s0\<lparr>a_at := A_lock\<rparr>)" by (rule lk_reach.step)
  moreover have "lk_step (?s0\<lparr>a_at := A_lock\<rparr>) ?s2" by (rule by_alarm) (simp add: lk_start_def)
  ultimately have "lk_reach (iralarmd_static True) ?s2" by (rule lk_reach.step)
  moreover have "lk_step ?s2 ?s3"
    by (rule by_alarm) (simp add: lk_start_def config_vars_def iralarmd_static_def)
  ultimately have r: "lk_reach (iralarmd_static True) ?s3" by (rule lk_reach.step)
  from configuration_read_whole [OF r] have "0 \<in> (\<lambda>g. g ! SPEAKER) ` set (gens ?s3)" by simp
  then have "\<exists>g \<in> set (gens ?s3). g ! SPEAKER = 0" by force
  with r show ?thesis by (intro exI [of _ ?s3]) simp
qed

end
