(* ===== verification/Spec2Isabelle.thy ===== *)
theory Spec2Isabelle
  imports Prelude CLib Irshmem Irthread Irthread_Conc Irpio Portex_Sysfs Sniffer Iralarmd_Props
    Iralarmctl Irxmpp Irxmpp_Stanza Irxmpp_Props Irxmpp_Thread Iralarmd_Main Iralarmd_Main_Props Iralarm_System Iralarm_Notify Iralarmd_Conc Iralarmd_Phases
    Iralarmd_Locks
begin

text \<open>
  Verification of the programs for the Raspberry Pi in this repository.

  \<^bold>\<open>The programs.\<close>
  \<^item> \<open>src/iralarm\<close>: an infrared light barrier as an alarm.  The daemon \<open>iralarmd.c\<close> counts the falling flanks
    of a receiver in an interrupt handler; its main loop judges each cycle, runs the state machine of
    the alarm, and hands the state to two threads, one for the status LED, one for the alarm's LED and
    speaker.  It uses the threads of \<open>irthread.c\<close>, the pins of \<open>irpio.c\<close>, the shared segment of
    \<open>irshmem.c\<close>, and, where it is built in, the messenger of \<open>irxmpp.c\<close> over libstrophe.  The control
    program \<open>iralarmctl.c\<close> reads and writes the segment and signals the daemon.
  \<^item> \<open>src/netled\<close>: \<open>sniffer.c\<close> makes LEDs blink for the packets that libpcap captures.
  \<^item> \<open>src/portexpander\<close>: a kernel module for an SPI port expander, with files in sysfs for its pins.

  \<^bold>\<open>The theories.\<close>
  \<^item> \<open>Prelude\<close>: words of 8, 16 and 32 bits, the errors of C (\<open>c_error\<close>) and results that may be one
    (\<open>c_result\<close>, \<open>sbind\<close>, \<open>sfoldM\<close>), arrays with their bounds, totality on an invariant (\<open>total_on\<close>).
    \<open>CLib\<close>: the part of the C library that the programs compute with: strings, tokens, numbers, options.
  \<^item> \<open>Irshmem\<close> (\<open>irshmem.c\<close>): the object table, its offsets and pointers, attaching; the segment is a list of
    bytes.  The locale \<open>cell_store\<close> is the interface of independent cells, interpreted on the code's
    accesses; the daemon and the control program use it.
  \<^item> \<open>Irthread\<close> (\<open>irthread.c\<close>): the table of threads and its operations; the locale \<open>thread_pool\<close> is what the
    daemon relies on.  Lemmas: the table is well-formed after any operations, which operations go wrong,
    which slot a start takes.  \<open>Irthread_Conc\<close>: the thread's main loop and its controller, statement
    by statement, interleaved: mutual exclusion, when a stop returns, lost and spurious wakeups.
  \<^item> \<open>Irpio\<close> (\<open>irpio.c\<close>): registers as maps, writes as a log; revision of the board, functions of the pins, PWM,
    levels; refinement of the levels, termination of the wait for the clock.
  \<^item> \<open>Iralarmd\<close>, \<open>Iralarmd_Bursts\<close>, \<open>Iralarmd_Init\<close>, \<open>Iralarmd_Props\<close> (\<open>iralarmd.c\<close>): the daemon's variables are
    a record with the source's names; an iteration of the main loop, an interrupt, a signal, a round of a
    thread and a write of another process are the inputs of \<open>d_run\<close>.  The invariant \<open>daemon_ok\<close> holds
    after a successful set-up and is kept by all inputs; the loop refines the machine \<open>alarm\<close>, and an
    alarm is raised exactly after a burst of bad cycles (\<open>Iralarmd_Phases\<close>: and becomes active with the
    first cycle later than ten seconds).  \<open>Iralarmd_Frame\<close>, \<open>Iralarmd_Conc\<close>: the statements between the
    semaphore's operations, of the main loop, the interrupt handler, the control program and the messenger,
    interleaved; every interleaving is a run \<open>d_run\<close>, which is what the other theories start from.
    \<open>Iralarmd_Locks\<close>: the mutexes under which the handler of \<open>SIGHUP\<close> stores the configuration variable
    by variable: no deadlock, and nobody reads a half of it.
    \<open>Iralarmd_Main\<close>, \<open>Iralarmd_Main_Props\<close>: the
    first half of \<open>main\<close>, \<open>daemonize\<close>, and the messenger's callback: when the main loop is entered, as
    whom, and what the remote commands answer.  \<open>Iralarm_Notify\<close>: the message of an alarm goes to the
    messenger once and whole; the process of the recorder.
  \<^item> \<open>Irxmpp\<close>, \<open>Irxmpp_Stanza\<close>, \<open>Irxmpp_Props\<close>, \<open>Irxmpp_Thread\<close> (\<open>irxmpp.c\<close>): the configuration, the password
    file, all handlers as programs of calls of libstrophe, the commands, the connecting thread and its
    interleaving with the main thread.  The locale \<open>messenger\<close> is the interface by which handlers and
    daemon send texts.  Lemmas: stanzas are used as libstrophe asks (\<open>obeys\<close>), what is sent to whom
    (\<open>outbox\<close>), who is trusted, that a stop is obeyed.
  \<^item> \<open>Iralarmctl\<close> (\<open>iralarmctl.c\<close>): the objects from the command line and from the shell.  \<open>Iralarm_System\<close>: the
    control program and the daemon on one segment: a set object takes effect.
  \<^item> \<open>Sniffer\<close> (\<open>sniffer.c\<close>): the packet callbacks on bytes, the counters filled by the capture and drained by
    the blinker, in every interleaving.
  \<^item> \<open>Portex_Spi\<close>, \<open>Portex_Sysfs\<close> (\<open>portex_spi.c\<close>, \<open>portex_sysfs.c\<close>, \<open>portex_init.c\<close>): the registers and their
    cache, probing, the files of the class; any run of writes refines sixteen pins.

  \<^bold>\<open>Conventions.\<close>  A static variable is a field of its file's record, a function a definition of its name
  on that record; a loop over a table is a fold or a recursion; an access through a null pointer or outside
  of an array, and waiting for ever, are values of \<open>c_error\<close>.  What the kernel, libpcap and libstrophe
  answer is an argument, what they are asked a log.  The build is that of \<open>config.h\<close> without debugging
  and with the camera; whether the messenger is built in is the field \<open>do_xmpp\<close>.  The machine is the
  Raspberry Pi: 32 bits, little-endian.

  \<^bold>\<open>Bounds.\<close>  Loops are structural or have a measure; the wait for the PWM clock, which may never end, is a
  partial function, and its end is characterised.  The rendering of stanzas goes four levels deep, which is
  the depth of the deepest that the program builds.  Threads and processes are interleaved by statements
  in \<open>Irthread_Conc\<close>, \<open>Irxmpp_Thread\<close>, \<open>Iralarmd_Conc\<close> and \<open>Iralarmd_Locks\<close>, by critical sections in \<open>Sniffer\<close>, and by whole
  operations in the daemon's runs; \<open>Iralarmd_Conc\<close> shows that these runs are enough, but for the rounds of
  the two threads, which do not take the semaphore.  A signal's handler is one step, but
  for \<open>Iralarmd_Locks\<close>.  Memory is
  sequentially consistent.

  \<^bold>\<open>Not modelled.\<close>  \<open>test.c\<close> and \<open>test_out.py\<close> are run by hand and have no logic of their own; build files
  and service scripts; the logging macros of \<open>log.h\<close>, which only print; the variant of \<open>irpio.c\<close> over
  wiringPi, which the build does not select; what the camera's recorder does once it is started;
  the formatting of log lines and of the help text; the installation of the signal handlers.
\<close>

end
